(* ===== verification/Crab_Prelude.thy ===== *)
theory Crab_Prelude
  imports Complex_Main "HOL-Library.Char_ord" "HOL-Library.List_Lexorder" "HOL-Library.Sublist"
begin

text \<open>
  The vocabulary the component theories share.  Identifiers (\<open>SandboxId\<close>, \<open>CheckpointId\<close>, \<open>JobId\<close>
  of \<^verbatim>\<open>crab/ids.py\<close>) are strings.  A raised Python exception is a value of \<open>py_error\<close> (its class, not
  its message) and a fallible operation returns \<open>py_error + 'a\<close>.  Values of a \<open>dict[str, Any]\<close> are
  \<open>pyval\<close>s, such a dictionary is a map.  A point in time is the number of microseconds since the
  epoch (a \<open>datetime\<close> of the code is always UTC and has microsecond resolution); durations in seconds,
  which the code computes as floats, are rationals.  Text is a list of ASCII characters: case mapping and
  white space are Python's on that range.
\<close>

section \<open>Named collections\<close>

named_theorems crab_defs \<open>definitions of small accessors and constants, unfolded by component proofs\<close>
named_theorems crab_split \<open>case rules the proofs split with\<close>

section \<open>Identifiers, errors, values\<close>

type_synonym sandbox_id = string
type_synonym checkpoint_id = string
type_synonym job_id = string
type_synonym instant = int

datatype py_error =
    ValueError
  | TypeError
  | KeyError
  | IndexError
  | FileNotFoundError
  | RuntimeError
  | OSError
  | NotImplementedError
  | AttributeError

type_synonym 'a res = "py_error + 'a"

datatype pyval =
    PNone
  | PBool bool
  | PInt int
  | PFloat rat
  | PStr string
  | PList "pyval list"
  | PDict "(string \<times> pyval) list"

type_synonym metadata = "string \<rightharpoonup> pyval"

text \<open>Python truth: \<open>bool(v)\<close>.\<close>

fun py_truthy :: "pyval \<Rightarrow> bool" where
  "py_truthy PNone = False"
| "py_truthy (PBool b) = b"
| "py_truthy (PInt i) = (i \<noteq> 0)"
| "py_truthy (PFloat r) = (r \<noteq> 0)"
| "py_truthy (PStr s) = (s \<noteq> [])"
| "py_truthy (PList xs) = (xs \<noteq> [])"
| "py_truthy (PDict xs) = (xs \<noteq> [])"

text \<open>\<open>bool(d.get(k, False))\<close>, and \<open>d.get(k)\<close> with an explicit \<open>None\<close> read as absent.\<close>

definition meta_flag :: "metadata \<Rightarrow> string \<Rightarrow> bool" where
  "meta_flag m k = (case m k of None \<Rightarrow> False | Some v \<Rightarrow> py_truthy v)"

definition meta_get :: "metadata \<Rightarrow> string \<Rightarrow> pyval option" where
  "meta_get m k = (case m k of None \<Rightarrow> None | Some v \<Rightarrow> if v = PNone then None else Some v)"

lemma meta_flag_simps [simp]:
  "meta_flag Map.empty k = False"
  "meta_flag (m(k \<mapsto> v)) k = py_truthy v"
  "k \<noteq> k' \<Longrightarrow> meta_flag (m(k \<mapsto> v)) k' = meta_flag m k'"
  by (simp_all add: meta_flag_def)

lemma meta_get_simps [simp]:
  "meta_get Map.empty k = None"
  "meta_get (m(k \<mapsto> v)) k = (if v = PNone then None else Some v)"
  "k \<noteq> k' \<Longrightarrow> meta_get (m(k \<mapsto> v)) k' = meta_get m k'"
  by (simp_all add: meta_get_def)

section \<open>Text\<close>

text \<open>White space of \<open>str.strip\<close> and of \<open>bytes.strip\<close> on the ASCII range.\<close>

definition str_space :: "char \<Rightarrow> bool" where
  "str_space c = (let n = (of_char c :: nat) in (9 \<le> n \<and> n \<le> 13) \<or> (28 \<le> n \<and> n \<le> 32))"

definition bytes_space :: "char \<Rightarrow> bool" where
  "bytes_space c = (let n = (of_char c :: nat) in (9 \<le> n \<and> n \<le> 13) \<or> n = 32)"

definition strip_by :: "(char \<Rightarrow> bool) \<Rightarrow> string \<Rightarrow> string" where
  "strip_by sp s = rev (dropWhile sp (rev (dropWhile sp s)))"

abbreviation str_strip :: "string \<Rightarrow> string" where
  "str_strip \<equiv> strip_by str_space"

abbreviation bytes_strip :: "string \<Rightarrow> string" where
  "bytes_strip \<equiv> strip_by bytes_space"

definition char_lower :: "char \<Rightarrow> char" where
  "char_lower c = (let n = (of_char c :: nat) in if 65 \<le> n \<and> n \<le> 90 then char_of (n + 32) else c)"

definition char_upper :: "char \<Rightarrow> char" where
  "char_upper c = (let n = (of_char c :: nat) in if 97 \<le> n \<and> n \<le> 122 then char_of (n - 32) else c)"

abbreviation str_lower :: "string \<Rightarrow> string" where
  "str_lower \<equiv> map char_lower"

abbreviation str_upper :: "string \<Rightarrow> string" where
  "str_upper \<equiv> map char_upper"

definition is_digit :: "char \<Rightarrow> bool" where
  "is_digit c = (let n = (of_char c :: nat) in 48 \<le> n \<and> n \<le> 57)"

text \<open>\<open>s.isdigit()\<close>: at least one character, all of them digits.\<close>

definition str_isdigit :: "string \<Rightarrow> bool" where
  "str_isdigit s = (s \<noteq> [] \<and> list_all is_digit s)"

text \<open>The value of a digit in a base up to 16, and a run of digits with single underscores inside,
  as \<open>int()\<close> accepts it.\<close>

definition digit_value :: "nat \<Rightarrow> char \<Rightarrow> nat option" where
  "digit_value b c =
     (let n = (of_char c :: nat);
          v = (if 48 \<le> n \<and> n \<le> 57 then n - 48
               else if 97 \<le> n \<and> n \<le> 102 then n - 87
               else if 65 \<le> n \<and> n \<le> 70 then n - 55 else b)
      in if v < b then Some v else None)"

fun digits_value :: "nat \<Rightarrow> nat \<Rightarrow> bool \<Rightarrow> string \<Rightarrow> nat option" where
  "digits_value b acc prev [] = (if prev then Some acc else None)"
| "digits_value b acc prev (c # cs) =
     (if c = CHR ''_'' then (if prev then digits_value b acc False cs else None)
      else case digit_value b c of
             None \<Rightarrow> None
           | Some d \<Rightarrow> digits_value b (acc * b + d) True cs)"

definition split_sign :: "string \<Rightarrow> int \<times> string" where
  "split_sign s = (case s of
      [] \<Rightarrow> (1, [])
    | c # cs \<Rightarrow> if c = CHR ''-'' then (- 1, cs) else if c = CHR ''+'' then (1, cs) else (1, s))"

text \<open>\<open>int(text, base)\<close> for base 10 and 16; the base prefix \<open>0x\<close> (with one optional underscore after
  it) is accepted in base 16.\<close>

definition drop_hex_prefix :: "string \<Rightarrow> string" where
  "drop_hex_prefix s =
     (if take 2 s = ''0x'' \<or> take 2 s = ''0X''
      then (let r = drop 2 s in if take 1 r = ''_'' then drop 1 r else r) else s)"

definition int_text :: "(char \<Rightarrow> bool) \<Rightarrow> nat \<Rightarrow> string \<Rightarrow> int res" where
  "int_text sp b s =
     (let (sg, r) = split_sign (strip_by sp s);
          r' = (if b = 16 then drop_hex_prefix r else r)
      in case digits_value b 0 False r' of None \<Rightarrow> Inl ValueError | Some n \<Rightarrow> Inr (sg * int n))"

text \<open>\<open>float(text)\<close> on finite decimal literals.  The model's floats are exact rationals, so the
  rounding to a binary double and the non-finite literals are left out.\<close>

definition digits_opt :: "string \<Rightarrow> nat option" where
  "digits_opt s = (if s = [] then Some 0 else digits_value 10 0 False s)"

definition mantissa_text :: "string \<Rightarrow> rat option" where
  "mantissa_text s =
     (let ip = takeWhile (\<lambda>c. c \<noteq> CHR ''.'') s;
          fp = drop 1 (dropWhile (\<lambda>c. c \<noteq> CHR ''.'') s)
      in if ip = [] \<and> fp = [] then None
         else case (digits_opt ip, digits_opt fp) of
           (Some i, Some f) \<Rightarrow>
             Some (of_nat i + of_nat f / 10 ^ length (filter (\<lambda>c. c \<noteq> CHR ''_'') fp))
         | _ \<Rightarrow> None)"

definition float_text :: "string \<Rightarrow> rat res" where
  "float_text s =
     (let (sg, r) = split_sign (str_strip s);
          m = takeWhile (\<lambda>c. c \<noteq> CHR ''e'' \<and> c \<noteq> CHR ''E'') r;
          e = dropWhile (\<lambda>c. c \<noteq> CHR ''e'' \<and> c \<noteq> CHR ''E'') r
      in case mantissa_text m of
           None \<Rightarrow> Inl ValueError
         | Some x \<Rightarrow>
             if e = [] then Inr (of_int sg * x)
             else (let (es, er) = split_sign (drop 1 e) in
                   case digits_value 10 0 False er of
                     None \<Rightarrow> Inl ValueError
                   | Some k \<Rightarrow> Inr (of_int sg * (if es = 1 then x * 10 ^ k else x / 10 ^ k))))"

text \<open>\<open>int(v)\<close> and \<open>float(v)\<close> on a dynamic value.\<close>

fun py_int :: "pyval \<Rightarrow> int res" where
  "py_int (PInt i) = Inr i"
| "py_int (PBool b) = Inr (if b then 1 else 0)"
| "py_int (PFloat r) = Inr (if r < 0 then \<lceil>r\<rceil> else \<lfloor>r\<rfloor>)"
| "py_int (PStr s) = int_text str_space 10 s"
| "py_int v = Inl TypeError"

fun py_float :: "pyval \<Rightarrow> rat res" where
  "py_float (PFloat r) = Inr r"
| "py_float (PInt i) = Inr (of_int i)"
| "py_float (PBool b) = Inr (if b then 1 else 0)"
| "py_float (PStr s) = float_text s"
| "py_float v = Inl TypeError"

text \<open>Decimal digits of an integer: \<open>str(n)\<close>.\<close>

fun nat_digits :: "nat \<Rightarrow> string" where
  "nat_digits n = (if n < 10 then [char_of (48 + n)]
                   else nat_digits (n div 10) @ [char_of (48 + n mod 10)])"

declare nat_digits.simps [simp del]

definition int_str :: "int \<Rightarrow> string" where
  "int_str i = (if i < 0 then CHR ''-'' # nat_digits (nat (- i)) else nat_digits (nat i))"

text \<open>\<open>str(v)\<close>.  The code applies it to identifiers, which are strings; floats, lists and dictionaries have a
  stand-in for their text, which no theorem depends on.\<close>

definition pystr :: "pyval \<Rightarrow> string" where
  "pystr v = (case v of
      PStr s \<Rightarrow> s | PInt i \<Rightarrow> int_str i | PBool True \<Rightarrow> ''True'' | PBool False \<Rightarrow> ''False''
    | PNone \<Rightarrow> ''None'' | PFloat r \<Rightarrow> ''float'' | PList xs \<Rightarrow> ''list'' | PDict d \<Rightarrow> ''dict'')"

section \<open>Results\<close>

definition is_ok :: "'a res \<Rightarrow> bool" where
  "is_ok r = (case r of Inl _ \<Rightarrow> False | Inr _ \<Rightarrow> True)"

lemma is_ok_simps [simp]: "is_ok (Inl e) = False" "is_ok (Inr x) = True"
  by (simp_all add: is_ok_def)

lemma is_ok_iff: "is_ok r \<longleftrightarrow> (\<exists>x. r = Inr x)"
  by (cases r) simp_all

section \<open>Actions\<close>

text \<open>
  Code that works on shared state and may raise is a function from the state to a result and the state it
  leaves, also when it raises: \<open>act_catch\<close> is \<open>try\<close>/\<open>except Exception\<close>, and what the body did before
  raising is kept.
\<close>

type_synonym ('w, 'a) act = "'w \<Rightarrow> 'a res \<times> 'w"

definition act_return :: "'a \<Rightarrow> ('w, 'a) act" where
  "act_return x w = (Inr x, w)"

definition act_raise :: "py_error \<Rightarrow> ('w, 'a) act" where
  "act_raise e w = (Inl e, w)"

definition act_bind :: "('w, 'a) act \<Rightarrow> ('a \<Rightarrow> ('w, 'b) act) \<Rightarrow> ('w, 'b) act" where
  "act_bind m f w = (case m w of (Inl e, w') \<Rightarrow> (Inl e, w') | (Inr x, w') \<Rightarrow> f x w')"

definition act_catch :: "('w, 'a) act \<Rightarrow> (py_error \<Rightarrow> ('w, 'a) act) \<Rightarrow> ('w, 'a) act" where
  "act_catch m h w = (case m w of (Inl e, w') \<Rightarrow> h e w' | (Inr x, w') \<Rightarrow> (Inr x, w'))"

text \<open>A read of the state that may raise, and an update that may raise and then leaves the state.\<close>

definition act_read :: "('w \<Rightarrow> 'a res) \<Rightarrow> ('w, 'a) act" where
  "act_read f w = (f w, w)"

definition act_update :: "('w \<Rightarrow> 'w res) \<Rightarrow> ('w, unit) act" where
  "act_update f w = (case f w of Inl e \<Rightarrow> (Inl e, w) | Inr w' \<Rightarrow> (Inr (), w'))"

lemma act_simps [simp]:
  "act_return x w = (Inr x, w)"
  "act_raise e w = (Inl e, w)"
  "act_read f w = (f w, w)"
  by (simp_all add: act_return_def act_raise_def act_read_def)

lemma act_bind_split:
  "P (act_bind m f w) \<longleftrightarrow>
     (\<forall>e w'. m w = (Inl e, w') \<longrightarrow> P (Inl e, w')) \<and> (\<forall>x w'. m w = (Inr x, w') \<longrightarrow> P (f x w'))"
  by (auto simp: act_bind_def split: prod.splits sum.splits)

lemma act_catch_split:
  "P (act_catch m h w) \<longleftrightarrow>
     (\<forall>e w'. m w = (Inl e, w') \<longrightarrow> P (h e w')) \<and> (\<forall>x w'. m w = (Inr x, w') \<longrightarrow> P (Inr x, w'))"
  by (auto simp: act_catch_def split: prod.splits sum.splits)

text \<open>Partial correctness of an action: \<open>Q\<close> holds of the value and state it returns and \<open>E\<close> of the
  error and state it raises with.\<close>

definition act_spec :: "('w \<Rightarrow> bool) \<Rightarrow> ('w, 'a) act \<Rightarrow> ('a \<Rightarrow> 'w \<Rightarrow> bool) \<Rightarrow> (py_error \<Rightarrow> 'w \<Rightarrow> bool) \<Rightarrow> bool" where
  "act_spec P m Q E =
     (\<forall>w. P w \<longrightarrow> (case m w of (Inl e, w') \<Rightarrow> E e w' | (Inr x, w') \<Rightarrow> Q x w'))"

lemma act_specI:
  "(\<And>w e w'. P w \<Longrightarrow> m w = (Inl e, w') \<Longrightarrow> E e w') \<Longrightarrow> (\<And>w x w'. P w \<Longrightarrow> m w = (Inr x, w') \<Longrightarrow> Q x w')
     \<Longrightarrow> act_spec P m Q E"
  by (auto simp: act_spec_def split: prod.splits sum.splits)

lemma act_specD:
  assumes "act_spec P m Q E" and "P w"
  shows "m w = (Inr x, w') \<Longrightarrow> Q x w'" and "m w = (Inl e, w') \<Longrightarrow> E e w'"
  using assms by (auto simp: act_spec_def split: prod.splits sum.splits)

lemma act_spec_bind:
  assumes "act_spec P m R E" and "\<And>x. act_spec (R x) (f x) Q E"
  shows "act_spec P (act_bind m f) Q E"
  using assms by (fastforce simp: act_spec_def act_bind_def split: prod.splits sum.splits)

lemma act_spec_catch:
  assumes "act_spec P m Q F" and "\<And>e. act_spec (F e) (h e) Q E"
  shows "act_spec P (act_catch m h) Q E"
  using assms by (fastforce simp: act_spec_def act_catch_def split: prod.splits sum.splits)

lemma act_spec_weaken:
  assumes "act_spec P m Q E" and "\<And>w. P' w \<Longrightarrow> P w"
    and "\<And>x w. Q x w \<Longrightarrow> Q' x w" and "\<And>e w. E e w \<Longrightarrow> E' e w"
  shows "act_spec P' m Q' E'"
  by (rule act_specI) (use assms(2-4) act_specD [OF assms(1)] in blast)+

lemma act_spec_if:
  assumes "b \<Longrightarrow> act_spec P m Q E" and "\<not> b \<Longrightarrow> act_spec P n Q E"
  shows "act_spec P (if b then m else n) Q E"
  using assms by simp

lemma act_spec_return: "(\<And>w. P w \<Longrightarrow> Q x w) \<Longrightarrow> act_spec P (act_return x) Q E"
  by (simp add: act_spec_def)

lemma act_spec_raise: "(\<And>w. P w \<Longrightarrow> E e w) \<Longrightarrow> act_spec P (act_raise e) Q E"
  by (simp add: act_spec_def)

lemma act_spec_read: "act_spec P (act_read f) (\<lambda>x w. P w \<and> f w = Inr x) (\<lambda>e w. P w \<and> f w = Inl e)"
  by (auto simp: act_spec_def split: sum.split)

text \<open>\<open>act_keeps f m\<close>: running \<open>m\<close> does not change what \<open>f\<close> observes of the state.\<close>

definition act_keeps :: "('w \<Rightarrow> 'o) \<Rightarrow> ('w, 'a) act \<Rightarrow> bool" where
  "act_keeps f m = (\<forall>w. f (snd (m w)) = f w)"

named_theorems act_keeps_intros \<open>actions that leave an observation of the state as it is\<close>

lemma act_keeps_basic [act_keeps_intros]:
  "act_keeps f (act_return x)" "act_keeps f (act_raise e)" "act_keeps f (act_read g)" "act_keeps f (Pair r)"
  by (simp_all add: act_keeps_def)

lemma act_keeps_bind [act_keeps_intros]:
  "act_keeps f m \<Longrightarrow> (\<And>x. act_keeps f (k x)) \<Longrightarrow> act_keeps f (act_bind m k)"
  by (simp add: act_keeps_def act_bind_def split: prod.splits sum.splits) (metis snd_conv)

lemma act_keeps_catch [act_keeps_intros]:
  "act_keeps f m \<Longrightarrow> (\<And>e. act_keeps f (h e)) \<Longrightarrow> act_keeps f (act_catch m h)"
  by (simp add: act_keeps_def act_catch_def split: prod.splits sum.splits) (metis snd_conv)

lemma act_keepsD: "act_keeps f m \<Longrightarrow> m w = (r, w') \<Longrightarrow> f w' = f w"
  by (simp add: act_keeps_def) (metis snd_conv)

lemma act_keeps_spec:
  "act_keeps f m \<Longrightarrow> act_spec (\<lambda>w. P (f w)) m (\<lambda>_ w. P (f w)) (\<lambda>_ w. P (f w))"
  by (rule act_specI) (auto dest: act_keepsD)

end
