(* ===== verification/Sched_Policy.thy ===== *)
theory Sched_Policy
  imports Crab_Prelude
begin

text \<open>
  The checkpoint policies of \<^verbatim>\<open>crab/scheduler.py\<close> with the configuration and the snapshot and decision
  records they work on (\<^verbatim>\<open>crab/config.py\<close>, \<^verbatim>\<open>crab/models.py\<close>), the layering of incremental process
  chains on top of a policy's decision, the scheduler's in-memory state store and the construction
  check of \<open>CheckpointJob\<close>.  The lemmas characterise when a policy checkpoints, relate the scope of a
  decision to what changed, and bound the length of incremental chains over every history.
\<close>

section \<open>Configuration, snapshots, decisions\<close>

record scheduler_config =
  min_checkpoint_interval_seconds :: rat
  force_checkpoint_after_seconds :: rat
  require_change_signal :: bool
  checkpoint_full_baseline_on_first_checkpoint :: bool
  prefer_checkpoint_during_llm_request :: bool
  require_llm_request_for_checkpoint :: bool
  inspect_without_pause :: bool
  incremental_process_enabled :: bool
  full_process_checkpoint_interval :: int
  max_process_chain_length :: int

definition scheduler_config_post_init :: "scheduler_config \<Rightarrow> unit res" where
  "scheduler_config_post_init c =
     (if min_checkpoint_interval_seconds c < 0 then Inl ValueError
      else if force_checkpoint_after_seconds c < 0 then Inl ValueError
      else if full_process_checkpoint_interval c < 1 then Inl ValueError
      else if max_process_chain_length c < 1 then Inl ValueError
      else Inr ())"

definition default_scheduler_config :: scheduler_config where
  "default_scheduler_config = \<lparr>
     min_checkpoint_interval_seconds = 30,
     force_checkpoint_after_seconds = 600,
     require_change_signal = True,
     checkpoint_full_baseline_on_first_checkpoint = True,
     prefer_checkpoint_during_llm_request = True,
     require_llm_request_for_checkpoint = False,
     inspect_without_pause = False,
     incremental_process_enabled = True,
     full_process_checkpoint_interval = 8,
     max_process_chain_length = 16\<rparr>"

record sandbox_snapshot =
  snap_sandbox_id :: sandbox_id
  snap_runtime_name :: string
  snap_is_running :: bool
  snap_process_changed :: bool
  snap_filesystem_changed :: bool
  snap_observed_at :: instant
  snap_last_checkpoint_at :: "instant option"
  snap_metadata :: metadata

record checkpoint_decision =
  should_checkpoint :: bool
  checkpoint_process :: bool
  checkpoint_filesystem :: bool
  leave_running :: bool
  reason :: string
  policy_name :: string
  dec_metadata :: metadata
  is_incremental_process :: bool
  parent_process_checkpoint_id :: "checkpoint_id option"
  produce_pre_dump :: bool

text \<open>
  The constructor call \<open>SchedulerCheckpointDecision(...)\<close> with the three incremental fields at their
  defaults, and its declining form (every scope off, empty metadata).
\<close>

definition mk_decision ::
  "bool \<Rightarrow> bool \<Rightarrow> bool \<Rightarrow> bool \<Rightarrow> string \<Rightarrow> string \<Rightarrow> metadata \<Rightarrow> checkpoint_decision" where
  "mk_decision should proc fs lv why pol md = \<lparr>
     should_checkpoint = should, checkpoint_process = proc, checkpoint_filesystem = fs,
     leave_running = lv, reason = why, policy_name = pol, dec_metadata = md,
     is_incremental_process = False, parent_process_checkpoint_id = None,
     produce_pre_dump = False\<rparr>"

abbreviation decline :: "bool \<Rightarrow> string \<Rightarrow> string \<Rightarrow> metadata \<Rightarrow> checkpoint_decision" where
  "decline lv why pol md \<equiv> mk_decision False False False lv why pol md"

lemma mk_decision_simps [simp]:
  "should_checkpoint (mk_decision s p f l w n m) = s"
  "checkpoint_process (mk_decision s p f l w n m) = p"
  "checkpoint_filesystem (mk_decision s p f l w n m) = f"
  "leave_running (mk_decision s p f l w n m) = l"
  "reason (mk_decision s p f l w n m) = w"
  "policy_name (mk_decision s p f l w n m) = n"
  "dec_metadata (mk_decision s p f l w n m) = m"
  "is_incremental_process (mk_decision s p f l w n m) = False"
  "parent_process_checkpoint_id (mk_decision s p f l w n m) = None"
  "produce_pre_dump (mk_decision s p f l w n m) = False"
  by (simp_all add: mk_decision_def)

section \<open>The change-driven policy\<close>

definition total_seconds :: "instant \<Rightarrow> rat" where
  "total_seconds d = of_int d / 1000000"

definition evaluate_change_driven_checkpoint ::
  "sandbox_snapshot \<Rightarrow> scheduler_config \<Rightarrow> string \<Rightarrow> bool \<Rightarrow> checkpoint_decision" where
  "evaluate_change_driven_checkpoint snapshot config pol lv =
     (let changed = snap_process_changed snapshot \<or> snap_filesystem_changed snapshot;
          proc = snap_process_changed snapshot;
          fs = changed
      in if \<not> snap_is_running snapshot then decline lv ''sandbox_not_running'' pol Map.empty
      else
        let in_flight = meta_flag (snap_metadata snapshot) ''llm_request_in_flight'';
            md = Map.empty(''llm_request_in_flight'' \<mapsto> PBool in_flight);
            go_reason = (if prefer_checkpoint_during_llm_request config \<and> in_flight
                         then ''llm_request_window_available''
                         else ''change_signal_and_interval_elapsed'')
        in if checkpoint_full_baseline_on_first_checkpoint config
              \<and> snap_last_checkpoint_at snapshot = None
           then mk_decision True True True lv ''no_previous_checkpoint'' pol md
           else if require_change_signal config \<and> \<not> changed
           then decline lv ''no_change_signal'' pol Map.empty
           else case snap_last_checkpoint_at snapshot of
             None \<Rightarrow>
               if require_llm_request_for_checkpoint config \<and> \<not> in_flight
               then decline lv ''llm_request_required'' pol md
               else mk_decision True proc fs lv go_reason pol md
           | Some previous \<Rightarrow>
               let elapsed = total_seconds (snap_observed_at snapshot - previous);
                   mde = Map.empty(''elapsed_seconds'' \<mapsto> PFloat elapsed,
                                   ''llm_request_in_flight'' \<mapsto> PBool in_flight)
               in if force_checkpoint_after_seconds config > 0
                     \<and> elapsed \<ge> force_checkpoint_after_seconds config
                  then mk_decision True proc fs lv ''force_interval_elapsed'' pol mde
                  else if elapsed < min_checkpoint_interval_seconds config
                  then decline lv ''minimum_interval_not_elapsed'' pol mde
                  else if require_llm_request_for_checkpoint config \<and> \<not> in_flight
                  then decline lv ''llm_request_required'' pol mde
                  else mk_decision True proc fs lv go_reason pol mde)"

section \<open>The four policies\<close>

datatype policy =
    CheckpointingPolicy
  | FaultToleranceCheckpointingPolicy
  | SpotPreemptionCheckpointingPolicy
  | TreeSearchCheckpointingPolicy bool bool

fun policy_label :: "policy \<Rightarrow> string" where
  "policy_label CheckpointingPolicy = ''default-checkpointing''"
| "policy_label FaultToleranceCheckpointingPolicy = ''fault-tolerance''"
| "policy_label SpotPreemptionCheckpointingPolicy = ''spot-preemption''"
| "policy_label (TreeSearchCheckpointingPolicy skip forks) = ''tree-search''"

definition default_evaluate :: "scheduler_config \<Rightarrow> sandbox_snapshot \<Rightarrow> checkpoint_decision" where
  "default_evaluate config snapshot =
     evaluate_change_driven_checkpoint snapshot config ''default-checkpointing'' False"

definition fault_tolerance_evaluate ::
  "scheduler_config \<Rightarrow> sandbox_snapshot \<Rightarrow> checkpoint_decision" where
  "fault_tolerance_evaluate config snapshot =
     evaluate_change_driven_checkpoint snapshot config ''fault-tolerance'' True"

definition spot_evaluate :: "sandbox_snapshot \<Rightarrow> checkpoint_decision res" where
  "spot_evaluate snapshot =
     (if \<not> snap_is_running snapshot
      then Inr (decline False ''sandbox_not_running'' ''spot-preemption'' Map.empty)
      else if \<not> meta_flag (snap_metadata snapshot) ''preemption_notice''
      then Inr (decline False ''awaiting_preemption_notice'' ''spot-preemption'' Map.empty)
      else case py_float (case snap_metadata snapshot ''preemption_grace_remaining_seconds'' of
                            None \<Rightarrow> PFloat 0 | Some v \<Rightarrow> v) of
        Inl e \<Rightarrow> Inl e
      | Inr remaining \<Rightarrow>
          let md = Map.empty(''preemption_grace_remaining_seconds'' \<mapsto> PFloat remaining) in
          if remaining \<le> 0
          then Inr (decline False ''preemption_budget_expired'' ''spot-preemption'' md)
          else Inr (mk_decision True True True False
                      ''preemption_notice_received'' ''spot-preemption'' md))"

definition tree_search_evaluate ::
  "scheduler_config \<Rightarrow> bool \<Rightarrow> bool \<Rightarrow> sandbox_snapshot \<Rightarrow> checkpoint_decision" where
  "tree_search_evaluate config skip_if_no_meaningful_delta checkpoint_forks snapshot =
     (if \<not> snap_is_running snapshot
      then decline False ''sandbox_not_running'' ''tree-search'' Map.empty
      else case meta_get (snap_metadata snapshot) ''tree_search_step'' of
        None \<Rightarrow> decline False ''tree_search_step_missing'' ''tree-search'' Map.empty
      | Some step \<Rightarrow>
          let is_fork = meta_flag (snap_metadata snapshot) ''tree_search_is_fork'' in
          if is_fork \<and> \<not> checkpoint_forks
          then decline False ''tree_search_fork_disabled'' ''tree-search''
                 (Map.empty(''tree_search_step'' \<mapsto> step, ''tree_search_is_fork'' \<mapsto> PBool True))
          else if \<not> skip_if_no_meaningful_delta
          then mk_decision True True True True ''tree_search_step'' ''tree-search''
                 (Map.empty(''tree_search_step'' \<mapsto> step, ''tree_search_is_fork'' \<mapsto> PBool is_fork))
          else
            let d = evaluate_change_driven_checkpoint snapshot config ''tree-search'' True in
            d\<lparr>dec_metadata := (dec_metadata d)(''tree_search_step'' \<mapsto> step,
                                               ''tree_search_is_fork'' \<mapsto> PBool is_fork)\<rparr>)"

fun policy_evaluate :: "policy \<Rightarrow> scheduler_config \<Rightarrow> sandbox_snapshot \<Rightarrow> checkpoint_decision res" where
  "policy_evaluate CheckpointingPolicy c s = Inr (default_evaluate c s)"
| "policy_evaluate FaultToleranceCheckpointingPolicy c s = Inr (fault_tolerance_evaluate c s)"
| "policy_evaluate SpotPreemptionCheckpointingPolicy c s = spot_evaluate s"
| "policy_evaluate (TreeSearchCheckpointingPolicy skip forks) c s =
     Inr (tree_search_evaluate c skip forks s)"

section \<open>Incremental process chains\<close>

definition resolve_incremental_process ::
  "checkpoint_decision \<Rightarrow> scheduler_config \<Rightarrow> checkpoint_id option \<Rightarrow> int \<Rightarrow> checkpoint_decision" where
  "resolve_incremental_process d config last_id chain_length =
     (if \<not> incremental_process_enabled config then d
      else if \<not> should_checkpoint d \<or> \<not> checkpoint_process d then d
      else
        let anchor = d\<lparr>produce_pre_dump := True,
                       dec_metadata := (dec_metadata d)(''incremental_chain_role'' \<mapsto> PStr ''anchor'',
                                                        ''process_chain_length_after'' \<mapsto> PInt 0)\<rparr>
        in case last_id of
          None \<Rightarrow> anchor
        | Some parent \<Rightarrow>
            let next = chain_length + 1 in
            if next \<ge> full_process_checkpoint_interval config
               \<or> next \<ge> max_process_chain_length config
            then anchor
            else d\<lparr>is_incremental_process := True,
                   parent_process_checkpoint_id := Some parent,
                   produce_pre_dump := True,
                   dec_metadata := (dec_metadata d)(''incremental_chain_role'' \<mapsto> PStr ''node'',
                                                    ''incremental_process'' \<mapsto> PBool True,
                                                    ''process_chain_length_after'' \<mapsto> PInt next)\<rparr>)"

section \<open>The in-memory scheduler state store\<close>

record scheduler_store =
  last_checkpoint :: "sandbox_id \<rightharpoonup> instant"
  last_process_checkpoint :: "sandbox_id \<rightharpoonup> checkpoint_id"
  process_chain_length :: "sandbox_id \<rightharpoonup> int"

definition empty_scheduler_store :: scheduler_store where
  "empty_scheduler_store =
     \<lparr>last_checkpoint = Map.empty, last_process_checkpoint = Map.empty,
      process_chain_length = Map.empty\<rparr>"

definition set_last_checkpoint :: "scheduler_store \<Rightarrow> sandbox_id \<Rightarrow> instant \<Rightarrow> scheduler_store" where
  "set_last_checkpoint st sid t = st\<lparr>last_checkpoint := (last_checkpoint st)(sid \<mapsto> t)\<rparr>"

definition get_last_checkpoint :: "scheduler_store \<Rightarrow> sandbox_id \<Rightarrow> instant option" where
  "get_last_checkpoint st sid = last_checkpoint st sid"

definition get_last_process_checkpoint :: "scheduler_store \<Rightarrow> sandbox_id \<Rightarrow> checkpoint_id option" where
  "get_last_process_checkpoint st sid = last_process_checkpoint st sid"

definition get_process_chain_length :: "scheduler_store \<Rightarrow> sandbox_id \<Rightarrow> int" where
  "get_process_chain_length st sid =
     (case process_chain_length st sid of None \<Rightarrow> 0 | Some n \<Rightarrow> n)"

definition record_process_checkpoint ::
  "scheduler_store \<Rightarrow> sandbox_id \<Rightarrow> checkpoint_id \<Rightarrow> bool \<Rightarrow> scheduler_store" where
  "record_process_checkpoint st sid cid is_incremental =
     st\<lparr>last_process_checkpoint := (last_process_checkpoint st)(sid \<mapsto> cid),
        process_chain_length := (process_chain_length st)
          (sid \<mapsto> (if is_incremental then get_process_chain_length st sid + 1 else 0))\<rparr>"

definition set_process_checkpoint_base ::
  "scheduler_store \<Rightarrow> sandbox_id \<Rightarrow> checkpoint_id \<Rightarrow> int \<Rightarrow> scheduler_store res" where
  "set_process_checkpoint_base st sid cid chain_length =
     (if chain_length < 0 then Inl ValueError
      else Inr (st\<lparr>last_process_checkpoint := (last_process_checkpoint st)(sid \<mapsto> cid),
                   process_chain_length := (process_chain_length st)(sid \<mapsto> chain_length)\<rparr>))"

text \<open>\<open>CRScheduler.mark_checkpoint_complete\<close>: the time stamp is always recorded, the chain only when
  the checkpoint has a process half.\<close>

definition mark_checkpoint_complete ::
  "scheduler_store \<Rightarrow> sandbox_id \<Rightarrow> instant \<Rightarrow> checkpoint_id option \<Rightarrow> bool \<Rightarrow> int option
     \<Rightarrow> scheduler_store res" where
  "mark_checkpoint_complete st sid ts process_checkpoint_id is_incremental chain_length =
     (let st1 = set_last_checkpoint st sid ts in
      case process_checkpoint_id of
        None \<Rightarrow> Inr st1
      | Some cid \<Rightarrow>
          (case chain_length of
             None \<Rightarrow> Inr (record_process_checkpoint st1 sid cid is_incremental)
           | Some n \<Rightarrow> set_process_checkpoint_base st1 sid cid n))"

section \<open>Checkpoint jobs\<close>

text \<open>\<open>CheckpointJob.__post_init__\<close> on the fields a decision fills in.\<close>

definition checkpoint_job_post_init :: "checkpoint_decision \<Rightarrow> unit res" where
  "checkpoint_job_post_init j =
     (if \<not> checkpoint_process j \<and> \<not> checkpoint_filesystem j then Inl ValueError
      else if is_incremental_process j \<and> \<not> checkpoint_process j then Inl ValueError
      else if is_incremental_process j \<and> parent_process_checkpoint_id j = None then Inl ValueError
      else if is_incremental_process j \<and> \<not> produce_pre_dump j then Inl ValueError
      else if produce_pre_dump j \<and> \<not> checkpoint_process j then Inl ValueError
      else Inr ())"

section \<open>Histories of one sandbox's process chain\<close>

text \<open>
  The scheduler state of one sandbox along a history of checkpoints and restores.  The second component
  records, for every process checkpoint taken, the depth its manifest chain has on disk, which is what
  \<open>CrabSystem.restore_once\<close> reads back before it calls \<open>mark_checkpoint_complete\<close>.  A checkpoint may be
  resolved against the recorded parent or, when the parent's pre-dump directory is gone, against none.
\<close>

definition chain_depth_after :: "checkpoint_decision \<Rightarrow> int \<Rightarrow> int" where
  "chain_depth_after d n = (if is_incremental_process d then n + 1 else 0)"

inductive chain_history ::
  "scheduler_config \<Rightarrow> sandbox_id \<Rightarrow> scheduler_store \<Rightarrow> (checkpoint_id \<rightharpoonup> int) \<Rightarrow> bool"
  for c sid where
  chain_start: "chain_history c sid empty_scheduler_store Map.empty"
| chain_checkpoint:
    "\<lbrakk>chain_history c sid st depth;
      d = resolve_incremental_process base c
            (if usable then get_last_process_checkpoint st sid else None)
            (if usable then get_process_chain_length st sid else 0);
      \<not> is_incremental_process base;
      should_checkpoint d; checkpoint_process d;
      mark_checkpoint_complete st sid ts (Some cid) (is_incremental_process d) None = Inr st'\<rbrakk>
     \<Longrightarrow> chain_history c sid st'
           (depth(cid \<mapsto> chain_depth_after d (get_process_chain_length st sid)))"
| chain_filesystem_only:
    "\<lbrakk>chain_history c sid st depth;
      mark_checkpoint_complete st sid ts None inc None = Inr st'\<rbrakk>
     \<Longrightarrow> chain_history c sid st' depth"
| chain_restore:
    "\<lbrakk>chain_history c sid st depth; depth cid = Some n;
      mark_checkpoint_complete st sid ts (Some cid) inc (Some n) = Inr st'\<rbrakk>
     \<Longrightarrow> chain_history c sid st' depth"

definition chain_bounded :: "scheduler_config \<Rightarrow> int \<Rightarrow> bool" where
  "chain_bounded c n =
     (0 \<le> n \<and> n < full_process_checkpoint_interval c \<and> n < max_process_chain_length c)"

section \<open>Lemmas\<close>

definition snap_changed :: "sandbox_snapshot \<Rightarrow> bool" where
  "snap_changed s = (snap_process_changed s \<or> snap_filesystem_changed s)"

definition snap_in_flight :: "sandbox_snapshot \<Rightarrow> bool" where
  "snap_in_flight s = meta_flag (snap_metadata s) ''llm_request_in_flight''"

lemma change_driven_no_incremental [simp]:
  "is_incremental_process (evaluate_change_driven_checkpoint s c p lv) = False"
  "parent_process_checkpoint_id (evaluate_change_driven_checkpoint s c p lv) = None"
  "produce_pre_dump (evaluate_change_driven_checkpoint s c p lv) = False"
  "leave_running (evaluate_change_driven_checkpoint s c p lv) = lv"
  by (simp_all add: evaluate_change_driven_checkpoint_def Let_def split: option.split)

lemma change_driven_scopes:
  assumes "should_checkpoint (evaluate_change_driven_checkpoint s c p lv)"
  shows "(checkpoint_process (evaluate_change_driven_checkpoint s c p lv)
            \<longleftrightarrow> snap_process_changed s
              \<or> (checkpoint_full_baseline_on_first_checkpoint c \<and> snap_last_checkpoint_at s = None))
       \<and> (checkpoint_filesystem (evaluate_change_driven_checkpoint s c p lv)
            \<longleftrightarrow> snap_changed s
              \<or> (checkpoint_full_baseline_on_first_checkpoint c \<and> snap_last_checkpoint_at s = None))"
  using assms
  by (auto simp: evaluate_change_driven_checkpoint_def Let_def snap_changed_def
      split: if_splits option.splits)

lemma change_driven_scope_nonempty:
  assumes "require_change_signal c" and "should_checkpoint (evaluate_change_driven_checkpoint s c p lv)"
  shows "checkpoint_filesystem (evaluate_change_driven_checkpoint s c p lv)"
  using change_driven_scopes [OF assms(2)] assms
  by (auto simp: evaluate_change_driven_checkpoint_def Let_def snap_changed_def split: if_splits)

lemma policy_evaluate_no_incremental:
  assumes "policy_evaluate pol c s = Inr d"
  shows "\<not> is_incremental_process d \<and> parent_process_checkpoint_id d = None \<and> \<not> produce_pre_dump d"
  using assms
  by (cases pol)
    (auto simp: default_evaluate_def fault_tolerance_evaluate_def spot_evaluate_def
       tree_search_evaluate_def Let_def split: if_splits option.splits sum.splits)

lemma resolve_incremental_cases:
  "resolve_incremental_process d c l n = d
   \<or> (should_checkpoint d \<and> checkpoint_process d \<and>
      (\<exists>md. resolve_incremental_process d c l n = d\<lparr>produce_pre_dump := True, dec_metadata := md\<rparr>))
   \<or> (should_checkpoint d \<and> checkpoint_process d \<and>
      (\<exists>md parent. l = Some parent \<and> n + 1 < full_process_checkpoint_interval c
         \<and> n + 1 < max_process_chain_length c
         \<and> resolve_incremental_process d c l n
             = d\<lparr>is_incremental_process := True, parent_process_checkpoint_id := Some parent,
                 produce_pre_dump := True, dec_metadata := md\<rparr>))"
  by (simp add: resolve_incremental_process_def Let_def split: option.split) auto

lemma resolve_incremental_scope [simp]:
  "should_checkpoint (resolve_incremental_process d c l n) = should_checkpoint d"
  "checkpoint_process (resolve_incremental_process d c l n) = checkpoint_process d"
  "checkpoint_filesystem (resolve_incremental_process d c l n) = checkpoint_filesystem d"
  "leave_running (resolve_incremental_process d c l n) = leave_running d"
  "reason (resolve_incremental_process d c l n) = reason d"
  by (simp_all add: resolve_incremental_process_def Let_def split: option.split)

lemma resolve_incremental_bound:
  assumes "is_incremental_process (resolve_incremental_process d c l n)" and "\<not> is_incremental_process d"
  shows "n + 1 < full_process_checkpoint_interval c \<and> n + 1 < max_process_chain_length c
           \<and> parent_process_checkpoint_id (resolve_incremental_process d c l n) = l \<and> l \<noteq> None"
  using assms resolve_incremental_cases [of d c l n] by auto

lemma resolve_incremental_job:
  assumes "checkpoint_process d \<or> checkpoint_filesystem d"
    and "\<not> is_incremental_process d" and "\<not> produce_pre_dump d"
  shows "checkpoint_job_post_init (resolve_incremental_process d c l n) = Inr ()"
  using resolve_incremental_cases [of d c l n] assms
  by (elim disjE conjE exE) (simp_all add: checkpoint_job_post_init_def)

lemma resolve_incremental_None [simp]:
  "is_incremental_process (resolve_incremental_process d c None n) = is_incremental_process d"
  by (simp add: resolve_incremental_process_def Let_def)

lemma store_simps [simp]:
  "get_process_chain_length (set_last_checkpoint st sid t) sid' = get_process_chain_length st sid'"
  "get_process_chain_length (record_process_checkpoint st sid cid inc) sid
     = (if inc then get_process_chain_length st sid + 1 else 0)"
  "get_last_process_checkpoint (record_process_checkpoint st sid cid inc) sid = Some cid"
  "get_last_checkpoint (set_last_checkpoint st sid t) sid = Some t"
  "get_process_chain_length empty_scheduler_store sid = 0"
  by (simp_all add: get_process_chain_length_def set_last_checkpoint_def record_process_checkpoint_def
      get_last_process_checkpoint_def get_last_checkpoint_def empty_scheduler_store_def)

lemma mark_complete_chain_length:
  assumes "mark_checkpoint_complete st sid ts pc inc cl = Inr st'"
  shows "get_process_chain_length st' sid =
    (case pc of None \<Rightarrow> get_process_chain_length st sid
     | Some _ \<Rightarrow> (case cl of None \<Rightarrow> (if inc then get_process_chain_length st sid + 1 else 0) | Some n \<Rightarrow> n))"
  using assms
  by (auto simp: mark_checkpoint_complete_def Let_def set_process_checkpoint_base_def
      get_process_chain_length_def [of "_\<lparr>process_chain_length := _\<rparr>"]
      split: option.splits if_splits)

lemma chain_history_invariant:
  assumes "chain_history c sid st depth"
    and valid: "1 \<le> full_process_checkpoint_interval c" "1 \<le> max_process_chain_length c"
  shows "chain_bounded c (get_process_chain_length st sid)
           \<and> (\<forall>cid n. depth cid = Some n \<longrightarrow> chain_bounded c n)"
  using assms(1)
proof (induction rule: chain_history.induct)
  case chain_start
  then show ?case using valid by (simp add: chain_bounded_def)
next
  case (chain_checkpoint st depth d base usable ts cid st')
  have "chain_bounded c (chain_depth_after d (get_process_chain_length st sid))"
    using chain_checkpoint.hyps(2,3) chain_checkpoint.IH valid
      resolve_incremental_bound [of base c "get_last_process_checkpoint st sid"
        "get_process_chain_length st sid"]
    by (cases usable) (auto simp: chain_bounded_def chain_depth_after_def)
  moreover have "get_process_chain_length st' sid
      = chain_depth_after d (get_process_chain_length st sid)"
    using mark_complete_chain_length [OF chain_checkpoint.hyps(6)] by (simp add: chain_depth_after_def)
  ultimately show ?case using chain_checkpoint.IH by simp
next
  case (chain_filesystem_only st depth ts inc st')
  then show ?case using mark_complete_chain_length [of st sid ts None inc None st'] by simp
next
  case (chain_restore st depth cid n ts inc st')
  then show ?case using mark_complete_chain_length [of st sid ts "Some cid" inc "Some n" st'] by simp
qed

section \<open>Properties\<close>

definition demo_snapshot :: "bool \<Rightarrow> bool \<Rightarrow> instant option \<Rightarrow> metadata \<Rightarrow> sandbox_snapshot" where
  "demo_snapshot p f prev md = \<lparr>
     snap_sandbox_id = ''sb1'', snap_runtime_name = ''runc'', snap_is_running = True,
     snap_process_changed = p, snap_filesystem_changed = f, snap_observed_at = 700000000,
     snap_last_checkpoint_at = prev, snap_metadata = md\<rparr>"

lemmas demo_defs = demo_snapshot_def default_scheduler_config_def total_seconds_def
  evaluate_change_driven_checkpoint_def snap_changed_def snap_in_flight_def



text \<open>C7. Nothing that changed is left out of a checkpoint: under each of the four policies, and after the
  incremental layering, a decision to checkpoint includes the process half when the processes changed and
  the filesystem half when either half changed, and it never captures a process state without the
  filesystem it ran on.\<close>

theorem policy_captures_changes:
  assumes "policy_evaluate pol c s = Inr d0"
    and "d = resolve_incremental_process d0 c l n"
    and "should_checkpoint d"
  shows "(snap_process_changed s \<longrightarrow> checkpoint_process d)
       \<and> (snap_changed s \<longrightarrow> checkpoint_filesystem d)
       \<and> (checkpoint_process d \<longrightarrow> checkpoint_filesystem d)"
proof -
  have "should_checkpoint d0" using assms by simp
  then have "(snap_process_changed s \<longrightarrow> checkpoint_process d0)
       \<and> (snap_changed s \<longrightarrow> checkpoint_filesystem d0)
       \<and> (checkpoint_process d0 \<longrightarrow> checkpoint_filesystem d0)"
    using assms(1) change_driven_scopes
    by (cases pol)
      (auto simp: default_evaluate_def fault_tolerance_evaluate_def spot_evaluate_def
         tree_search_evaluate_def Let_def snap_changed_def split: if_splits option.splits sum.splits)
  then show ?thesis using assms(2) by simp
qed

theorem policy_captures_changes_witness:
  "checkpoint_process (resolve_incremental_process
      (evaluate_change_driven_checkpoint (demo_snapshot True False (Some 0) Map.empty)
         default_scheduler_config ''fault-tolerance'' True)
      default_scheduler_config (Some ''ck1'') 3)"
  using policy_captures_changes
    [of FaultToleranceCheckpointingPolicy default_scheduler_config
        "demo_snapshot True False (Some 0) Map.empty" _ _ "Some ''ck1''" 3]
  by (simp add: fault_tolerance_evaluate_def demo_defs)

text \<open>C6. Incremental process chains stay short: with a valid configuration, after every history of
  checkpoints (resolved against the recorded parent or, when it is not usable, against none) and restores,
  the recorded chain length and the depth of every process checkpoint taken are non-negative and below
  both the full-checkpoint interval and the maximal chain length.\<close>

theorem chain_length_bounded:
  assumes "scheduler_config_post_init c = Inr ()"
    and "chain_history c sid st depth"
  shows "chain_bounded c (get_process_chain_length st sid)
           \<and> (\<forall>cid n. depth cid = Some n \<longrightarrow> chain_bounded c n)"
  using chain_history_invariant [OF assms(2)] assms(1)
  by (auto simp: scheduler_config_post_init_def split: if_splits)

theorem chain_length_bounded_witness:
  "chain_bounded default_scheduler_config
     (get_process_chain_length (record_process_checkpoint
        (set_last_checkpoint empty_scheduler_store ''sb1'' 5) ''sb1'' ''ck1'' False) ''sb1'')"
proof -
  have valid: "scheduler_config_post_init default_scheduler_config = Inr ()"
    by (simp add: scheduler_config_post_init_def default_scheduler_config_def)
  have hist: "chain_history default_scheduler_config ''sb1''
     (record_process_checkpoint (set_last_checkpoint empty_scheduler_store ''sb1'' 5) ''sb1'' ''ck1'' False)
     (Map.empty(''ck1'' \<mapsto> chain_depth_after
        (resolve_incremental_process (mk_decision True True True True ''r'' ''p'' Map.empty)
           default_scheduler_config None 0) (get_process_chain_length empty_scheduler_store ''sb1'')))"
    by (rule chain_checkpoint [OF chain_start, where usable = False and ts = 5
          and base = "mk_decision True True True True ''r'' ''p'' Map.empty"])
      (simp_all add: mark_checkpoint_complete_def)
  show ?thesis
    using chain_length_bounded [OF valid hist] by blast
qed

text \<open>C23. While a change signal is required, every decision to checkpoint that a policy returns can be
  turned into a job: after the incremental layering the constructor check of \<open>CheckpointJob\<close> passes,
  whatever process checkpoint and chain length the store holds.\<close>

theorem policy_decision_makes_job:
  assumes "require_change_signal c"
    and "policy_evaluate pol c s = Inr d"
    and "should_checkpoint d"
  shows "checkpoint_job_post_init (resolve_incremental_process d c l n) = Inr ()"
proof -
  have scope: "checkpoint_process d \<or> checkpoint_filesystem d"
    using assms change_driven_scope_nonempty
    by (cases pol)
      (auto simp: default_evaluate_def fault_tolerance_evaluate_def spot_evaluate_def
         tree_search_evaluate_def Let_def split: if_splits option.splits sum.splits)
  show ?thesis
    using resolve_incremental_job [OF scope] policy_evaluate_no_incremental [OF assms(2)] by simp
qed

theorem policy_decision_makes_job_witness:
  "checkpoint_job_post_init (resolve_incremental_process
      (default_evaluate default_scheduler_config (demo_snapshot True False (Some 0) Map.empty))
      default_scheduler_config (Some ''ck1'') 3) = Inr ()"
  using policy_decision_makes_job [of default_scheduler_config CheckpointingPolicy
      "demo_snapshot True False (Some 0) Map.empty"]
  by (simp add: default_evaluate_def demo_defs)

text \<open>Without the change requirement a running, unchanged sandbox whose minimum interval has elapsed
  is still selected, but with neither half in scope, so building the job for that decision raises
  \<open>ValueError\<close>.\<close>

theorem unchanged_selected_without_scope:
  assumes "\<not> require_change_signal c" and "\<not> require_llm_request_for_checkpoint c"
    and "snap_is_running s" and "\<not> snap_changed s"
    and "snap_last_checkpoint_at s = Some prev"
    and "min_checkpoint_interval_seconds c \<le> total_seconds (snap_observed_at s - prev)"
  shows "should_checkpoint (default_evaluate c s)
       \<and> checkpoint_job_post_init (resolve_incremental_process (default_evaluate c s) c l n)
           = Inl ValueError"
  using assms
  by (simp add: default_evaluate_def evaluate_change_driven_checkpoint_def Let_def snap_changed_def
      checkpoint_job_post_init_def)

theorem unchanged_selected_without_scope_witness:
  "checkpoint_job_post_init (resolve_incremental_process
      (default_evaluate (default_scheduler_config\<lparr>require_change_signal := False\<rparr>)
         (demo_snapshot False False (Some 0) Map.empty))
      (default_scheduler_config\<lparr>require_change_signal := False\<rparr>) (Some ''ck1'') 3) = Inl ValueError"
  using unchanged_selected_without_scope
    [of "default_scheduler_config\<lparr>require_change_signal := False\<rparr>"
        "demo_snapshot False False (Some 0) Map.empty" 0]
  by (simp add: demo_snapshot_def default_scheduler_config_def total_seconds_def snap_changed_def)

end
