(* ===== verification/Inspector.thy ===== *)
theory Inspector
  imports Sched_Policy
begin

text \<open>
  \<^verbatim>\<open>crab/inspector.py\<close>: the in-memory event collector and \<open>EBPFSandboxInspector\<close>, which turns kernel events
  and manual change marks into the two change bits of a snapshot, relative to one checkpoint cursor per
  half.  The lemmas give the exact set of events behind each bit and what a completed checkpoint clears.
\<close>

section \<open>Events and the collector\<close>

datatype event_kind =
    PROCESS_EXEC | PROCESS_EXIT | FILE_WRITE | FILE_DELETE | NETWORK_INGRESS | NETWORK_EGRESS

record ebpf_event =
  ev_sandbox_id :: sandbox_id
  ev_kind :: event_kind
  ev_observed_at :: instant

definition process_event_kinds :: "event_kind list" where
  "process_event_kinds = [PROCESS_EXEC, PROCESS_EXIT]"

definition filesystem_event_kinds :: "event_kind list" where
  "filesystem_event_kinds = [FILE_WRITE, FILE_DELETE]"

definition record_event :: "ebpf_event list \<Rightarrow> ebpf_event \<Rightarrow> ebpf_event list" where
  "record_event evs e = evs @ [e]"

definition poll :: "ebpf_event list \<Rightarrow> sandbox_id \<Rightarrow> instant option \<Rightarrow> ebpf_event list" where
  "poll evs sid since =
     (let own = filter (\<lambda>e. ev_sandbox_id e = sid) evs;
          recent = (case since of None \<Rightarrow> own | Some t \<Rightarrow> filter (\<lambda>e. ev_observed_at e > t) own)
      in sort_key ev_observed_at recent)"

section \<open>The inspector\<close>

text \<open>A cursor dictionary holds \<open>datetime | None\<close>; \<open>.get\<close> reads a missing entry as \<open>None\<close>.\<close>

record inspector =
  insp_events :: "ebpf_event list"
  insp_snapshots :: "sandbox_id \<rightharpoonup> sandbox_snapshot"
  insp_manual :: "sandbox_id \<rightharpoonup> bool \<times> bool"
  insp_process_cursor :: "sandbox_id \<rightharpoonup> instant option"
  insp_filesystem_cursor :: "sandbox_id \<rightharpoonup> instant option"

definition new_inspector :: inspector where
  "new_inspector = \<lparr>insp_events = [], insp_snapshots = Map.empty, insp_manual = Map.empty,
     insp_process_cursor = Map.empty, insp_filesystem_cursor = Map.empty\<rparr>"

definition setdefault :: "('k \<rightharpoonup> 'v) \<Rightarrow> 'k \<Rightarrow> 'v \<Rightarrow> ('k \<rightharpoonup> 'v)" where
  "setdefault m k v = (case m k of None \<Rightarrow> m(k \<mapsto> v) | Some _ \<Rightarrow> m)"

definition manual_changes :: "inspector \<Rightarrow> sandbox_id \<Rightarrow> bool \<times> bool" where
  "manual_changes i sid = (case insp_manual i sid of None \<Rightarrow> (False, False) | Some p \<Rightarrow> p)"

definition process_cursor :: "inspector \<Rightarrow> sandbox_id \<Rightarrow> instant option" where
  "process_cursor i sid = (case insp_process_cursor i sid of None \<Rightarrow> None | Some c \<Rightarrow> c)"

definition filesystem_cursor :: "inspector \<Rightarrow> sandbox_id \<Rightarrow> instant option" where
  "filesystem_cursor i sid = (case insp_filesystem_cursor i sid of None \<Rightarrow> None | Some c \<Rightarrow> c)"

definition upsert_snapshot :: "inspector \<Rightarrow> sandbox_snapshot \<Rightarrow> inspector" where
  "upsert_snapshot i s =
     (let sid = snap_sandbox_id s in
      i\<lparr>insp_snapshots := (insp_snapshots i)
           (sid \<mapsto> s\<lparr>snap_process_changed := False, snap_filesystem_changed := False\<rparr>),
        insp_manual := (insp_manual i)(sid \<mapsto> (snap_process_changed s, snap_filesystem_changed s)),
        insp_process_cursor := setdefault (insp_process_cursor i) sid (snap_last_checkpoint_at s),
        insp_filesystem_cursor := setdefault (insp_filesystem_cursor i) sid (snap_last_checkpoint_at s)\<rparr>)"

definition mark_changed :: "inspector \<Rightarrow> sandbox_id \<Rightarrow> bool \<Rightarrow> bool \<Rightarrow> instant \<Rightarrow> inspector res" where
  "mark_changed i sid proc fs now =
     (case insp_snapshots i sid of
        None \<Rightarrow> Inl KeyError
      | Some current \<Rightarrow>
          let (mp, mf) = manual_changes i sid in
          Inr (i\<lparr>insp_snapshots := (insp_snapshots i)(sid \<mapsto> current\<lparr>snap_observed_at := now\<rparr>),
                 insp_manual := (insp_manual i)(sid \<mapsto> (mp \<or> proc, mf \<or> fs))\<rparr>))"

text \<open>\<open>poll_since\<close> of \<open>inspect\<close>: the earlier cursor when both are set, otherwise whichever is set.\<close>

definition poll_since :: "instant option \<Rightarrow> instant option \<Rightarrow> instant option" where
  "poll_since pc fc =
     (case (pc, fc) of
        (Some p, Some f) \<Rightarrow> Some (min p f)
      | (Some p, None) \<Rightarrow> Some p
      | (None, f) \<Rightarrow> f)"

definition after_cursor :: "instant option \<Rightarrow> ebpf_event \<Rightarrow> bool" where
  "after_cursor cur e = (case cur of None \<Rightarrow> True | Some t \<Rightarrow> ev_observed_at e > t)"

text \<open>One iteration of the event loop of \<open>inspect\<close> on (observed\_at, process\_changed,
  filesystem\_changed, network\_event\_count).\<close>

definition inspect_event ::
  "instant option \<Rightarrow> instant option \<Rightarrow> ebpf_event \<Rightarrow> instant \<times> bool \<times> bool \<times> int
     \<Rightarrow> instant \<times> bool \<times> bool \<times> int" where
  "inspect_event pc fc e acc =
     (case acc of (obs, p, f, net) \<Rightarrow>
        let obs' = max obs (ev_observed_at e) in
        if ev_kind e \<in> set process_event_kinds \<and> after_cursor pc e then (obs', True, f, net)
        else if ev_kind e \<in> set filesystem_event_kinds \<and> after_cursor fc e then (obs', p, True, net)
        else if ev_kind e \<notin> set process_event_kinds \<and> ev_kind e \<notin> set filesystem_event_kinds
        then (obs', p, f, net + 1)
        else (obs', p, f, net))"

definition inspect :: "inspector \<Rightarrow> sandbox_id \<Rightarrow> (sandbox_snapshot \<times> inspector) res" where
  "inspect i sid =
     (case insp_snapshots i sid of
        None \<Rightarrow> Inl KeyError
      | Some base \<Rightarrow>
          let (mp, mf) = manual_changes i sid;
              pc = process_cursor i sid;
              fc = filesystem_cursor i sid;
              events = poll (insp_events i) sid (poll_since pc fc);
              (obs, p, f, net) = fold (inspect_event pc fc) events (snap_observed_at base, mp, mf, 0);
              updated = base\<lparr>snap_process_changed := p, snap_filesystem_changed := f,
                snap_observed_at := obs,
                snap_metadata := (snap_metadata base)(''ebpf_event_count'' \<mapsto> PInt (int (length events)),
                                                      ''network_event_count'' \<mapsto> PInt net)\<rparr>
          in Inr (updated, i\<lparr>insp_snapshots := (insp_snapshots i)(sid \<mapsto> updated)\<rparr>))"

definition inspector_checkpoint_complete ::
  "inspector \<Rightarrow> sandbox_id \<Rightarrow> bool \<Rightarrow> bool \<Rightarrow> instant \<Rightarrow> inspector res" where
  "inspector_checkpoint_complete i sid proc fs ts =
     (case insp_snapshots i sid of
        None \<Rightarrow> Inl KeyError
      | Some base \<Rightarrow>
          let (mp, mf) = manual_changes i sid in
          Inr (i\<lparr>insp_process_cursor :=
                   (if proc then (insp_process_cursor i)(sid \<mapsto> Some ts) else insp_process_cursor i),
                 insp_filesystem_cursor :=
                   (if fs then (insp_filesystem_cursor i)(sid \<mapsto> Some ts) else insp_filesystem_cursor i),
                 insp_manual := (insp_manual i)(sid \<mapsto> (mp \<and> \<not> proc, mf \<and> \<not> fs)),
                 insp_snapshots := (insp_snapshots i)(sid \<mapsto> base\<lparr>
                   snap_process_changed := (snap_process_changed base \<and> \<not> proc),
                   snap_filesystem_changed := (snap_filesystem_changed base \<and> \<not> fs),
                   snap_observed_at := max (snap_observed_at base) ts,
                   snap_last_checkpoint_at := Some ts\<rparr>)\<rparr>))"

section \<open>Lemmas\<close>

lemma set_poll: "set (poll evs sid since) =
    {e \<in> set evs. ev_sandbox_id e = sid \<and> (case since of None \<Rightarrow> True | Some t \<Rightarrow> ev_observed_at e > t)}"
  by (auto simp: poll_def Let_def split: option.split)

lemma event_kinds_disjoint:
  "k \<in> set process_event_kinds \<Longrightarrow> k \<notin> set filesystem_event_kinds"
  by (auto simp: process_event_kinds_def filesystem_event_kinds_def)

lemma fold_inspect_event:
  "fold (inspect_event pc fc) evs (obs, p, f, net) = (obs', p', f', net') \<Longrightarrow>
     (p' \<longleftrightarrow> p \<or> (\<exists>e \<in> set evs. ev_kind e \<in> set process_event_kinds \<and> after_cursor pc e))
   \<and> (f' \<longleftrightarrow> f \<or> (\<exists>e \<in> set evs. ev_kind e \<in> set filesystem_event_kinds \<and> after_cursor fc e))
   \<and> obs \<le> obs' \<and> (\<forall>e \<in> set evs. ev_observed_at e \<le> obs')"
proof (induction evs arbitrary: obs p f net)
  case (Cons e evs)
  obtain o1 p1 f1 n1 where step: "inspect_event pc fc e (obs, p, f, net) = (o1, p1, f1, n1)"
    by (metis prod_cases4)
  have "o1 = max obs (ev_observed_at e)"
    "p1 \<longleftrightarrow> p \<or> (ev_kind e \<in> set process_event_kinds \<and> after_cursor pc e)"
    "f1 \<longleftrightarrow> f \<or> (ev_kind e \<in> set filesystem_event_kinds \<and> after_cursor fc e)"
    using step event_kinds_disjoint [of "ev_kind e"]
    by (auto simp: inspect_event_def Let_def split: if_splits)
  moreover have "fold (inspect_event pc fc) evs (o1, p1, f1, n1) = (obs', p', f', net')"
    using Cons.prems step by simp
  ultimately show ?case using Cons.IH [of o1 p1 f1 n1] by auto
qed simp

lemma inspect_result:
  assumes "inspect i sid = Inr (s, i')"
  obtains base where "insp_snapshots i sid = Some base"
    and "snap_process_changed s \<longleftrightarrow> fst (manual_changes i sid) \<or>
       (\<exists>e \<in> set (insp_events i). ev_sandbox_id e = sid \<and> ev_kind e \<in> set process_event_kinds
          \<and> after_cursor (poll_since (process_cursor i sid) (filesystem_cursor i sid)) e
          \<and> after_cursor (process_cursor i sid) e)"
    and "snap_filesystem_changed s \<longleftrightarrow> snd (manual_changes i sid) \<or>
       (\<exists>e \<in> set (insp_events i). ev_sandbox_id e = sid \<and> ev_kind e \<in> set filesystem_event_kinds
          \<and> after_cursor (poll_since (process_cursor i sid) (filesystem_cursor i sid)) e
          \<and> after_cursor (filesystem_cursor i sid) e)"
    and "snap_is_running s = snap_is_running base"
    and "snap_last_checkpoint_at s = snap_last_checkpoint_at base"
    and "i' = i\<lparr>insp_snapshots := (insp_snapshots i)(sid \<mapsto> s)\<rparr>"
proof -
  let ?pc = "process_cursor i sid" and ?fc = "filesystem_cursor i sid"
  let ?evs = "poll (insp_events i) sid (poll_since ?pc ?fc)"
  obtain base where base: "insp_snapshots i sid = Some base"
    using assms by (cases "insp_snapshots i sid") (simp_all add: inspect_def)
  obtain mp mf where man: "manual_changes i sid = (mp, mf)" by force
  obtain obs p f net where
    fold: "fold (inspect_event ?pc ?fc) ?evs (snap_observed_at base, mp, mf, 0) = (obs, p, f, net)"
    by (metis prod_cases4)
  have s: "snap_process_changed s = p" "snap_filesystem_changed s = f"
    "snap_is_running s = snap_is_running base" "snap_last_checkpoint_at s = snap_last_checkpoint_at base"
    "i' = i\<lparr>insp_snapshots := (insp_snapshots i)(sid \<mapsto> s)\<rparr>"
    using assms base man fold by (auto simp: inspect_def Let_def)
  show thesis
    using that [OF base] s man fold_inspect_event [OF fold]
    by (auto simp: set_poll after_cursor_def)
qed

definition cursors_aligned :: "inspector \<Rightarrow> sandbox_id \<Rightarrow> bool" where
  "cursors_aligned i sid = ((process_cursor i sid = None) = (filesystem_cursor i sid = None))"

lemma aligned_poll_covers:
  assumes "cursors_aligned i sid"
    and "after_cursor (process_cursor i sid) e \<or> after_cursor (filesystem_cursor i sid) e"
  shows "after_cursor (poll_since (process_cursor i sid) (filesystem_cursor i sid)) e"
  using assms by (auto simp: cursors_aligned_def after_cursor_def poll_since_def split: option.splits)

section \<open>Properties\<close>


definition demo_inspector :: inspector where
  "demo_inspector = (upsert_snapshot new_inspector (demo_snapshot False False None Map.empty))
     \<lparr>insp_events := [\<lparr>ev_sandbox_id = ''sb1'', ev_kind = PROCESS_EXEC, ev_observed_at = 40\<rparr>]\<rparr>"

lemma demo_inspector_inspect:
  "inspect demo_inspector ''sb1'' = Inr (fst (projr (inspect demo_inspector ''sb1'')),
     snd (projr (inspect demo_inspector ''sb1'')))"
  by (simp add: inspect_def demo_inspector_def upsert_snapshot_def demo_snapshot_def Let_def
      split: prod.split)




text \<open>A filesystem checkpoint taken before any process checkpoint hides earlier process events: with
  no process cursor, a filesystem cursor at \<open>t\<close> and no manual mark, a process event observed up to \<open>t\<close> is
  not reported, although no checkpoint has captured it.\<close>

theorem unset_process_cursor_hides_events:
  assumes "process_cursor i sid = None" and "filesystem_cursor i sid = Some t"
    and "\<not> fst (manual_changes i sid)"
    and "\<forall>e \<in> set (insp_events i). ev_sandbox_id e = sid \<longrightarrow> ev_observed_at e \<le> t"
    and "inspect i sid = Inr (s, i')"
  shows "\<not> snap_process_changed s"
  using assms(5) by (rule inspect_result) (use assms(1-4) in \<open>force simp: after_cursor_def poll_since_def\<close>)

theorem unset_process_cursor_hides_events_witness:
  "\<not> snap_process_changed (fst (projr (inspect
       (projr (inspector_checkpoint_complete demo_inspector ''sb1'' False True 50)) ''sb1'')))"
proof -
  let ?i1 = "projr (inspector_checkpoint_complete demo_inspector ''sb1'' False True 50)"
  have i1: "process_cursor ?i1 ''sb1'' = None" "filesystem_cursor ?i1 ''sb1'' = Some 50"
    "\<not> fst (manual_changes ?i1 ''sb1'')" "insp_snapshots ?i1 ''sb1'' \<noteq> None"
    "\<forall>e \<in> set (insp_events ?i1). ev_sandbox_id e = ''sb1'' \<longrightarrow> ev_observed_at e \<le> 50"
    by (simp_all add: inspector_checkpoint_complete_def demo_inspector_def upsert_snapshot_def
        demo_snapshot_def manual_changes_def process_cursor_def filesystem_cursor_def setdefault_def
        new_inspector_def Let_def)
  then have "inspect ?i1 ''sb1'' = Inr (fst (projr (inspect ?i1 ''sb1'')), snd (projr (inspect ?i1 ''sb1'')))"
    by (auto simp: inspect_def Let_def split: prod.split)
  then show ?thesis
    using unset_process_cursor_hides_events [OF i1(1,2,3,5)] by blast
qed

end
