(* ===== verification/Runtime_Mem.thy ===== *)
theory Runtime_Mem
  imports Crab_Prelude
begin

text \<open>
  \<^verbatim>\<open>crab/runtime/in_memory.py\<close>: the runtime that keeps sandbox descriptions in a dictionary.  Its life-cycle
  operations change the recorded status and raise \<open>KeyError\<close> on an unknown sandbox; its checkpoint and
  restore operations only report the command they stand for.  Sandbox ids from \<open>SandboxId.new()\<close> are an
  argument.
\<close>

section \<open>Descriptions and results\<close>

record sandbox_description =
  desc_sandbox_id :: sandbox_id
  desc_runtime_name :: string
  desc_status :: string
  desc_metadata :: metadata

record sandbox_runtime_state =
  rs_sandbox_id :: sandbox_id
  rs_runtime_name :: string
  rs_status :: string
  rs_pid :: "int option"
  rs_bundle_path :: "string option"
  rs_metadata :: metadata

definition runtime_state_is_running :: "sandbox_runtime_state \<Rightarrow> bool" where
  "runtime_state_is_running s =
     (str_lower (rs_status s) \<in> set [''running'', ''paused'', ''created''] \<and> rs_pid s \<noteq> None)"

record runtime_capabilities =
  supports_process_checkpoint :: bool
  supports_filesystem_checkpoint :: bool
  supports_incremental_filesystem :: bool
  supports_custom_checkpoint_dir :: bool
  supports_incremental_process :: bool
  supports_lazy_restore :: bool

record runtime_operation_status =
  op_executed :: bool
  op_reason :: string
  op_command :: "string list"
  op_metadata :: metadata

record mem_runtime =
  mem_name :: string
  mem_version :: "string option"
  mem_items :: "sandbox_id \<rightharpoonup> sandbox_description"

section \<open>Life cycle\<close>

definition mem_capabilities :: "mem_runtime \<Rightarrow> runtime_capabilities" where
  "mem_capabilities r = \<lparr>supports_process_checkpoint = True, supports_filesystem_checkpoint = True,
     supports_incremental_filesystem = False, supports_custom_checkpoint_dir = False,
     supports_incremental_process = False, supports_lazy_restore = False\<rparr>"

definition mem_launch ::
  "mem_runtime \<Rightarrow> sandbox_id \<Rightarrow> string \<Rightarrow> metadata \<Rightarrow> sandbox_id \<times> mem_runtime" where
  "mem_launch r new_id rname md =
     (new_id, r\<lparr>mem_items := (mem_items r)(new_id \<mapsto>
        \<lparr>desc_sandbox_id = new_id, desc_runtime_name = rname, desc_status = ''running'',
         desc_metadata = md\<rparr>)\<rparr>)"

definition set_status :: "mem_runtime \<Rightarrow> sandbox_id \<Rightarrow> string \<Rightarrow> mem_runtime res" where
  "set_status r sid status =
     (case mem_items r sid of
        None \<Rightarrow> Inl KeyError
      | Some cur \<Rightarrow> Inr (r\<lparr>mem_items := (mem_items r)(sid \<mapsto> cur\<lparr>desc_status := status\<rparr>)\<rparr>))"

definition mem_stop :: "mem_runtime \<Rightarrow> sandbox_id \<Rightarrow> mem_runtime res" where
  "mem_stop r sid = set_status r sid ''stopped''"

definition mem_pause :: "mem_runtime \<Rightarrow> sandbox_id \<Rightarrow> mem_runtime res" where
  "mem_pause r sid = set_status r sid ''paused''"

definition mem_resume :: "mem_runtime \<Rightarrow> sandbox_id \<Rightarrow> mem_runtime res" where
  "mem_resume r sid = set_status r sid ''running''"

definition mem_start :: "mem_runtime \<Rightarrow> sandbox_id \<Rightarrow> mem_runtime res" where
  "mem_start r sid = set_status r sid ''running''"

definition mem_restart :: "mem_runtime \<Rightarrow> sandbox_id \<Rightarrow> mem_runtime res" where
  "mem_restart r sid = (case mem_stop r sid of Inl e \<Rightarrow> Inl e | Inr r' \<Rightarrow> mem_start r' sid)"

definition mem_sync_runtime_state :: "mem_runtime \<Rightarrow> sandbox_id \<Rightarrow> bool \<Rightarrow> mem_runtime res" where
  "mem_sync_runtime_state r sid running = set_status r sid (if running then ''running'' else ''stopped'')"

definition mem_prepare_for_restore :: "mem_runtime \<Rightarrow> sandbox_id \<Rightarrow> mem_runtime res" where
  "mem_prepare_for_restore r sid = Inr r"

definition mem_mark_restored :: "mem_runtime \<Rightarrow> sandbox_id \<Rightarrow> mem_runtime res" where
  "mem_mark_restored r sid = set_status r sid ''running''"

definition mem_delete :: "mem_runtime \<Rightarrow> sandbox_id \<Rightarrow> mem_runtime res" where
  "mem_delete r sid =
     (case mem_items r sid of
        None \<Rightarrow> Inl KeyError
      | Some _ \<Rightarrow> Inr (r\<lparr>mem_items := (mem_items r)(sid := None)\<rparr>))"

definition mem_describe :: "mem_runtime \<Rightarrow> sandbox_id \<Rightarrow> sandbox_description res" where
  "mem_describe r sid = (case mem_items r sid of None \<Rightarrow> Inl KeyError | Some d \<Rightarrow> Inr d)"

definition mem_inspect_runtime :: "mem_runtime \<Rightarrow> sandbox_id \<Rightarrow> sandbox_runtime_state res" where
  "mem_inspect_runtime r sid =
     (case mem_describe r sid of
        Inl e \<Rightarrow> Inl e
      | Inr d \<Rightarrow> Inr \<lparr>rs_sandbox_id = sid, rs_runtime_name = desc_runtime_name d, rs_status = desc_status d,
                    rs_pid = None, rs_bundle_path = None, rs_metadata = desc_metadata d\<rparr>)"

section \<open>Checkpoint and restore commands\<close>

definition not_implemented_status :: "mem_runtime \<Rightarrow> string list \<Rightarrow> metadata \<Rightarrow> runtime_operation_status" where
  "not_implemented_status r cmd md =
     \<lparr>op_executed = False, op_reason = mem_name r @ ''_runtime_not_implemented'', op_command = cmd,
      op_metadata = md\<rparr>"

definition phase_metadata :: "mem_runtime \<Rightarrow> string \<Rightarrow> sandbox_id \<Rightarrow> checkpoint_id \<Rightarrow> metadata" where
  "phase_metadata r phase sid cid = Map.empty(''phase'' \<mapsto> PStr phase, ''runtime'' \<mapsto> PStr (mem_name r),
     ''sandbox_id'' \<mapsto> PStr sid, ''checkpoint_id'' \<mapsto> PStr cid)"

definition mem_checkpoint_process ::
  "mem_runtime \<Rightarrow> sandbox_id \<Rightarrow> checkpoint_id \<Rightarrow> bool \<Rightarrow> checkpoint_id option \<Rightarrow> runtime_operation_status" where
  "mem_checkpoint_process r sid cid lv parent =
     (let md = (phase_metadata r ''process_checkpoint'' sid cid)(''leave_running'' \<mapsto> PBool lv);
          cmd = [''docker'', ''checkpoint'', ''create'',
                 ''--leave-running='' @ (if lv then ''true'' else ''false'')]
      in case parent of
           None \<Rightarrow> not_implemented_status r (cmd @ [sid, cid]) md
         | Some p \<Rightarrow> not_implemented_status r (cmd @ [''--parent='' @ p] @ [sid, cid])
             (md(''parent_checkpoint_id'' \<mapsto> PStr p, ''process_kind'' \<mapsto> PStr ''incremental'')))"

definition mem_pre_dump_process ::
  "mem_runtime \<Rightarrow> sandbox_id \<Rightarrow> checkpoint_id \<Rightarrow> checkpoint_id option \<Rightarrow> runtime_operation_status" where
  "mem_pre_dump_process r sid cid parent =
     (let md = phase_metadata r ''process_pre_dump'' sid cid;
          cmd = [''docker'', ''checkpoint'', ''pre-dump'']
      in case parent of
           None \<Rightarrow> not_implemented_status r (cmd @ [sid, cid]) md
         | Some p \<Rightarrow> not_implemented_status r (cmd @ [''--parent='' @ p] @ [sid, cid])
             (md(''parent_checkpoint_id'' \<mapsto> PStr p)))"

definition mem_restore_process ::
  "mem_runtime \<Rightarrow> sandbox_id \<Rightarrow> checkpoint_id \<Rightarrow> runtime_operation_status" where
  "mem_restore_process r sid cid =
     not_implemented_status r [''docker'', ''start'', ''--checkpoint'', cid, sid]
       (phase_metadata r ''process_restore'' sid cid)"

definition mem_filesystem_checkpoint_metadata :: "mem_runtime \<Rightarrow> sandbox_id \<Rightarrow> checkpoint_id \<Rightarrow> metadata" where
  "mem_filesystem_checkpoint_metadata r sid cid = phase_metadata r ''filesystem_checkpoint'' sid cid"

definition mem_checkpoint_filesystem ::
  "mem_runtime \<Rightarrow> sandbox_id \<Rightarrow> checkpoint_id \<Rightarrow> runtime_operation_status" where
  "mem_checkpoint_filesystem r sid cid =
     not_implemented_status r [''docker'', ''export'', sid, ''#=>'', cid @ ''.tar'']
       (mem_filesystem_checkpoint_metadata r sid cid)"

definition mem_restore_filesystem ::
  "mem_runtime \<Rightarrow> sandbox_id \<Rightarrow> checkpoint_id \<Rightarrow> runtime_operation_status" where
  "mem_restore_filesystem r sid cid =
     not_implemented_status r [''docker'', ''import'', cid @ ''.tar'', sid]
       (phase_metadata r ''filesystem_restore'' sid cid)"

section \<open>Lemmas\<close>

definition mem_status :: "mem_runtime \<Rightarrow> sandbox_id \<Rightarrow> string option" where
  "mem_status r sid = map_option desc_status (mem_items r sid)"

lemma set_status_ok:
  "set_status r sid st = Inr r' \<Longrightarrow> mem_status r' = (mem_status r)(sid \<mapsto> st)"
  by (auto simp: set_status_def mem_status_def split: option.splits)

lemma set_status_defined:
  "mem_status r sid \<noteq> None \<Longrightarrow> \<exists>r'. set_status r sid st = Inr r'"
  by (auto simp: set_status_def mem_status_def)

lemma set_status_error:
  "set_status r sid st = Inl e \<Longrightarrow> e = KeyError \<and> mem_status r sid = None"
  by (auto simp: set_status_def mem_status_def split: option.splits)

lemmas mem_status_ops = mem_stop_def mem_pause_def mem_resume_def mem_start_def
  mem_sync_runtime_state_def mem_mark_restored_def

end
