(* ===== verification/Scheduler.thy ===== *)
theory Scheduler
  imports Sched_Policy Inspector Runtime_Mem
begin

text \<open>
  \<open>CRScheduler\<close> of \<^verbatim>\<open>crab/scheduler.py\<close> around the policies: hydration of the last checkpoint time, the
  choice of an incremental parent, requested checkpoints, and the two query protocols (inspect after a
  pause, or inspect first and pause only when the decision stops the sandbox).  The runtime and the
  inspector are the \<open>collaborators\<close> record, as the class takes them as constructor arguments; the locale
  \<open>pausable\<close> is what the scheduler relies on from them, and it is interpreted on \<open>InMemoryRuntime\<close> with
  \<open>EBPFSandboxInspector\<close>.
\<close>

section \<open>State and collaborators\<close>

record scheduler =
  sched_config :: scheduler_config
  sched_policy :: policy
  sched_store :: scheduler_store
  sched_deactivated :: "sandbox_id set"

record 'w collaborators =
  co_pause :: "sandbox_id \<Rightarrow> ('w, unit) act"
  co_resume :: "sandbox_id \<Rightarrow> ('w, unit) act"
  co_sync :: "sandbox_id \<Rightarrow> bool \<Rightarrow> ('w, unit) act"
  co_inspect_runtime :: "sandbox_id \<Rightarrow> ('w, sandbox_runtime_state) act"
  co_capabilities :: "('w, runtime_capabilities) act"
  co_pre_dump_location :: "sandbox_id \<Rightarrow> checkpoint_id \<Rightarrow> ('w, string option) act"
  co_is_dir :: "string \<Rightarrow> 'w \<Rightarrow> bool"
  co_inspect :: "sandbox_id \<Rightarrow> ('w, sandbox_snapshot) act"

definition deactivate_sandbox :: "scheduler \<Rightarrow> sandbox_id \<Rightarrow> scheduler" where
  "deactivate_sandbox sch sid = sch\<lparr>sched_deactivated := insert sid (sched_deactivated sch)\<rparr>"

definition is_sandbox_deactivated :: "scheduler \<Rightarrow> sandbox_id \<Rightarrow> bool" where
  "is_sandbox_deactivated sch sid = (sid \<in> sched_deactivated sch)"

section \<open>Choosing the incremental parent\<close>

definition parent_available ::
  "'w collaborators \<Rightarrow> sandbox_id \<Rightarrow> checkpoint_id \<Rightarrow> ('w, bool) act" where
  "parent_available co sid p =
     act_catch
       (act_bind (co_pre_dump_location co sid p) (\<lambda>loc.
          act_read (\<lambda>w. Inr (case loc of None \<Rightarrow> False | Some path \<Rightarrow> path \<noteq> [] \<and> co_is_dir co path w))))
       (\<lambda>e. act_return False)"

definition reset_parent :: "checkpoint_decision \<Rightarrow> checkpoint_id \<Rightarrow> checkpoint_decision" where
  "reset_parent d p = d\<lparr>dec_metadata := (dec_metadata d)
     (''incremental_parent_reset_reason'' \<mapsto> PStr ''missing_pre_dump'',
      ''incremental_parent_candidate'' \<mapsto> PStr p)\<rparr>"

definition resolve_incremental_decision ::
  "'w collaborators \<Rightarrow> scheduler \<Rightarrow> checkpoint_decision \<Rightarrow> sandbox_id \<Rightarrow> bool
     \<Rightarrow> ('w, checkpoint_decision) act" where
  "resolve_incremental_decision co sch d sid baseline_available =
     (let config = sched_config sch in
      if \<not> incremental_process_enabled config \<or> \<not> should_checkpoint d \<or> \<not> checkpoint_process d
      then act_return d
      else act_bind
        (act_catch (act_bind (co_capabilities co) (\<lambda>c. act_return (supports_incremental_process c)))
           (\<lambda>e. act_return False))
        (\<lambda>supports.
           if \<not> supports then act_return d
           else
             let parent = (if baseline_available
                           then get_last_process_checkpoint (sched_store sch) sid else None);
                 len = (if baseline_available then get_process_chain_length (sched_store sch) sid else 0)
             in case parent of
                  None \<Rightarrow> act_return (resolve_incremental_process d config None len)
                | Some p \<Rightarrow> act_bind (parent_available co sid p) (\<lambda>available.
                    act_return
                      (if available then resolve_incremental_process d config (Some p) len
                       else reset_parent (resolve_incremental_process d config None 0) p))))"

section \<open>Evaluation\<close>

definition hydrate :: "scheduler \<Rightarrow> sandbox_snapshot \<Rightarrow> sandbox_snapshot" where
  "hydrate sch s =
     (case snap_last_checkpoint_at s of
        Some _ \<Rightarrow> s
      | None \<Rightarrow>
          (case get_last_checkpoint (sched_store sch) (snap_sandbox_id s) of
             None \<Rightarrow> s
           | Some t \<Rightarrow> s\<lparr>snap_last_checkpoint_at := Some t\<rparr>))"

definition evaluate :: "'w collaborators \<Rightarrow> scheduler \<Rightarrow> sandbox_snapshot \<Rightarrow> ('w, checkpoint_decision) act" where
  "evaluate co sch s =
     (let hydrated = hydrate sch s in
      act_bind (act_read (\<lambda>_. policy_evaluate (sched_policy sch) (sched_config sch) hydrated))
        (\<lambda>d. resolve_incremental_decision co sch d (snap_sandbox_id hydrated) True))"

definition requested_decision :: "sandbox_snapshot \<Rightarrow> bool \<Rightarrow> bool \<Rightarrow> checkpoint_decision" where
  "requested_decision hydrated baseline_available lv =
     (let pol = ''requested-change-driven'' in
      if \<not> snap_is_running hydrated then decline lv ''sandbox_not_running'' pol Map.empty
      else if \<not> baseline_available \<or> snap_last_checkpoint_at hydrated = None
      then mk_decision True True True lv ''no_previous_checkpoint'' pol Map.empty
      else if \<not> (snap_process_changed hydrated \<or> snap_filesystem_changed hydrated)
      then decline lv ''no_change_signal'' pol Map.empty
      else mk_decision True (snap_process_changed hydrated) True lv ''requested_change_signal'' pol
             (Map.empty(''observed_process_changed'' \<mapsto> PBool (snap_process_changed hydrated),
                        ''observed_filesystem_changed'' \<mapsto> PBool (snap_filesystem_changed hydrated))))"

definition evaluate_requested ::
  "'w collaborators \<Rightarrow> scheduler \<Rightarrow> bool \<Rightarrow> bool \<Rightarrow> sandbox_snapshot \<Rightarrow> ('w, checkpoint_decision) act" where
  "evaluate_requested co sch baseline_available lv s =
     (let hydrated = hydrate sch s in
      resolve_incremental_decision co sch (requested_decision hydrated baseline_available lv)
        (snap_sandbox_id hydrated) baseline_available)"

section \<open>The query protocols\<close>

definition inspect_after_pause :: "'w collaborators \<Rightarrow> sandbox_id \<Rightarrow> ('w, sandbox_snapshot) act" where
  "inspect_after_pause co sid =
     act_bind (co_inspect co sid) (\<lambda>s.
       if snap_is_running s then act_return s
       else act_bind
         (act_catch (act_bind (co_inspect_runtime co sid) (\<lambda>rs. act_return (Some rs)))
            (\<lambda>e. act_return None))
         (\<lambda>rs. case rs of
            None \<Rightarrow> act_return s
          | Some st \<Rightarrow> act_return (if runtime_state_is_running st then s\<lparr>snap_is_running := True\<rparr> else s)))"

text \<open>The two pieces both protocols repeat: pausing, where a failed pause of a stopped sandbox still
  yields a decision, and the evaluation of the paused sandbox with its clean-up.\<close>

definition pause_or_evaluate ::
  "'w collaborators \<Rightarrow> (sandbox_snapshot \<Rightarrow> ('w, checkpoint_decision) act) \<Rightarrow> sandbox_id
     \<Rightarrow> ('w, checkpoint_decision option) act" where
  "pause_or_evaluate co ev sid =
     act_catch (act_bind (co_pause co sid) (\<lambda>_. act_return None))
       (\<lambda>e. act_bind (co_inspect co sid) (\<lambda>s.
          if \<not> snap_is_running s then act_bind (ev s) (\<lambda>d. act_return (Some d))
          else act_raise e))"

definition release_after_exception :: "'w collaborators \<Rightarrow> sandbox_id \<Rightarrow> ('w, unit) act" where
  "release_after_exception co sid =
     act_bind
       (act_catch (act_bind (co_inspect co sid) (\<lambda>s. act_return (Some s))) (\<lambda>e. act_return None))
       (\<lambda>s. act_catch
          (case s of
             None \<Rightarrow> co_resume co sid
           | Some sn \<Rightarrow> if \<not> snap_is_running sn then co_sync co sid False else co_resume co sid)
          (\<lambda>e. act_return ()))"

definition evaluate_paused ::
  "'w collaborators \<Rightarrow> (sandbox_snapshot \<Rightarrow> ('w, checkpoint_decision) act) \<Rightarrow> sandbox_id
     \<Rightarrow> ('w, checkpoint_decision) act" where
  "evaluate_paused co ev sid =
     act_catch
       (act_bind (inspect_after_pause co sid) (\<lambda>s.
        act_bind (ev s) (\<lambda>d.
          if \<not> should_checkpoint d
          then act_bind (if snap_is_running s then co_resume co sid else co_sync co sid False)
                 (\<lambda>_. act_return d)
          else act_return d)))
       (\<lambda>e. act_bind (release_after_exception co sid) (\<lambda>_. act_raise e))"

definition query_checkpoint_with_pause ::
  "'w collaborators \<Rightarrow> (sandbox_snapshot \<Rightarrow> ('w, checkpoint_decision) act) \<Rightarrow> sandbox_id
     \<Rightarrow> ('w, checkpoint_decision) act" where
  "query_checkpoint_with_pause co ev sid =
     act_bind (pause_or_evaluate co ev sid) (\<lambda>early.
       case early of
         Some d \<Rightarrow> act_return d
       | None \<Rightarrow> evaluate_paused co ev sid)"

definition query_checkpoint_with_live_inspection ::
  "'w collaborators \<Rightarrow> (sandbox_snapshot \<Rightarrow> ('w, checkpoint_decision) act) \<Rightarrow> sandbox_id
     \<Rightarrow> ('w, checkpoint_decision) act" where
  "query_checkpoint_with_live_inspection co ev sid =
     act_bind (co_inspect co sid) (\<lambda>s.
     act_bind (ev s) (\<lambda>d.
       if \<not> should_checkpoint d then act_return d
       else if leave_running d then act_return d
       else act_bind (pause_or_evaluate co ev sid) (\<lambda>early.
         case early of
           Some d' \<Rightarrow> act_return d'
         | None \<Rightarrow> evaluate_paused co ev sid)))"

definition query_checkpoint :: "'w collaborators \<Rightarrow> scheduler \<Rightarrow> sandbox_id \<Rightarrow> ('w, checkpoint_decision) act" where
  "query_checkpoint co sch sid =
     (if is_sandbox_deactivated sch sid
      then act_return (decline True ''sandbox_deactivated'' (policy_label (sched_policy sch)) Map.empty)
      else if inspect_without_pause (sched_config sch)
      then query_checkpoint_with_live_inspection co (evaluate co sch) sid
      else query_checkpoint_with_pause co (evaluate co sch) sid)"

definition query_requested_checkpoint ::
  "'w collaborators \<Rightarrow> scheduler \<Rightarrow> bool \<Rightarrow> bool \<Rightarrow> sandbox_id \<Rightarrow> ('w, checkpoint_decision) act" where
  "query_requested_checkpoint co sch baseline_available lv sid =
     (if inspect_without_pause (sched_config sch)
      then query_checkpoint_with_live_inspection co (evaluate_requested co sch baseline_available lv) sid
      else query_checkpoint_with_pause co (evaluate_requested co sch baseline_available lv) sid)"

section \<open>Lemmas on evaluation\<close>

lemma hydrate_simps [simp]:
  "snap_is_running (hydrate sch s) = snap_is_running s"
  "snap_sandbox_id (hydrate sch s) = snap_sandbox_id s"
  "snap_process_changed (hydrate sch s) = snap_process_changed s"
  "snap_filesystem_changed (hydrate sch s) = snap_filesystem_changed s"
  by (simp_all add: hydrate_def split: option.split)

lemma policy_declines_stopped:
  "policy_evaluate pol c s = Inr d \<Longrightarrow> \<not> snap_is_running s \<Longrightarrow> \<not> should_checkpoint d"
  by (cases pol)
    (auto simp: default_evaluate_def fault_tolerance_evaluate_def spot_evaluate_def
      tree_search_evaluate_def evaluate_change_driven_checkpoint_def Let_def)

lemma resolve_decision_declined:
  "\<not> should_checkpoint d \<Longrightarrow> resolve_incremental_decision co sch d sid b = act_return d"
  by (simp add: resolve_incremental_decision_def Let_def)

text \<open>The shape of a resolved decision: the policy's own, or its layering over some parent and length.\<close>

lemma resolve_decision_result:
  assumes "resolve_incremental_decision co sch d sid b w = (Inr d', w')"
  shows "\<exists>l n. d' = resolve_incremental_process d (sched_config sch) l n
           \<or> d' = d \<or> (\<exists>p. d' = reset_parent (resolve_incremental_process d (sched_config sch) l n) p)"
  using assms
  by (auto simp: resolve_incremental_decision_def Let_def act_bind_def
      split: if_splits prod.splits sum.splits option.splits)

lemma reset_parent_simps [simp]:
  "should_checkpoint (reset_parent d p) = should_checkpoint d"
  "checkpoint_process (reset_parent d p) = checkpoint_process d"
  "checkpoint_filesystem (reset_parent d p) = checkpoint_filesystem d"
  "leave_running (reset_parent d p) = leave_running d"
  "checkpoint_job_post_init (reset_parent d p) = checkpoint_job_post_init d"
  by (simp_all add: reset_parent_def checkpoint_job_post_init_def)

lemma resolve_decision_scope:
  assumes "resolve_incremental_decision co sch d sid b w = (Inr d', w')"
  shows "should_checkpoint d' = should_checkpoint d \<and> checkpoint_process d' = checkpoint_process d
       \<and> checkpoint_filesystem d' = checkpoint_filesystem d \<and> leave_running d' = leave_running d"
  using resolve_decision_result [OF assms] by auto

definition declines_stopped :: "(sandbox_snapshot \<Rightarrow> ('w, checkpoint_decision) act) \<Rightarrow> bool" where
  "declines_stopped ev = (\<forall>s w d w'. \<not> snap_is_running s \<longrightarrow> ev s w = (Inr d, w') \<longrightarrow> \<not> should_checkpoint d)"

lemma evaluate_declines_stopped: "declines_stopped (evaluate co sch)"
  unfolding declines_stopped_def evaluate_def
  by (auto simp: Let_def act_bind_def resolve_decision_declined dest: policy_declines_stopped
      split: prod.splits sum.splits)

lemma evaluate_requested_declines_stopped: "declines_stopped (evaluate_requested co sch b lv)"
  unfolding declines_stopped_def evaluate_requested_def
  by (auto simp: Let_def requested_decision_def resolve_decision_declined)

text \<open>The statuses after a query that started with statuses \<open>st\<close>: only the queried sandbox may differ.
  \<open>idle\<close> says it is not paused, \<open>frozen\<close> that it is, and \<open>settled\<close> is the outcome the pausing protocol
  promises for a decision.\<close>

type_synonym 'w status_fn = "'w \<Rightarrow> sandbox_id \<Rightarrow> string option"

definition others :: "'w status_fn \<Rightarrow> (sandbox_id \<Rightarrow> string option) \<Rightarrow> sandbox_id \<Rightarrow> 'w \<Rightarrow> bool" where
  "others status st sid w = (\<forall>s. s \<noteq> sid \<longrightarrow> status w s = st s)"

definition idle :: "'w status_fn \<Rightarrow> (sandbox_id \<Rightarrow> string option) \<Rightarrow> sandbox_id \<Rightarrow> 'w \<Rightarrow> bool" where
  "idle status st sid w = (others status st sid w \<and> status w sid \<noteq> Some ''paused'')"

definition frozen :: "'w status_fn \<Rightarrow> (sandbox_id \<Rightarrow> string option) \<Rightarrow> sandbox_id \<Rightarrow> 'w \<Rightarrow> bool" where
  "frozen status st sid w = (others status st sid w \<and> status w sid = Some ''paused'')"

definition settled ::
  "'w status_fn \<Rightarrow> (sandbox_id \<Rightarrow> string option) \<Rightarrow> sandbox_id \<Rightarrow> checkpoint_decision \<Rightarrow> 'w \<Rightarrow> bool" where
  "settled status st sid d w = (if should_checkpoint d then frozen status st sid w else idle status st sid w)"

section \<open>What the scheduler relies on\<close>

text \<open>
  The status a sandbox has in the runtime (\<open>''paused''\<close>, \<open>''running''\<close>, ...), as the life-cycle calls
  change it: each touches only its own sandbox, a call that raises changes nothing, a paused sandbox can
  be resumed and marked stopped, and inspection changes no status.
\<close>

locale pausable =
  fixes co :: "'w collaborators"
    and status :: "'w \<Rightarrow> sandbox_id \<Rightarrow> string option"
  assumes pause_effect: "co_pause co sid w = (r, w') \<Longrightarrow>
      status w' = (if r = Inr () then (status w)(sid \<mapsto> ''paused'') else status w)"
    and resume_effect: "co_resume co sid w = (r, w') \<Longrightarrow>
      status w' = (if r = Inr () then (status w)(sid \<mapsto> ''running'') else status w)"
    and sync_effect: "co_sync co sid b w = (r, w') \<Longrightarrow>
      status w' = (if r = Inr ()
                   then (status w)(sid \<mapsto> (if b then ''running'' else ''stopped'')) else status w)"
    and resume_total: "status w sid = Some ''paused'' \<Longrightarrow> fst (co_resume co sid w) = Inr ()"
    and sync_total: "status w sid = Some ''paused'' \<Longrightarrow> fst (co_sync co sid b w) = Inr ()"
    and inspect_keeps [act_keeps_intros]: "act_keeps status (co_inspect co sid)"
    and inspect_runtime_keeps [act_keeps_intros]: "act_keeps status (co_inspect_runtime co sid)"
    and capabilities_keeps [act_keeps_intros]: "act_keeps status (co_capabilities co)"
    and pre_dump_keeps [act_keeps_intros]: "act_keeps status (co_pre_dump_location co sid cid)"
begin

lemma resolve_decision_keeps [act_keeps_intros]:
  "act_keeps status (resolve_incremental_decision co sch d sid b)"
  unfolding resolve_incremental_decision_def parent_available_def Let_def
  by (auto intro!: act_keeps_intros split: option.split)

lemma evaluate_keeps [act_keeps_intros]: "act_keeps status (evaluate co sch s)"
  unfolding evaluate_def Let_def by (intro act_keeps_intros)

lemma evaluate_requested_keeps [act_keeps_intros]:
  "act_keeps status (evaluate_requested co sch b lv s)"
  unfolding evaluate_requested_def Let_def by (intro act_keeps_intros)

lemma inspect_after_pause_keeps [act_keeps_intros]: "act_keeps status (inspect_after_pause co sid)"
  unfolding inspect_after_pause_def by (auto intro!: act_keeps_intros split: option.split)

lemma keeps_idle: "act_keeps status m \<Longrightarrow> act_spec (idle status st sid) m (\<lambda>_. idle status st sid) (\<lambda>_. idle status st sid)"
  by (rule act_specI) (auto simp: idle_def others_def dest: act_keepsD)

lemma keeps_frozen: "act_keeps status m \<Longrightarrow> act_spec (frozen status st sid) m (\<lambda>_. frozen status st sid) (\<lambda>_. frozen status st sid)"
  by (rule act_specI) (auto simp: frozen_def others_def dest: act_keepsD)

lemma resume_frozen: "act_spec (frozen status st sid) (co_resume co sid) (\<lambda>_. idle status st sid) (\<lambda>_ _. False)"
proof (rule act_specI)
  fix w e w'
  assume "frozen status st sid w" "co_resume co sid w = (Inl e, w')"
  then show False using resume_total [of w sid] by (simp add: frozen_def)
next
  fix w x w'
  assume "frozen status st sid w" "co_resume co sid w = (Inr x, w')"
  then show "idle status st sid w'" using resume_effect [of sid w "Inr x" w'] by (simp add: frozen_def idle_def others_def)
qed

lemma sync_frozen: "act_spec (frozen status st sid) (co_sync co sid b) (\<lambda>_. idle status st sid) (\<lambda>_ _. False)"
proof (rule act_specI)
  fix w e w'
  assume "frozen status st sid w" "co_sync co sid b w = (Inl e, w')"
  then show False using sync_total [of w sid b] by (simp add: frozen_def)
next
  fix w x w'
  assume "frozen status st sid w" "co_sync co sid b w = (Inr x, w')"
  then show "idle status st sid w'" using sync_effect [of sid b w "Inr x" w'] by (simp add: frozen_def idle_def others_def)
qed

lemma release_frozen:
  "act_spec (frozen status st sid) (release_after_exception co sid) (\<lambda>_. idle status st sid) (\<lambda>_ _. False)"
  unfolding release_after_exception_def
proof (rule act_spec_bind [where R = "\<lambda>_. frozen status st sid"])
  have k: "act_keeps status (act_catch (act_bind (co_inspect co sid) (\<lambda>s. act_return (Some s))) (\<lambda>e. act_return None))"
    by (intro act_keeps_intros)
  show "act_spec (frozen status st sid)
      (act_catch (act_bind (co_inspect co sid) (\<lambda>s. act_return (Some s))) (\<lambda>e. act_return None))
      (\<lambda>_. frozen status st sid) (\<lambda>_ _. False)"
    using keeps_frozen [OF k, of st sid]
    by (auto simp: act_spec_def act_catch_def act_bind_def split: prod.splits sum.splits)
next
  fix s :: "sandbox_snapshot option"
  show "act_spec (frozen status st sid)
      (act_catch (case s of None \<Rightarrow> co_resume co sid
        | Some sn \<Rightarrow> if \<not> snap_is_running sn then co_sync co sid False else co_resume co sid)
        (\<lambda>e. act_return ())) (\<lambda>_. idle status st sid) (\<lambda>_ _. False)"
    by (rule act_spec_catch [where F = "\<lambda>_ _. False"])
      (auto simp: resume_frozen sync_frozen act_spec_def [of "\<lambda>_. False"] split: option.split)
qed

lemma evaluate_paused_settles:
  assumes "\<And>s. act_keeps status (ev s)"
  shows "act_spec (frozen status st sid) (evaluate_paused co ev sid) (settled status st sid) (\<lambda>_. idle status st sid)"
  unfolding evaluate_paused_def
proof (rule act_spec_catch [where F = "\<lambda>_. frozen status st sid"])
  show "act_spec (frozen status st sid)
     (act_bind (inspect_after_pause co sid) (\<lambda>s. act_bind (ev s) (\<lambda>d.
        if \<not> should_checkpoint d
        then act_bind (if snap_is_running s then co_resume co sid else co_sync co sid False)
               (\<lambda>_. act_return d)
        else act_return d)))
     (settled status st sid) (\<lambda>_. frozen status st sid)"
  proof (rule act_spec_bind [OF keeps_frozen [OF inspect_after_pause_keeps]],
      rule act_spec_bind [OF keeps_frozen [OF assms]], rule act_spec_if)
    fix s :: sandbox_snapshot and d :: checkpoint_decision
    assume no: "\<not> should_checkpoint d"
    have "act_spec (frozen status st sid) (if snap_is_running s then co_resume co sid else co_sync co sid False)
        (\<lambda>_. idle status st sid) (\<lambda>_. frozen status st sid)"
      by (rule act_spec_if) (rule act_spec_weaken [OF resume_frozen] act_spec_weaken [OF sync_frozen]; simp)+
    then show "act_spec (frozen status st sid)
        (act_bind (if snap_is_running s then co_resume co sid else co_sync co sid False) (\<lambda>_. act_return d))
        (settled status st sid) (\<lambda>_. frozen status st sid)"
      by (rule act_spec_bind) (simp add: act_spec_return settled_def no)
  qed (simp add: act_spec_return settled_def)
next
  fix e
  show "act_spec (frozen status st sid) (act_bind (release_after_exception co sid) (\<lambda>_. act_raise e))
      (settled status st sid) (\<lambda>_. idle status st sid)"
    by (rule act_spec_bind [where R = "\<lambda>_. idle status st sid"])
      (auto intro: act_spec_weaken [OF release_frozen] act_spec_raise)
qed

lemma pause_or_evaluate_spec:
  assumes "\<And>s. act_keeps status (ev s)" and "declines_stopped ev"
  shows "act_spec (idle status st sid) (pause_or_evaluate co ev sid)
     (\<lambda>early. case early of None \<Rightarrow> frozen status st sid | Some d \<Rightarrow> settled status st sid d) (\<lambda>_. idle status st sid)"
  unfolding pause_or_evaluate_def
proof (rule act_spec_catch [where F = "\<lambda>_. idle status st sid"])
  show "act_spec (idle status st sid) (act_bind (co_pause co sid) (\<lambda>_. act_return None))
     (\<lambda>early. case early of None \<Rightarrow> frozen status st sid | Some d \<Rightarrow> settled status st sid d) (\<lambda>_. idle status st sid)"
    by (rule act_specI) (auto simp: act_bind_def idle_def frozen_def others_def
        dest!: pause_effect split: prod.splits sum.splits)
next
  fix e
  have ev: "act_spec (idle status st sid) (act_bind (ev s) (\<lambda>d. act_return (Some d)))
      (\<lambda>early. case early of None \<Rightarrow> frozen status st sid | Some d \<Rightarrow> settled status st sid d) (\<lambda>_. idle status st sid)"
    if "\<not> snap_is_running s" for s
    using that assms(2) keeps_idle [OF assms(1) [of s], of st sid]
    by (fastforce simp: act_spec_def act_bind_def settled_def declines_stopped_def
        split: prod.splits sum.splits)
  show "act_spec (idle status st sid) (act_bind (co_inspect co sid) (\<lambda>s.
          if \<not> snap_is_running s then act_bind (ev s) (\<lambda>d. act_return (Some d)) else act_raise e))
     (\<lambda>early. case early of None \<Rightarrow> frozen status st sid | Some d \<Rightarrow> settled status st sid d) (\<lambda>_. idle status st sid)"
    by (rule act_spec_bind [OF keeps_idle [OF inspect_keeps]]) (auto intro: ev act_spec_raise)
qed

lemma with_pause_settles:
  assumes "\<And>s. act_keeps status (ev s)" and "declines_stopped ev"
  shows "act_spec (idle status st sid) (query_checkpoint_with_pause co ev sid) (settled status st sid) (\<lambda>_. idle status st sid)"
  unfolding query_checkpoint_with_pause_def
  by (rule act_spec_bind [OF pause_or_evaluate_spec [OF assms]])
    (auto simp: evaluate_paused_settles [OF assms(1)] act_spec_return split: option.split)

lemma live_inspection_settles:
  assumes "\<And>s. act_keeps status (ev s)" and "declines_stopped ev"
  shows "act_spec (idle status st sid) (query_checkpoint_with_live_inspection co ev sid)
     (\<lambda>d w. settled status st sid d w \<or> (leave_running d \<and> idle status st sid w)) (\<lambda>_. idle status st sid)"
  unfolding query_checkpoint_with_live_inspection_def
proof (rule act_spec_bind [OF keeps_idle [OF inspect_keeps]],
    rule act_spec_bind [OF keeps_idle [OF assms(1)]], intro act_spec_if)
  show "act_spec (idle status st sid) (act_bind (pause_or_evaluate co ev sid) (\<lambda>early.
         case early of Some d' \<Rightarrow> act_return d' | None \<Rightarrow> evaluate_paused co ev sid))
     (\<lambda>d w. settled status st sid d w \<or> (leave_running d \<and> idle status st sid w)) (\<lambda>_. idle status st sid)"
    using with_pause_settles [OF assms, of st sid]
    unfolding query_checkpoint_with_pause_def by (rule act_spec_weaken) auto
qed (auto intro!: act_spec_return simp: settled_def)

lemma query_settles:
  "act_spec (idle status st sid) (query_checkpoint co sch sid)
     (\<lambda>d w. settled status st sid d w \<or> (inspect_without_pause (sched_config sch) \<and> leave_running d \<and> idle status st sid w))
     (\<lambda>_. idle status st sid)"
  unfolding query_checkpoint_def
proof (intro act_spec_if)
  show "act_spec (idle status st sid) (query_checkpoint_with_pause co (evaluate co sch) sid)
     (\<lambda>d w. settled status st sid d w \<or> (inspect_without_pause (sched_config sch) \<and> leave_running d \<and> idle status st sid w))
     (\<lambda>_. idle status st sid)"
    by (rule act_spec_weaken [OF with_pause_settles [OF evaluate_keeps evaluate_declines_stopped]]) auto
  show "inspect_without_pause (sched_config sch) \<Longrightarrow>
     act_spec (idle status st sid) (query_checkpoint_with_live_inspection co (evaluate co sch) sid)
     (\<lambda>d w. settled status st sid d w \<or> (inspect_without_pause (sched_config sch) \<and> leave_running d \<and> idle status st sid w))
     (\<lambda>_. idle status st sid)"
    by (rule act_spec_weaken [OF live_inspection_settles [OF evaluate_keeps evaluate_declines_stopped]]) auto
qed (auto intro!: act_spec_return simp: settled_def)

lemma requested_settles:
  "act_spec (idle status st sid) (query_requested_checkpoint co sch b lv sid)
     (\<lambda>d w. settled status st sid d w \<or> (inspect_without_pause (sched_config sch) \<and> leave_running d \<and> idle status st sid w))
     (\<lambda>_. idle status st sid)"
  unfolding query_requested_checkpoint_def
proof (intro act_spec_if)
  show "act_spec (idle status st sid) (query_checkpoint_with_pause co (evaluate_requested co sch b lv) sid)
     (\<lambda>d w. settled status st sid d w \<or> (inspect_without_pause (sched_config sch) \<and> leave_running d \<and> idle status st sid w))
     (\<lambda>_. idle status st sid)"
    by (rule act_spec_weaken
        [OF with_pause_settles [OF evaluate_requested_keeps evaluate_requested_declines_stopped]]) auto
  show "inspect_without_pause (sched_config sch) \<Longrightarrow>
     act_spec (idle status st sid) (query_checkpoint_with_live_inspection co (evaluate_requested co sch b lv) sid)
     (\<lambda>d w. settled status st sid d w \<or> (inspect_without_pause (sched_config sch) \<and> leave_running d \<and> idle status st sid w))
     (\<lambda>_. idle status st sid)"
    by (rule act_spec_weaken
        [OF live_inspection_settles [OF evaluate_requested_keeps evaluate_requested_declines_stopped]]) auto
qed

end

section \<open>The contract holds for the in-memory runtime and the eBPF inspector\<close>

record mem_world =
  mw_runtime :: mem_runtime
  mw_inspector :: inspector

definition mw_status :: "mem_world \<Rightarrow> sandbox_id \<Rightarrow> string option" where
  "mw_status w = mem_status (mw_runtime w)"

definition on_runtime :: "(mem_runtime \<Rightarrow> mem_runtime res) \<Rightarrow> (mem_world, unit) act" where
  "on_runtime f = act_update (\<lambda>w. case f (mw_runtime w) of
     Inl e \<Rightarrow> Inl e | Inr r \<Rightarrow> Inr (w\<lparr>mw_runtime := r\<rparr>))"

definition mem_collaborators :: "mem_world collaborators" where
  "mem_collaborators = \<lparr>
     co_pause = (\<lambda>sid. on_runtime (\<lambda>r. mem_pause r sid)),
     co_resume = (\<lambda>sid. on_runtime (\<lambda>r. mem_resume r sid)),
     co_sync = (\<lambda>sid b. on_runtime (\<lambda>r. mem_sync_runtime_state r sid b)),
     co_inspect_runtime = (\<lambda>sid. act_read (\<lambda>w. mem_inspect_runtime (mw_runtime w) sid)),
     co_capabilities = act_read (\<lambda>w. Inr (mem_capabilities (mw_runtime w))),
     co_pre_dump_location = (\<lambda>sid cid. act_return None),
     co_is_dir = (\<lambda>path w. False),
     co_inspect = (\<lambda>sid w. case inspect (mw_inspector w) sid of
        Inl e \<Rightarrow> (Inl e, w)
      | Inr (s, i) \<Rightarrow> (Inr s, w\<lparr>mw_inspector := i\<rparr>))\<rparr>"

lemma on_runtime_status:
  assumes "on_runtime (\<lambda>r. set_status r sid st) w = (r, w')"
  shows "mw_status w' = (if r = Inr () then (mw_status w)(sid \<mapsto> st) else mw_status w)"
  using assms set_status_ok [of "mw_runtime w" sid st]
  by (auto simp: on_runtime_def act_update_def mw_status_def split: sum.splits)

lemma on_runtime_total:
  "mw_status w sid \<noteq> None \<Longrightarrow> fst (on_runtime (\<lambda>r. set_status r sid st) w) = Inr ()"
  using set_status_defined [of "mw_runtime w" sid st]
  by (auto simp: on_runtime_def act_update_def mw_status_def)

interpretation mem: pausable mem_collaborators mw_status
  by unfold_locales
    (auto simp: mem_collaborators_def mem_status_ops on_runtime_total act_keeps_def mw_status_def [of "_\<lparr>mw_inspector := _\<rparr>"]
      mw_status_def [symmetric] dest: on_runtime_status split: sum.split)

section \<open>Properties\<close>


definition demo_world :: mem_world where
  "demo_world = \<lparr>
     mw_runtime = \<lparr>mem_name = ''docker'', mem_version = None,
       mem_items = Map.empty(''sb1'' \<mapsto> \<lparr>desc_sandbox_id = ''sb1'', desc_runtime_name = ''docker'',
         desc_status = ''running'', desc_metadata = Map.empty\<rparr>)\<rparr>,
     mw_inspector = upsert_snapshot new_inspector (demo_snapshot False False (Some 0) Map.empty)\<rparr>"

definition demo_scheduler :: scheduler where
  "demo_scheduler = \<lparr>sched_config = default_scheduler_config, sched_policy = CheckpointingPolicy,
     sched_store = empty_scheduler_store, sched_deactivated = {}\<rparr>"


text \<open>C22. A requested checkpoint is complete: when it is selected it covers the processes if they changed and
  always the filesystem, both halves when there is no baseline to build on, and its job can be built; when a
  running sandbox is declined there is a baseline and nothing has changed since, so reusing the previous
  recovery point is exact.\<close>

theorem requested_scope_complete:
  assumes "evaluate_requested co sch b lv s w = (Inr d, w')"
  shows "(should_checkpoint d \<longrightarrow>
            (snap_process_changed s \<longrightarrow> checkpoint_process d) \<and> checkpoint_filesystem d
            \<and> (\<not> b \<longrightarrow> checkpoint_process d) \<and> checkpoint_job_post_init d = Inr ())
       \<and> (\<not> should_checkpoint d \<longrightarrow> snap_is_running s \<longrightarrow>
            b \<and> \<not> snap_changed s \<and> snap_last_checkpoint_at (hydrate sch s) \<noteq> None)"
proof -
  let ?d0 = "requested_decision (hydrate sch s) b lv"
  have res: "resolve_incremental_decision co sch ?d0 (snap_sandbox_id s) b w = (Inr d, w')"
    using assms by (simp add: evaluate_requested_def Let_def)
  have d0: "\<not> is_incremental_process ?d0" "\<not> produce_pre_dump ?d0"
    by (simp_all add: requested_decision_def Let_def)
  have job: "checkpoint_job_post_init d = Inr ()" if "checkpoint_filesystem ?d0"
  proof -
    have "checkpoint_job_post_init ?d0 = Inr ()" using d0 that by (simp add: checkpoint_job_post_init_def)
    then show ?thesis
      using resolve_decision_result [OF res] resolve_incremental_job [OF disjI2 [OF that] d0] by auto
  qed
  show ?thesis
    using resolve_decision_scope [OF res] job
    by (auto simp: requested_decision_def Let_def snap_changed_def)
qed

theorem requested_scope_complete_witness:
  "checkpoint_process (fst (the (case evaluate_requested mem_collaborators demo_scheduler False True
        (demo_snapshot False False None Map.empty) demo_world of
      (Inr d, w') \<Rightarrow> Some (d, w') | (Inl e, w') \<Rightarrow> None)))"
proof -
  have ev: "evaluate_requested mem_collaborators demo_scheduler False True
      (demo_snapshot False False None Map.empty) demo_world
    = (Inr (mk_decision True True True True ''no_previous_checkpoint'' ''requested-change-driven'' Map.empty),
       demo_world)"
    by (simp add: evaluate_requested_def hydrate_def demo_snapshot_def demo_scheduler_def
        empty_scheduler_store_def get_last_checkpoint_def requested_decision_def
        resolve_incremental_decision_def mem_collaborators_def mem_capabilities_def Let_def
        act_bind_def act_catch_def)
  show ?thesis using requested_scope_complete [OF ev] by (simp add: ev)
qed

end
