(* ===== verification/Timestamps.thy ===== *)
theory Timestamps
  imports Crab_Prelude
begin

text \<open>
  Timestamps as text: \<open>_isoformat\<close> of \<^verbatim>\<open>crab/models.py\<close>, that is \<open>datetime.isoformat()\<close> in UTC.  The storage
  layer orders checkpoints by comparing these strings (\<open>list_checkpoints\<close>, \<open>descendants\<close>), so the main
  lemma is that on the range of \<open>datetime\<close> the order of the strings is the order of the instants,
  although the fraction is left out when it is zero.
\<close>

section \<open>The calendar\<close>

definition is_leap :: "nat \<Rightarrow> bool" where
  "is_leap y = (y mod 4 = 0 \<and> (y mod 100 \<noteq> 0 \<or> y mod 400 = 0))"

definition days_in_year :: "nat \<Rightarrow> nat" where
  "days_in_year y = (if is_leap y then 366 else 365)"

definition days_in_month :: "nat \<Rightarrow> nat \<Rightarrow> nat" where
  "days_in_month y m =
     (if m = 2 then (if is_leap y then 29 else 28) else if m \<in> set [4, 6, 9, 11] then 30 else 31)"

text \<open>Year and zero-based day of the year, counting days from the first of January of year \<open>y\<close>; month
  and zero-based day of the month, counting from month \<open>m\<close>.\<close>

function year_from :: "nat \<Rightarrow> nat \<Rightarrow> nat \<times> nat" where
  "year_from y n = (if n < days_in_year y then (y, n) else year_from (Suc y) (n - days_in_year y))"
  by auto
termination by (relation "measure snd") (auto simp: days_in_year_def)

function month_from :: "nat \<Rightarrow> nat \<Rightarrow> nat \<Rightarrow> nat \<times> nat" where
  "month_from y m n =
     (if 12 \<le> m \<or> n < days_in_month y m then (m, n) else month_from y (Suc m) (n - days_in_month y m))"
  by auto
termination by (relation "measure (\<lambda>(y, m, n). 12 - m)") auto

declare year_from.simps [simp del] month_from.simps [simp del]

section \<open>The text\<close>

fun pad :: "nat \<Rightarrow> nat \<Rightarrow> string" where
  "pad 0 n = []"
| "pad (Suc k) n = pad k (n div 10) @ [char_of (48 + n mod 10)]"

text \<open>Microseconds since the first instant of \<open>datetime\<close>, 0001-01-01T00:00:00 (719162 days before the
  epoch), and the condition that an instant is one of \<open>datetime\<close>'s (years 1 to 9999).\<close>

definition since_min :: "instant \<Rightarrow> nat" where
  "since_min t = nat (t + 719162 * 86400000000)"

definition instant_ok :: "instant \<Rightarrow> bool" where
  "instant_ok t = (0 \<le> t + 719162 * 86400000000 \<and> fst (year_from 1 (since_min t div 86400000000)) \<le> 9999)"

definition date_text :: "nat \<Rightarrow> string" where
  "date_text n =
     (case year_from 1 n of (y, r) \<Rightarrow>
        case month_from y 1 r of (m, d) \<Rightarrow>
          pad 4 y @ ''-'' @ pad 2 m @ ''-'' @ pad 2 (d + 1))"

definition time_text :: "nat \<Rightarrow> string" where
  "time_text s = pad 2 (s div 3600) @ '':'' @ pad 2 (s mod 3600 div 60) @ '':'' @ pad 2 (s mod 60)"

definition fraction_text :: "nat \<Rightarrow> string" where
  "fraction_text us = (if us = 0 then ''+00:00'' else ''.'' @ pad 6 us @ ''+00:00'')"

definition isoformat :: "instant \<Rightarrow> string" where
  "isoformat t =
     (let n = since_min t; s = n div 1000000
      in date_text (s div 86400) @ ''T'' @ time_text (s mod 86400) @ fraction_text (n mod 1000000))"

section \<open>Lexicographic order of fixed-width fields\<close>

lemma less_append_iff:
  fixes xs ys :: "'a::linorder list"
  shows "length xs = length ys \<Longrightarrow> xs @ us < ys @ vs \<longleftrightarrow> xs < ys \<or> (xs = ys \<and> us < vs)"
proof (induction xs ys rule: list_induct2)
  case (Cons x xs y ys)
  then show ?case by (cases "x = y") auto
qed simp

lemma length_pad [simp]: "length (pad k n) = k"
  by (induction k arbitrary: n) auto

lemma div_mod_lex:
  fixes a b k :: nat
  assumes "a < b"
  shows "a div k < b div k \<or> (a div k = b div k \<and> a mod k < b mod k)"
proof (cases "a div k = b div k")
  case True
  then show ?thesis using assms by (metis div_mult_mod_eq nat_add_left_cancel_less)
qed (use assms div_le_mono [of a b k] in simp)

lemma digit_char_less:
  fixes a b :: nat
  assumes "a < b" and "b < 10"
  shows "(char_of (48 + a) :: char) < char_of (48 + b)"
  using assms by (simp add: less_char_def)

lemma pad_less:
  assumes "a < b" and "b < 10 ^ k"
  shows "pad k a < pad k b"
  using assms
proof (induction k arbitrary: a b)
  case (Suc k)
  consider "a div 10 < b div 10" | "a div 10 = b div 10" "a mod 10 < b mod 10"
    using div_mod_lex [OF Suc.prems(1)] by blast
  then show ?case
  proof cases
    case 1
    moreover have "b div 10 < 10 ^ k" using Suc.prems(2) by (simp add: less_mult_imp_div_less mult.commute)
    ultimately show ?thesis using Suc.IH [of "a div 10" "b div 10"] by (simp add: less_append_iff)
  next
    case 2
    then show ?thesis using digit_char_less [of "a mod 10" "b mod 10"] by (simp add: less_append_iff)
  qed
qed simp

section \<open>Later days have larger dates\<close>

lemma days_in_year_pos [simp]: "0 < days_in_year y"
  by (simp add: days_in_year_def)

lemma year_from_ge: "y \<le> fst (year_from y n)"
proof (induction y n rule: year_from.induct)
  case (1 y n)
  then show ?case by (subst year_from.simps) auto
qed

lemma year_from_range: "year_from y n = (y', r) \<Longrightarrow> r < days_in_year y'"
proof (induction y n rule: year_from.induct)
  case (1 y n)
  then show ?case by (subst (asm) year_from.simps) (auto split: if_splits)
qed

lemma year_from_mono:
  "n < n' \<Longrightarrow> fst (year_from y n) < fst (year_from y n')
     \<or> (fst (year_from y n) = fst (year_from y n') \<and> snd (year_from y n) < snd (year_from y n'))"
proof (induction y n arbitrary: n' rule: year_from.induct)
  case (1 y n)
  show ?case
  proof (cases "n < days_in_year y")
    case True
    show ?thesis
    proof (cases "n' < days_in_year y")
      case False
      then have "Suc y \<le> fst (year_from y n')"
        using year_from_ge [of "Suc y" "n' - days_in_year y"] by (subst year_from.simps) simp
      then show ?thesis using True by (simp add: year_from.simps [of y n])
    qed (use True 1(2) in \<open>simp add: year_from.simps [of y n] year_from.simps [of y n']\<close>)
  next
    case False
    then have "\<not> n' < days_in_year y" and "n - days_in_year y < n' - days_in_year y" using 1(2) by auto
    then show ?thesis
      using 1(1) [OF False, of "n' - days_in_year y"] False
      by (simp add: year_from.simps [of y n] year_from.simps [of y n'])
  qed
qed

lemma month_from_ge: "m \<le> fst (month_from y m n)"
proof (induction y m n rule: month_from.induct)
  case (1 y m n)
  then show ?case by (subst month_from.simps) auto
qed

lemma month_from_mono:
  "n < n' \<Longrightarrow> fst (month_from y m n) < fst (month_from y m n')
     \<or> (fst (month_from y m n) = fst (month_from y m n') \<and> snd (month_from y m n) < snd (month_from y m n'))"
proof (induction y m n arbitrary: n' rule: month_from.induct)
  case (1 y m n)
  show ?case
  proof (cases "12 \<le> m \<or> n < days_in_month y m")
    case True
    show ?thesis
    proof (cases "12 \<le> m \<or> n' < days_in_month y m")
      case False
      then have "Suc m \<le> fst (month_from y m n')"
        using month_from_ge [of "Suc m" y "n' - days_in_month y m"] by (subst month_from.simps) simp
      then show ?thesis using True by (simp add: month_from.simps [of y m n])
    qed (use True 1(2) in \<open>simp add: month_from.simps [of y m n] month_from.simps [of y m n']\<close>)
  next
    case False
    then have "\<not> (12 \<le> m \<or> n' < days_in_month y m)"
      and "n - days_in_month y m < n' - days_in_month y m" using 1(2) by auto
    then show ?thesis
      using 1(1) [OF False, of "n' - days_in_month y m"] False
      by (simp add: month_from.simps [of y m n] month_from.simps [of y m n'])
  qed
qed

text \<open>Months and days stay within two digits: the remaining days of the year never exceed what the
  months from \<open>m\<close> on hold.\<close>

definition rest_of_year :: "nat \<Rightarrow> nat \<Rightarrow> nat" where
  "rest_of_year y m = sum_list (map (days_in_month y) [m..<13])"

lemma rest_of_year_1: "rest_of_year y (Suc 0) = days_in_year y"
  by (simp add: rest_of_year_def days_in_month_def days_in_year_def upt_rec)

lemma month_from_range:
  "month_from y m n = (m', d) \<Longrightarrow> 1 \<le> m \<Longrightarrow> m \<le> 12 \<Longrightarrow> n < rest_of_year y m
     \<Longrightarrow> m' \<le> 12 \<and> d < days_in_month y m'"
proof (induction y m n rule: month_from.induct)
  case (1 y m n)
  show ?case
  proof (cases "12 \<le> m \<or> n < days_in_month y m")
    case True
    then show ?thesis using 1(2-5) by (auto simp: month_from.simps [of y m n] rest_of_year_def upt_rec)
  next
    case False
    then have "n - days_in_month y m < rest_of_year y (Suc m)"
      using 1(5) False by (auto simp: rest_of_year_def upt_rec [of m 13])
    then show ?thesis using 1(1) [OF False] 1(2-4) False by (simp add: month_from.simps [of y m n])
  qed
qed

lemma days_in_month_le: "days_in_month y m \<le> 31"
  by (simp add: days_in_month_def)

lemma length_date_text [simp]: "length (date_text n) = 10"
  by (simp add: date_text_def split: prod.split)

lemma length_time_text [simp]: "length (time_text s) = 8"
  by (simp add: time_text_def)

lemma date_text_less:
  assumes "n < n'" and "fst (year_from 1 n') \<le> 9999"
  shows "date_text n < date_text n'"
proof -
  obtain y r where y: "year_from 1 n = (y, r)" by force
  obtain y' r' where y': "year_from 1 n' = (y', r')" by force
  obtain m d where m: "month_from y 1 r = (m, d)" by force
  obtain m' d' where m': "month_from y' 1 r' = (m', d')" by force
  have "m' \<le> 12 \<and> d' < days_in_month y' m'"
    using month_from_range [OF m'] year_from_range [OF y'] by (simp add: rest_of_year_1)
  then have b: "m' < 10 ^ 2" "d' + 1 < 10 ^ 2" using days_in_month_le [of y' m'] by auto
  have "y < y' \<or> (y = y' \<and> (m < m' \<or> (m = m' \<and> d < d')))"
    using year_from_mono [OF assms(1), of 1] month_from_mono [of r r' y 1] y y' m m' by auto
  then show ?thesis
    using pad_less [of y y' 4] pad_less [of m m' 2] pad_less [of "d + 1" "d' + 1" 2] assms(2) b
    by (auto simp: date_text_def y y' m m' less_append_iff simp del: One_nat_def)
qed

lemma time_text_less:
  assumes "s < s'" and "s' < 86400"
  shows "time_text s < time_text s'"
proof -
  have "s div 3600 < s' div 3600
     \<or> (s div 3600 = s' div 3600 \<and> s mod 3600 div 60 < s' mod 3600 div 60)
     \<or> (s div 3600 = s' div 3600 \<and> s mod 3600 div 60 = s' mod 3600 div 60 \<and> s mod 60 < s' mod 60)"
    using div_mod_lex [OF assms(1), of 3600] div_mod_lex [of "s mod 3600" "s' mod 3600" 60]
    by (auto simp: mod_mod_cancel)
  moreover have "s' div 3600 < 10 ^ 2" "s' mod 3600 div 60 < 10 ^ 2" "s' mod 60 < 10 ^ 2"
    using assms(2) by auto
  ultimately show ?thesis
    using pad_less [of "s div 3600" "s' div 3600" 2] pad_less [of "s mod 3600 div 60" "s' mod 3600 div 60" 2]
      pad_less [of "s mod 60" "s' mod 60" 2]
    by (elim disjE) (simp_all add: time_text_def less_append_iff)
qed

lemma fraction_text_less:
  assumes "us < us'" and "us' < 1000000"
  shows "fraction_text us < fraction_text us'"
proof (cases "us = 0")
  case False
  then show ?thesis using assms pad_less [of us us' 6] by (simp add: fraction_text_def less_append_iff)
qed (use assms in \<open>simp add: fraction_text_def less_char_def\<close>)

lemma isoformat_less:
  assumes "t < t'" and "instant_ok t" and "instant_ok t'"
  shows "isoformat t < isoformat t'"
proof -
  let ?n = "since_min t" and ?n' = "since_min t'"
  have n: "?n < ?n'" using assms by (auto simp: since_min_def instant_ok_def nat_less_eq_zless)
  let ?s = "?n div 1000000" and ?s' = "?n' div 1000000"
  have day: "fst (year_from 1 (?s' div 86400)) \<le> 9999"
    using assms(3) by (simp add: instant_ok_def div_mult2_eq [symmetric])
  consider "?s div 86400 < ?s' div 86400"
    | "?s div 86400 = ?s' div 86400" "?s mod 86400 < ?s' mod 86400"
    | "?s div 86400 = ?s' div 86400" "?s mod 86400 = ?s' mod 86400" "?n mod 1000000 < ?n' mod 1000000"
    using div_mod_lex [OF n, of 1000000] div_mod_lex [of ?s ?s' 86400] by fastforce
  then show ?thesis
  proof cases
    case 1
    then show ?thesis using date_text_less [OF 1 day] by (simp add: isoformat_def Let_def less_append_iff)
  next
    case 2
    then show ?thesis using time_text_less [OF 2(2)] by (simp add: isoformat_def Let_def less_append_iff)
  next
    case 3
    then show ?thesis using fraction_text_less [OF 3(3)] by (simp add: isoformat_def Let_def less_append_iff)
  qed
qed

lemma isoformat_less_iff:
  assumes "instant_ok t" and "instant_ok t'"
  shows "isoformat t < isoformat t' \<longleftrightarrow> t < t'"
  using isoformat_less [of t t'] isoformat_less [of t' t] assms by (metis linorder_neqE_linordered_idom order.asym)

section \<open>Properties\<close>

text \<open>C27. On the range of \<open>datetime\<close>, comparing two timestamps as text is comparing the instants: the strings
  the storage layer sorts by are ordered chronologically and are equal only for the same instant, whether
  or not they carry a fraction.\<close>

theorem isoformat_order:
  assumes "instant_ok t" and "instant_ok t'"
  shows "(isoformat t < isoformat t' \<longleftrightarrow> t < t') \<and> (isoformat t = isoformat t' \<longleftrightarrow> t = t')"
  using isoformat_less_iff [OF assms] isoformat_less_iff [OF assms(2,1)]
  by (metis linorder_neqE_linordered_idom order.irrefl)

theorem isoformat_order_witness:
  "isoformat (- 62135596800000000) < isoformat (- 62135596799999999)"
proof -
  have "instant_ok (- 62135596800000000)" "instant_ok (- 62135596799999999)"
    by (simp_all add: instant_ok_def since_min_def year_from.simps days_in_year_def is_leap_def)
  then show ?thesis using isoformat_order by simp
qed

end
