(* ===== verification/Manifest.thy ===== *)
theory Manifest
  imports Timestamps "HOL-Library.AList"
begin

text \<open>
  Artifact references and checkpoint manifests of \<^verbatim>\<open>crab/models.py\<close> with their schema and integrity checks.
  The SHA-256 digest over the canonical JSON text of a manifest is an argument, a function of the manifest
  with its integrity field left out.  An artifact path is the tuple of its directory components below the
  artifact root.
\<close>

datatype artifact_kind = PROCESS | FILESYSTEM | METADATA

type_synonym artifact_path = "sandbox_id \<times> checkpoint_id \<times> artifact_kind \<times> string"

record artifact_payload =
  pay_kind :: artifact_kind
  pay_name :: string
  pay_data :: string
  pay_metadata :: metadata

record artifact_reference =
  ref_kind :: artifact_kind
  ref_name :: string
  ref_relative_path :: artifact_path
  ref_size_bytes :: int
  ref_sha256 :: string
  ref_metadata :: metadata

record checkpoint_manifest =
  mf_schema_version :: string
  mf_checkpoint_id :: checkpoint_id
  mf_sandbox_id :: sandbox_id
  mf_created_at :: instant
  mf_runtime_name :: string
  mf_runtime_version :: "string option"
  mf_process_artifacts :: "artifact_reference list"
  mf_filesystem_artifacts :: "artifact_reference list"
  mf_metadata :: metadata
  mf_integrity :: "string \<rightharpoonup> string"
  mf_parent_checkpoint_id :: "checkpoint_id option"
  mf_process_kind :: string

definition manifest_schema_version :: string where
  "manifest_schema_version = ''v1''"

definition validate_schema :: "checkpoint_manifest \<Rightarrow> unit res" where
  "validate_schema m =
     (if mf_schema_version m \<noteq> manifest_schema_version then Inl ValueError else Inr ())"

definition compute_manifest_hash :: "(checkpoint_manifest \<Rightarrow> string) \<Rightarrow> checkpoint_manifest \<Rightarrow> string" where
  "compute_manifest_hash digest m = digest (m\<lparr>mf_integrity := Map.empty\<rparr>)"

definition with_integrity :: "(checkpoint_manifest \<Rightarrow> string) \<Rightarrow> checkpoint_manifest \<Rightarrow> checkpoint_manifest" where
  "with_integrity digest m =
     m\<lparr>mf_integrity := Map.empty(''manifest_sha256'' \<mapsto> compute_manifest_hash digest m)\<rparr>"

definition validate_integrity :: "(checkpoint_manifest \<Rightarrow> string) \<Rightarrow> checkpoint_manifest \<Rightarrow> unit res" where
  "validate_integrity digest m =
     (case mf_integrity m ''manifest_sha256'' of
        None \<Rightarrow> Inl ValueError
      | Some expected \<Rightarrow>
          if expected = [] then Inl ValueError
          else if expected \<noteq> compute_manifest_hash digest m then Inl ValueError
          else Inr ())"

definition validate_manifest :: "(checkpoint_manifest \<Rightarrow> string) \<Rightarrow> checkpoint_manifest \<Rightarrow> unit res" where
  "validate_manifest digest m =
     (case validate_schema m of Inl e \<Rightarrow> Inl e | Inr _ \<Rightarrow> validate_integrity digest m)"

lemma with_integrity_simps [simp]:
  "mf_schema_version (with_integrity digest m) = mf_schema_version m"
  "mf_checkpoint_id (with_integrity digest m) = mf_checkpoint_id m"
  "mf_sandbox_id (with_integrity digest m) = mf_sandbox_id m"
  "mf_created_at (with_integrity digest m) = mf_created_at m"
  "mf_process_artifacts (with_integrity digest m) = mf_process_artifacts m"
  "mf_filesystem_artifacts (with_integrity digest m) = mf_filesystem_artifacts m"
  "mf_metadata (with_integrity digest m) = mf_metadata m"
  "mf_parent_checkpoint_id (with_integrity digest m) = mf_parent_checkpoint_id m"
  "mf_process_kind (with_integrity digest m) = mf_process_kind m"
  by (simp_all add: with_integrity_def)

lemma hash_with_integrity [simp]:
  "compute_manifest_hash digest (with_integrity digest m) = compute_manifest_hash digest m"
  by (simp add: with_integrity_def compute_manifest_hash_def)

lemma validate_with_integrity:
  "digest (m\<lparr>mf_integrity := Map.empty\<rparr>) \<noteq> [] \<Longrightarrow> mf_schema_version m = ''v1''
     \<Longrightarrow> validate_manifest digest (with_integrity digest m) = Inr ()"
  by (simp add: validate_manifest_def validate_schema_def validate_integrity_def manifest_schema_version_def)
    (simp add: with_integrity_def compute_manifest_hash_def)

end
