(* ===== verification/Storage.thy ===== *)
theory Storage
  imports Manifest "HOL-Library.Sublist"
begin

text \<open>
  \<open>LocalCheckpointManager\<close> of \<^verbatim>\<open>crab/storage/local.py\<close>.  The store is the content of the storage root: manifest
  files by sandbox and checkpoint id and artifact files or symbolic links by path, in directory order, plus
  the runtime's image directories and the filesystem references handed to the destroy hook, which deletion
  touches.  A manifest file holds the manifest its JSON text decodes to, or unreadable text.  Digests, the
  JSON reader and the two optional runtime hooks are arguments, as in the constructor.
\<close>

section \<open>The store\<close>

datatype manifest_file = Unreadable | Readable checkpoint_manifest

datatype artifact_node = Bytes string | SymLink artifact_path

datatype runtime_node = RuntimeDir | RuntimeLink

record store =
  man_files :: "((sandbox_id \<times> checkpoint_id) \<times> manifest_file) list"
  art_files :: "(artifact_path \<times> artifact_node) list"
  rt_paths :: "(string \<times> runtime_node) list"
  fs_destroyed :: "string list"

record storage_env =
  manifest_digest :: "checkpoint_manifest \<Rightarrow> string"
  bytes_digest :: "string \<Rightarrow> string"
  json_loads :: "string \<Rightarrow> pyval res"
  image_path_in_use :: "(string \<Rightarrow> bool res) option"
  destroy_filesystem_ref :: "(string \<Rightarrow> unit res) option"

definition empty_store :: store where
  "empty_store = \<lparr>man_files = [], art_files = [], rt_paths = [], fs_destroyed = []\<rparr>"

definition safe_name :: "string \<Rightarrow> string res" where
  "safe_name v = (if v = [] then Inl ValueError
                  else Inr (map (\<lambda>c. if c = CHR ''/'' then CHR ''_'' else c) v))"

section \<open>Manifests\<close>

definition put_manifest :: "storage_env \<Rightarrow> checkpoint_manifest \<Rightarrow> store \<Rightarrow> store res" where
  "put_manifest env m st =
     (case validate_manifest (manifest_digest env) m of
        Inl e \<Rightarrow> Inl e
      | Inr _ \<Rightarrow> Inr (st\<lparr>man_files :=
          AList.update (mf_sandbox_id m, mf_checkpoint_id m) (Readable m) (man_files st)\<rparr>))"

definition get_manifest :: "storage_env \<Rightarrow> store \<Rightarrow> sandbox_id \<Rightarrow> checkpoint_id \<Rightarrow> checkpoint_manifest res" where
  "get_manifest env st sid cid =
     (case map_of (man_files st) (sid, cid) of
        None \<Rightarrow> Inl FileNotFoundError
      | Some Unreadable \<Rightarrow> Inl ValueError
      | Some (Readable m) \<Rightarrow>
          (case validate_manifest (manifest_digest env) m of Inl e \<Rightarrow> Inl e | Inr _ \<Rightarrow> Inr m))"

text \<open>The readable manifest files of a sandbox in directory order; unreadable ones are skipped.\<close>

fun readable :: "sandbox_id \<Rightarrow> ((sandbox_id \<times> checkpoint_id) \<times> manifest_file) list \<Rightarrow> checkpoint_manifest list" where
  "readable sid [] = []"
| "readable sid (((s, c), f) # fs) =
     (case f of
        Unreadable \<Rightarrow> readable sid fs
      | Readable m \<Rightarrow> if s = sid then m # readable sid fs else readable sid fs)"

definition list_checkpoints :: "store \<Rightarrow> sandbox_id \<Rightarrow> checkpoint_id list" where
  "list_checkpoints st sid =
     map mf_checkpoint_id (sort_key (\<lambda>m. isoformat (mf_created_at m)) (readable sid (man_files st)))"

section \<open>Artifacts\<close>

definition put_artifact ::
  "storage_env \<Rightarrow> sandbox_id \<Rightarrow> checkpoint_id \<Rightarrow> artifact_payload \<Rightarrow> store \<Rightarrow> (artifact_reference \<times> store) res" where
  "put_artifact env sid cid a st =
     (case safe_name (pay_name a) of
        Inl e \<Rightarrow> Inl e
      | Inr fname \<Rightarrow>
          let path = (sid, cid, pay_kind a, fname) in
          Inr (\<lparr>ref_kind = pay_kind a, ref_name = pay_name a, ref_relative_path = path,
                ref_size_bytes = int (length (pay_data a)), ref_sha256 = bytes_digest env (pay_data a),
                ref_metadata = pay_metadata a\<rparr>,
               st\<lparr>art_files := AList.update path (Bytes (pay_data a)) (art_files st)\<rparr>))"

text \<open>Reading through symbolic links; a chain longer than the number of files is a loop.\<close>

fun follow :: "nat \<Rightarrow> (artifact_path \<times> artifact_node) list \<Rightarrow> artifact_path \<Rightarrow> string option" where
  "follow fuel fs p =
     (case map_of fs p of
        None \<Rightarrow> None
      | Some (Bytes b) \<Rightarrow> Some b
      | Some (SymLink q) \<Rightarrow> (case fuel of 0 \<Rightarrow> None | Suc n \<Rightarrow> follow n fs q))"

declare follow.simps [simp del]

definition read_path :: "(artifact_path \<times> artifact_node) list \<Rightarrow> artifact_path \<Rightarrow> string option" where
  "read_path fs p = follow (length fs) fs p"

definition get_artifact :: "storage_env \<Rightarrow> store \<Rightarrow> artifact_reference \<Rightarrow> string res" where
  "get_artifact env st r =
     (case read_path (art_files st) (ref_relative_path r) of
        None \<Rightarrow> Inl FileNotFoundError
      | Some payload \<Rightarrow>
          if bytes_digest env payload \<noteq> ref_sha256 r then Inl ValueError
          else if int (length payload) \<noteq> ref_size_bytes r then Inl ValueError
          else Inr payload)"

definition link_ancestor_artifact ::
  "sandbox_id \<Rightarrow> checkpoint_id \<Rightarrow> artifact_reference \<Rightarrow> store \<Rightarrow> (artifact_reference \<times> store) res" where
  "link_ancestor_artifact target cid r st =
     (case read_path (art_files st) (ref_relative_path r) of
        None \<Rightarrow> Inl FileNotFoundError
      | Some _ \<Rightarrow>
          (case safe_name (ref_name r) of
             Inl e \<Rightarrow> Inl e
           | Inr fname \<Rightarrow>
               let path = (target, cid, ref_kind r, fname) in
               Inr (r\<lparr>ref_relative_path := path\<rparr>,
                    st\<lparr>art_files := AList.update path (SymLink (ref_relative_path r))
                         (AList.delete path (art_files st))\<rparr>)))"

definition is_linked_artifact :: "store \<Rightarrow> artifact_reference \<Rightarrow> bool" where
  "is_linked_artifact st r =
     (case map_of (art_files st) (ref_relative_path r) of Some (SymLink _) \<Rightarrow> True | _ \<Rightarrow> False)"

text \<open>\<open>materialize_linked_artifacts\<close>: one link after the other, each read through the tree as it is then.\<close>

fun materialize_paths ::
  "artifact_path list \<Rightarrow> (artifact_path \<times> artifact_node) list \<Rightarrow> int
     \<Rightarrow> int \<times> (artifact_path \<times> artifact_node) list" where
  "materialize_paths [] fs n = (n, fs)"
| "materialize_paths (p # ps) fs n =
     (case map_of fs p of
        Some (SymLink _) \<Rightarrow>
          (case read_path fs p of
             None \<Rightarrow> materialize_paths ps fs n
           | Some b \<Rightarrow> materialize_paths ps (AList.update p (Bytes b) fs) (n + 1))
      | _ \<Rightarrow> materialize_paths ps fs n)"

definition paths_of :: "sandbox_id \<Rightarrow> (artifact_path \<times> artifact_node) list \<Rightarrow> artifact_path list" where
  "paths_of sid fs = filter (\<lambda>p. fst p = sid) (map fst fs)"

definition materialize_linked_artifacts :: "sandbox_id \<Rightarrow> store \<Rightarrow> int \<times> store" where
  "materialize_linked_artifacts sid st =
     (case materialize_paths (paths_of sid (art_files st)) (art_files st) 0 of
        (n, fs) \<Rightarrow> (n, st\<lparr>art_files := fs\<rparr>))"

section \<open>Dependencies between checkpoints\<close>

text \<open>What a manifest needs to stay restorable: its incremental parent and the explicit restore sources
  of a logical checkpoint other than itself.\<close>

definition source_keys :: "string list" where
  "source_keys = [''process_restore_checkpoint_id'', ''filesystem_restore_checkpoint_id'']"

definition restore_sources :: "checkpoint_manifest \<Rightarrow> checkpoint_id list" where
  "restore_sources m =
     filter (\<lambda>d. d \<noteq> mf_checkpoint_id m)
       (List.map_filter (\<lambda>k. map_option pystr (meta_get (mf_metadata m) k)) source_keys)"

definition dependencies :: "checkpoint_manifest \<Rightarrow> checkpoint_id list" where
  "dependencies m =
     (case mf_parent_checkpoint_id m of None \<Rightarrow> [] | Some p \<Rightarrow> [p]) @ restore_sources m"

text \<open>The breadth-first search of \<open>descendants\<close>: the children of the frontier that are new and are not
  the target, until there are none.\<close>

definition bfs_next ::
  "checkpoint_manifest list \<Rightarrow> checkpoint_id \<Rightarrow> checkpoint_id list \<Rightarrow> checkpoint_id list \<Rightarrow> checkpoint_id list" where
  "bfs_next ms target frontier found =
     remdups (map mf_checkpoint_id
       (filter (\<lambda>m. list_ex (\<lambda>d. d \<in> set frontier) (dependencies m)
                  \<and> mf_checkpoint_id m \<notin> set found \<and> mf_checkpoint_id m \<noteq> target) ms))"

function bfs ::
  "checkpoint_manifest list \<Rightarrow> checkpoint_id \<Rightarrow> checkpoint_id list \<Rightarrow> checkpoint_id list \<Rightarrow> checkpoint_id list" where
  "bfs ms target frontier found =
     (if frontier = [] then found
      else let next = bfs_next ms target frontier found in bfs ms target next (found @ next))"
  by auto
termination
proof (relation "inv_image (less_than <*lex*> less_than)
    (\<lambda>(ms, target, frontier, found). (card (set (map mf_checkpoint_id ms) - set found), length frontier))", goal_cases)
  case 1
  show ?case by (intro wf_inv_image wf_lex_prod wf_less_than)
next
  case (2 ms target frontier found nx)
  show ?case
  proof (cases "nx = []")
    case True
    then show ?thesis using 2 by simp
  next
    case False
    then obtain c where "c \<in> set nx" by (cases nx) auto
    moreover have "set nx \<subseteq> set (map mf_checkpoint_id ms)" "c \<notin> set found"
      using 2(2) \<open>c \<in> set nx\<close> by (auto simp: bfs_next_def)
    ultimately have "set (map mf_checkpoint_id ms) - set (found @ nx) \<subset> set (map mf_checkpoint_id ms) - set found"
      by auto
    then show ?thesis by (simp add: psubset_card_mono)
  qed
qed

declare bfs.simps [simp del]

definition created_order :: "checkpoint_manifest list \<Rightarrow> checkpoint_id \<Rightarrow> string" where
  "created_order ms c =
     (case map_of (rev (map (\<lambda>m. (mf_checkpoint_id m, isoformat (mf_created_at m))) ms)) c of
        None \<Rightarrow> [] | Some s \<Rightarrow> s)"

definition descendants :: "store \<Rightarrow> sandbox_id \<Rightarrow> checkpoint_id \<Rightarrow> checkpoint_id list" where
  "descendants st sid cid =
     (let ms = readable sid (man_files st) in
      rev (sort_key (created_order ms) (rev (bfs ms cid [cid] []))))"

section \<open>Deletion\<close>

text \<open>\<open>Path(p).parent\<close> on a path without a trailing slash.\<close>

definition path_parent :: "string \<Rightarrow> string" where
  "path_parent p =
     (let r = dropWhile (\<lambda>c. c \<noteq> CHR ''/'') (rev p) in
      if r = [] then ''.'' else (let q = rev (dropWhile (\<lambda>c. c = CHR ''/'') r) in if q = [] then ''/'' else q))"

definition below :: "string \<Rightarrow> string \<Rightarrow> bool" where
  "below p q = (q = p \<or> prefix (p @ ''/'') q)"

definition remove_runtime_dir :: "storage_env \<Rightarrow> string \<Rightarrow> store \<Rightarrow> store" where
  "remove_runtime_dir env p st =
     (case map_of (rt_paths st) p of
        Some RuntimeLink \<Rightarrow> st\<lparr>rt_paths := AList.delete p (rt_paths st)\<rparr>
      | None \<Rightarrow> st
      | Some RuntimeDir \<Rightarrow>
          if (case image_path_in_use env of
                None \<Rightarrow> False
              | Some check \<Rightarrow> (case check p of Inl _ \<Rightarrow> False | Inr b \<Rightarrow> b))
          then st
          else st\<lparr>rt_paths := filter (\<lambda>(q, _). \<not> below p q) (rt_paths st)\<rparr>)"

text \<open>\<open>d.get(k)\<close> on a decoded JSON object, and \<open>a or b\<close> on two such values.\<close>

definition dict_get :: "pyval \<Rightarrow> string \<Rightarrow> pyval" where
  "dict_get v k = (case v of PDict d \<Rightarrow> (case map_of d k of None \<Rightarrow> PNone | Some x \<Rightarrow> x) | _ \<Rightarrow> PNone)"

definition is_dict :: "pyval \<Rightarrow> bool" where
  "is_dict v = (case v of PDict _ \<Rightarrow> True | _ \<Rightarrow> False)"

definition py_or :: "pyval \<Rightarrow> pyval \<Rightarrow> pyval" where
  "py_or a b = (if py_truthy a then a else b)"

definition delete_process_runtime_paths :: "storage_env \<Rightarrow> pyval \<Rightarrow> store \<Rightarrow> store" where
  "delete_process_runtime_paths env payload st =
     (let loc = dict_get payload ''process_checkpoint_location'';
          st1 = (if py_truthy loc then remove_runtime_dir env (path_parent (pystr loc)) st else st);
          image = dict_get (dict_get (dict_get payload ''status'') ''metadata'') ''image_path''
      in if py_truthy image then remove_runtime_dir env (path_parent (pystr image)) st1 else st1)"

definition delete_filesystem_runtime_paths :: "storage_env \<Rightarrow> pyval \<Rightarrow> store \<Rightarrow> store" where
  "delete_filesystem_runtime_paths env payload st =
     (let fs = dict_get payload ''filesystem'';
          r1 = py_or (dict_get fs ''fs_ref'') (dict_get fs ''snapshot'');
          md = dict_get (dict_get payload ''status'') ''metadata'';
          r2 = py_or (dict_get md ''fs_ref'') (dict_get md ''snapshot'');
          r = (if r1 = PNone then r2 else r1)
      in if r = PNone then st
         else case destroy_filesystem_ref env of
                None \<Rightarrow> st
              | Some destroy \<Rightarrow> st\<lparr>fs_destroyed := fs_destroyed st @ [pystr r]\<rparr>)"

definition load_artifact_payload :: "storage_env \<Rightarrow> store \<Rightarrow> artifact_reference \<Rightarrow> pyval option res" where
  "load_artifact_payload env st r =
     (case get_artifact env st r of
        Inl FileNotFoundError \<Rightarrow> Inr None
      | Inl e \<Rightarrow> Inl e
      | Inr raw \<Rightarrow>
          (case json_loads env raw of
             Inl _ \<Rightarrow> Inr None
           | Inr v \<Rightarrow> Inr (if is_dict v then Some v else None)))"

fun delete_runtime_references :: "storage_env \<Rightarrow> artifact_reference list \<Rightarrow> (store, unit) act" where
  "delete_runtime_references env [] = act_return ()"
| "delete_runtime_references env (r # rs) =
     act_bind (act_read (\<lambda>st. load_artifact_payload env st r)) (\<lambda>payload.
       case payload of
         None \<Rightarrow> delete_runtime_references env rs
       | Some v \<Rightarrow>
           act_bind
             (case ref_kind r of
                PROCESS \<Rightarrow> act_update (\<lambda>st. Inr (delete_process_runtime_paths env v st))
              | FILESYSTEM \<Rightarrow> act_update (\<lambda>st. Inr (delete_filesystem_runtime_paths env v st))
              | METADATA \<Rightarrow> act_return ())
             (\<lambda>_. delete_runtime_references env rs))"

definition has_manifest :: "store \<Rightarrow> sandbox_id \<Rightarrow> checkpoint_id \<Rightarrow> bool" where
  "has_manifest st sid cid = (map_of (man_files st) (sid, cid) \<noteq> None)"

text \<open>\<open>manifest = self.get_manifest(...)\<close> when the file exists, else \<open>None\<close>.\<close>

definition manifest_if_exists :: "storage_env \<Rightarrow> sandbox_id \<Rightarrow> checkpoint_id \<Rightarrow> (store, checkpoint_manifest option) act" where
  "manifest_if_exists env sid cid =
     act_read (\<lambda>st. if has_manifest st sid cid
                     then (case get_manifest env st sid cid of Inl e \<Rightarrow> Inl e | Inr m \<Rightarrow> Inr (Some m))
                     else Inr None)"

text \<open>The part of \<open>delete_checkpoint\<close> after the descendants are settled.\<close>

definition erase_checkpoint ::
  "storage_env \<Rightarrow> sandbox_id \<Rightarrow> checkpoint_id \<Rightarrow> checkpoint_manifest option \<Rightarrow> (store, unit) act" where
  "erase_checkpoint env sid cid manifest =
     act_bind
       (case manifest of
          None \<Rightarrow> act_return ()
        | Some m \<Rightarrow> delete_runtime_references env (mf_process_artifacts m @ mf_filesystem_artifacts m))
       (\<lambda>_. act_update (\<lambda>st. Inr (st\<lparr>
          art_files := filter (\<lambda>((s, c, _), _). \<not> (s = sid \<and> c = cid)) (art_files st),
          man_files := AList.delete (sid, cid) (man_files st)\<rparr>)))"

definition delete_leaf :: "storage_env \<Rightarrow> sandbox_id \<Rightarrow> checkpoint_id \<Rightarrow> (store, unit) act" where
  "delete_leaf env sid cid =
     act_bind (manifest_if_exists env sid cid) (\<lambda>manifest.
     act_bind (act_read (\<lambda>st. Inr (descendants st sid cid))) (\<lambda>ds.
       if ds \<noteq> [] then act_raise RuntimeError else erase_checkpoint env sid cid manifest))"

fun delete_each :: "storage_env \<Rightarrow> sandbox_id \<Rightarrow> checkpoint_id list \<Rightarrow> (store, unit) act" where
  "delete_each env sid [] = act_return ()"
| "delete_each env sid (c # cs) = act_bind (delete_leaf env sid c) (\<lambda>_. delete_each env sid cs)"

definition delete_checkpoint :: "storage_env \<Rightarrow> sandbox_id \<Rightarrow> checkpoint_id \<Rightarrow> bool \<Rightarrow> (store, unit) act" where
  "delete_checkpoint env sid cid cascade =
     act_bind (manifest_if_exists env sid cid) (\<lambda>manifest.
     act_bind (act_read (\<lambda>st. Inr (descendants st sid cid))) (\<lambda>ds.
       if ds \<noteq> [] \<and> \<not> cascade then act_raise RuntimeError
       else act_bind (delete_each env sid ds) (\<lambda>_. erase_checkpoint env sid cid manifest)))"

definition delete_all_checkpoints :: "storage_env \<Rightarrow> sandbox_id \<Rightarrow> (store, unit) act" where
  "delete_all_checkpoints env sid =
     act_bind (act_read (\<lambda>st. Inr (rev (list_checkpoints st sid)))) (delete_each env sid)"

end
