(* ===== verification/Storage_Deletion.thy ===== *)
theory Storage_Deletion
  imports Storage
begin

text \<open>
  Dependencies between the checkpoints of a store and what deletion does to them: the breadth-first search
  of \<open>descendants\<close> against transitive reachability, the invariant that every stored manifest has all of its
  dependencies, and the orders in which deletion is never refused.
\<close>

section \<open>Well-formed stores\<close>

text \<open>Every manifest file lies under the ids it carries and no path occurs twice.\<close>

definition store_wf :: "store \<Rightarrow> bool" where
  "store_wf st =
     (distinct (map fst (man_files st))
      \<and> (\<forall>s c m. ((s, c), Readable m) \<in> set (man_files st) \<longrightarrow> mf_sandbox_id m = s \<and> mf_checkpoint_id m = c))"

abbreviation manifests_of :: "store \<Rightarrow> sandbox_id \<Rightarrow> checkpoint_manifest list" where
  "manifests_of st sid \<equiv> readable sid (man_files st)"

definition deps_closed :: "store \<Rightarrow> sandbox_id \<Rightarrow> bool" where
  "deps_closed st sid =
     (\<forall>m \<in> set (manifests_of st sid). \<forall>d \<in> set (dependencies m). has_manifest st sid d)"

definition depends :: "checkpoint_manifest list \<Rightarrow> (checkpoint_id \<times> checkpoint_id) set" where
  "depends ms = {(c, p). \<exists>m \<in> set ms. mf_checkpoint_id m = c \<and> p \<in> set (dependencies m)}"

lemma set_readable: "set (readable sid fs) = {m. \<exists>c. ((sid, c), Readable m) \<in> set fs}"
  by (induction sid fs rule: readable.induct) (auto split: manifest_file.splits)

lemma readable_delete:
  "readable sid (AList.delete (sid, c) fs)
     = readable sid (filter (\<lambda>(k, _). k \<noteq> (sid, c)) fs)"
  unfolding AList.delete_eq by (rule arg_cong [where f = "readable sid"], rule filter_cong) auto

lemma readable_filter_ids:
  assumes "\<And>s c m. ((s, c), Readable m) \<in> set fs \<Longrightarrow> mf_checkpoint_id m = c"
  shows "readable sid (filter (\<lambda>(k, _). k \<noteq> (sid, c)) fs) = filter (\<lambda>m. mf_checkpoint_id m \<noteq> c) (readable sid fs)"
  using assms
proof (induction sid fs rule: readable.induct)
  case (2 sid s d f fs)
  have IH: "readable sid (filter (\<lambda>(k, _). k \<noteq> (sid, c)) fs)
      = filter (\<lambda>m. mf_checkpoint_id m \<noteq> c) (readable sid fs)"
    by (cases f; cases "s = sid") (rule 2; use 2(4) in auto)+
  show ?case
    using IH 2(4) [of s d] by (cases f) auto
qed simp

lemma manifests_after_erase:
  assumes "store_wf st"
  shows "readable sid (AList.delete (sid, c) (man_files st))
     = filter (\<lambda>m. mf_checkpoint_id m \<noteq> c) (manifests_of st sid)"
  unfolding readable_delete by (rule readable_filter_ids) (use assms in \<open>simp add: store_wf_def\<close>)

lemma readable_other_sandbox:
  "sid' \<noteq> sid \<Longrightarrow> readable sid' (AList.delete (sid, c) fs) = readable sid' fs"
proof (induction sid' fs rule: readable.induct)
  case (2 sid' s d f fs)
  then show ?case by (cases f) auto
qed simp

lemma manifest_ids_distinct:
  assumes "store_wf st"
  shows "distinct (map mf_checkpoint_id (manifests_of st sid))"
proof -
  have "distinct (map mf_checkpoint_id (readable sid fs))"
    if "distinct (map fst fs)" and "\<And>s c m. ((s, c), Readable m) \<in> set fs \<Longrightarrow> mf_checkpoint_id m = c" for fs
    using that
  proof (induction sid fs rule: readable.induct)
    case (2 sid s d f fs)
    have IH: "distinct (map mf_checkpoint_id (readable sid fs))"
      by (cases f; cases "s = sid") (rule 2; use 2(4-5) in auto)+
    show ?case
    proof (cases f)
      case (Readable m)
      have "mf_checkpoint_id m \<notin> mf_checkpoint_id ` set (readable sid fs)" if "s = sid"
      proof
        assume "mf_checkpoint_id m \<in> mf_checkpoint_id ` set (readable sid fs)"
        then obtain m' c where "((sid, c), Readable m') \<in> set fs" "mf_checkpoint_id m = mf_checkpoint_id m'"
          by (auto simp: set_readable)
        then have "(s, d) \<in> fst ` set fs" using 2(5) [of s d m] 2(5) [of sid c m'] that Readable by force
        then show False using 2(4) by simp
      qed
      then show ?thesis using IH Readable by auto
    qed (use IH in simp)
  qed simp
  then show ?thesis using assms unfolding store_wf_def by blast
qed

lemma has_manifest_of:
  assumes "store_wf st" and "m \<in> set (manifests_of st sid)"
  shows "has_manifest st sid (mf_checkpoint_id m)"
proof -
  obtain c where c: "((sid, c), Readable m) \<in> set (man_files st)" using assms(2) by (auto simp: set_readable)
  then have "mf_checkpoint_id m = c" using assms(1) by (simp add: store_wf_def)
  then show ?thesis using c by (force simp: has_manifest_def map_of_eq_None_iff)
qed

section \<open>Descendants\<close>

lemma set_bfs_next:
  "set (bfs_next ms t frontier found) =
     {c. \<exists>p \<in> set frontier. (c, p) \<in> depends ms \<and> c \<notin> set found \<and> c \<noteq> t}"
  by (auto simp: bfs_next_def depends_def list_ex_iff)

lemma bfs_sound:
  assumes "c \<in> set (bfs ms t frontier found)"
    and "\<forall>f \<in> set frontier. f = t \<or> (f, t) \<in> (depends ms)\<^sup>+"
    and "\<forall>f \<in> set found. f \<noteq> t \<and> (f, t) \<in> (depends ms)\<^sup>+"
  shows "c \<noteq> t \<and> (c, t) \<in> (depends ms)\<^sup>+"
  using assms
proof (induction ms t frontier found rule: bfs.induct)
  case (1 ms t frontier found)
  show ?case
  proof (cases "frontier = []")
    case True
    then show ?thesis using 1(2,4) by (simp add: bfs.simps)
  next
    case False
    let ?next = "bfs_next ms t frontier found"
    have new: "f \<noteq> t \<and> (f, t) \<in> (depends ms)\<^sup>+" if "f \<in> set ?next" for f
      using that 1(3) by (auto simp: set_bfs_next intro: trancl_into_trancl2)
    have "c \<in> set (bfs ms t ?next (found @ ?next))"
      using 1(2) False by (simp add: bfs.simps [of ms t frontier] Let_def)
    then show ?thesis using 1(1) [OF False refl] new 1(4) by auto
  qed
qed

lemma bfs_closed:
  assumes "\<forall>(c, p) \<in> depends ms. p \<in> insert t (set found) - set frontier \<longrightarrow> c = t \<or> c \<in> set found"
    and "set frontier \<subseteq> insert t (set found)"
  shows "set found \<subseteq> set (bfs ms t frontier found)
    \<and> (\<forall>(c, p) \<in> depends ms. p \<in> insert t (set (bfs ms t frontier found))
          \<longrightarrow> c = t \<or> c \<in> set (bfs ms t frontier found))"
  using assms
proof (induction ms t frontier found rule: bfs.induct)
  case (1 ms t frontier found)
  show ?case
  proof (cases "frontier = []")
    case True
    then show ?thesis using 1(2) by (simp add: bfs.simps)
  next
    case False
    let ?next = "bfs_next ms t frontier found"
    have eq: "bfs ms t frontier found = bfs ms t ?next (found @ ?next)"
      using False by (simp add: bfs.simps [of ms t frontier] Let_def)
    have "\<forall>(c, p) \<in> depends ms. p \<in> insert t (set (found @ ?next)) - set ?next
        \<longrightarrow> c = t \<or> c \<in> set (found @ ?next)"
      using 1(2) by (auto simp: set_bfs_next)
    then show ?thesis
      unfolding eq using 1(1) [OF False refl] by auto
  qed
qed

lemma set_bfs: "set (bfs ms t [t] []) = {c. c \<noteq> t \<and> (c, t) \<in> (depends ms)\<^sup>+}"
proof (intro equalityI subsetI CollectI)
  fix c
  assume "c \<in> set (bfs ms t [t] [])"
  then show "c \<noteq> t \<and> (c, t) \<in> (depends ms)\<^sup>+" by (rule bfs_sound) auto
next
  fix c
  assume c: "c \<in> {c. c \<noteq> t \<and> (c, t) \<in> (depends ms)\<^sup>+}"
  have closed: "\<And>c p. (c, p) \<in> depends ms \<Longrightarrow> p = t \<or> p \<in> set (bfs ms t [t] [])
      \<Longrightarrow> c = t \<or> c \<in> set (bfs ms t [t] [])"
    using bfs_closed [of ms t "[]" "[t]"] by auto
  have "(c, t) \<in> (depends ms)\<^sup>+ \<Longrightarrow> c = t \<or> c \<in> set (bfs ms t [t] [])"
  proof (induction c rule: converse_trancl_induct)
    case (base y)
    then show ?case using closed by blast
  next
    case (step y z)
    then show ?case using closed by blast
  qed
  then show "c \<in> set (bfs ms t [t] [])" using c by auto
qed

lemma set_descendants:
  "set (descendants st sid cid) = {c. c \<noteq> cid \<and> (c, cid) \<in> (depends (manifests_of st sid))\<^sup>+}"
  by (simp add: descendants_def Let_def set_bfs)

lemma no_descendants:
  assumes "descendants st sid cid = []" and "m \<in> set (manifests_of st sid)" and "cid \<in> set (dependencies m)"
  shows "mf_checkpoint_id m = cid"
  using assms set_descendants [of st sid cid] unfolding depends_def by fastforce

section \<open>Deletion keeps dependencies\<close>

lemma man_files_runtime [simp]:
  "man_files (remove_runtime_dir env p st) = man_files st"
  "man_files (delete_process_runtime_paths env v st) = man_files st"
  "man_files (delete_filesystem_runtime_paths env v st) = man_files st"
proof -
  show r: "man_files (remove_runtime_dir env p st) = man_files st" for p st
    by (simp add: remove_runtime_dir_def split: option.split runtime_node.split)
  show "man_files (delete_process_runtime_paths env v st) = man_files st"
    by (simp add: delete_process_runtime_paths_def Let_def r)
  show "man_files (delete_filesystem_runtime_paths env v st) = man_files st"
    by (simp add: delete_filesystem_runtime_paths_def Let_def split: option.split)
qed

lemma delete_references_keeps [act_keeps_intros]:
  "act_keeps man_files (delete_runtime_references env rs)"
proof (induction rs)
  case (Cons r rs)
  have "act_keeps man_files (act_update (\<lambda>st. Inr (delete_process_runtime_paths env v st)))"
    "act_keeps man_files (act_update (\<lambda>st. Inr (delete_filesystem_runtime_paths env v st)))" for v
    by (simp_all add: act_keeps_def act_update_def)
  then show ?case
    using Cons by (auto intro!: act_keeps_intros split: option.split artifact_kind.split)
qed (simp add: act_keeps_intros)

lemma manifest_if_exists_keeps [act_keeps_intros]: "act_keeps f (manifest_if_exists env sid cid)"
  unfolding manifest_if_exists_def by (intro act_keeps_intros)

lemma erase_effect:
  assumes "erase_checkpoint env sid cid mo st = (r, st')"
  shows "man_files st' = (if r = Inr () then AList.delete (sid, cid) (man_files st) else man_files st)"
proof -
  let ?m = "case mo of None \<Rightarrow> act_return ()
    | Some m \<Rightarrow> delete_runtime_references env (mf_process_artifacts m @ mf_filesystem_artifacts m)"
  have k: "act_keeps man_files ?m" by (auto intro: act_keeps_intros split: option.split)
  obtain r1 st1 where "?m st = (r1, st1)" by force
  then show ?thesis
    using assms act_keepsD [OF k, of st r1 st1]
    by (cases r1) (auto simp: erase_checkpoint_def act_bind_def act_update_def)
qed

lemma wf_erase: "store_wf st \<Longrightarrow> man_files st' = AList.delete (sid, cid) (man_files st) \<Longrightarrow> store_wf st'"
  by (simp add: store_wf_def AList.delete_eq distinct_map_filter case_prod_unfold) blast

lemma has_manifest_erase:
  "man_files st' = AList.delete (sid, cid) (man_files st) \<Longrightarrow>
     has_manifest st' s c \<longleftrightarrow> has_manifest st s c \<and> (s, c) \<noteq> (sid, cid)"
  by (auto simp: has_manifest_def delete_conv')

lemma load_payload_error: "load_artifact_payload env st r = Inl e \<Longrightarrow> e = ValueError"
  by (auto simp: load_artifact_payload_def get_artifact_def split: sum.splits option.splits if_splits py_error.splits)

lemma delete_references_error:
  "delete_runtime_references env rs st = (Inl e, st') \<Longrightarrow> e = ValueError"
proof (induction rs arbitrary: st)
  case (Cons r rs)
  then show ?case
    by (auto simp: act_bind_def act_update_def dest: load_payload_error
        split: option.splits artifact_kind.splits prod.splits sum.splits)
qed simp

lemma get_manifest_error:
  "get_manifest env st sid cid = Inl e \<Longrightarrow> e = FileNotFoundError \<or> e = ValueError"
  by (auto simp: get_manifest_def validate_manifest_def validate_schema_def validate_integrity_def
      split: option.splits manifest_file.splits sum.splits if_splits)

lemma manifest_if_exists_error:
  "manifest_if_exists env sid cid st = (Inl e, st') \<Longrightarrow> e = FileNotFoundError \<or> e = ValueError"
  by (auto simp: manifest_if_exists_def dest: get_manifest_error split: if_splits sum.splits)

lemma erase_error:
  "erase_checkpoint env sid cid mo st = (Inl e, st') \<Longrightarrow> e = ValueError"
  by (auto simp: erase_checkpoint_def act_bind_def act_update_def dest: delete_references_error
      split: option.splits prod.splits sum.splits)

text \<open>One deletion without cascade, on every outcome.\<close>

lemma delete_leaf_effect:
  assumes "delete_leaf env sid cid st = (r, st')"
  shows "(r = Inr () \<longrightarrow> man_files st' = AList.delete (sid, cid) (man_files st) \<and> descendants st sid cid = [])
       \<and> (r \<noteq> Inr () \<longrightarrow> man_files st' = man_files st)
       \<and> (r = Inl RuntimeError \<longrightarrow> descendants st sid cid \<noteq> [])"
proof -
  obtain r1 st1 where m: "manifest_if_exists env sid cid st = (r1, st1)" by force
  then have "st1 = st" by (simp add: manifest_if_exists_def)
  then show ?thesis
    using assms m
    by (cases r1) (auto simp: delete_leaf_def act_bind_def split: if_splits
        dest: erase_effect erase_error manifest_if_exists_error)
qed

definition healthy :: "store \<Rightarrow> sandbox_id \<Rightarrow> bool" where
  "healthy st sid = (store_wf st \<and> deps_closed st sid)"

lemma healthy_cong: "man_files st' = man_files st \<Longrightarrow> healthy st' sid = healthy st sid"
  by (simp add: healthy_def store_wf_def deps_closed_def has_manifest_def)

lemma healthy_erase:
  assumes "healthy st sid" and "man_files st' = AList.delete (sid, cid) (man_files st)"
    and "\<And>m. m \<in> set (manifests_of st sid) \<Longrightarrow> cid \<in> set (dependencies m) \<Longrightarrow> mf_checkpoint_id m = cid"
  shows "healthy st' sid"
proof -
  have wf: "store_wf st" using assms(1) by (simp add: healthy_def)
  have "has_manifest st' sid d" if "m \<in> set (manifests_of st' sid)" "d \<in> set (dependencies m)" for m d
  proof -
    have m: "m \<in> set (manifests_of st sid)" "mf_checkpoint_id m \<noteq> cid"
      using that(1) manifests_after_erase [OF wf] by (simp_all add: assms(2))
    then have "d \<noteq> cid" using assms(3) that(2) by blast
    moreover have "has_manifest st sid d" using assms(1) m(1) that(2) by (simp add: healthy_def deps_closed_def)
    ultimately show ?thesis using has_manifest_erase [OF assms(2)] by simp
  qed
  then show ?thesis using wf_erase [OF wf assms(2)] by (simp add: healthy_def deps_closed_def)
qed

lemma delete_leaf_healthy:
  assumes "healthy st sid" and "delete_leaf env sid cid st = (r, st')"
  shows "healthy st' sid"
proof (cases "r = Inr ()")
  case True
  then have e: "man_files st' = AList.delete (sid, cid) (man_files st)" "descendants st sid cid = []"
    using delete_leaf_effect [OF assms(2)] by simp_all
  show ?thesis by (rule healthy_erase [OF assms(1) e(1)]) (rule no_descendants [OF e(2)])
next
  case False
  then have "man_files st' = man_files st" using delete_leaf_effect [OF assms(2)] by simp
  then show ?thesis using assms(1) healthy_cong [of st' st sid] by blast
qed

lemma delete_each_healthy:
  "healthy st sid \<Longrightarrow> delete_each env sid cs st = (r, st') \<Longrightarrow> healthy st' sid"
proof (induction cs arbitrary: st)
  case (Cons c cs)
  obtain r1 st1 where s: "delete_leaf env sid c st = (r1, st1)" by force
  note h = delete_leaf_healthy [OF Cons.prems(1) s]
  show ?case
  proof (cases r1)
    case (Inl e)
    then have "st' = st1" using Cons.prems(2) s by (simp add: act_bind_def)
    then show ?thesis using h by simp
  next
    case (Inr u)
    then have "delete_each env sid cs st1 = (r, st')" using Cons.prems(2) s by (simp add: act_bind_def)
    then show ?thesis by (rule Cons.IH [OF h])
  qed
qed simp

lemma delete_each_manifests:
  assumes "delete_each env sid cs st = (Inr (), st')" and "store_wf st"
  shows "manifests_of st' sid = filter (\<lambda>m. mf_checkpoint_id m \<notin> set cs) (manifests_of st sid)
       \<and> store_wf st' \<and> (\<forall>s c. has_manifest st' s c \<longleftrightarrow> has_manifest st s c \<and> \<not> (s = sid \<and> c \<in> set cs))"
  using assms
proof (induction cs arbitrary: st)
  case (Cons c cs)
  obtain r1 st1 where s: "delete_leaf env sid c st = (r1, st1)" by force
  then have r1: "r1 = Inr ()" using Cons.prems(1) by (cases r1) (auto simp: act_bind_def)
  then have e: "man_files st1 = AList.delete (sid, c) (man_files st)" using delete_leaf_effect [OF s] by simp
  have "delete_each env sid cs st1 = (Inr (), st')" using Cons.prems(1) s r1 by (simp add: act_bind_def)
  note IH = Cons.IH [OF this wf_erase [OF Cons.prems(2) e]]
  have "manifests_of st1 sid = filter (\<lambda>m. mf_checkpoint_id m \<noteq> c) (manifests_of st sid)"
    using manifests_after_erase [OF Cons.prems(2), of sid c] e by simp
  then have "manifests_of st' sid = filter (\<lambda>m. mf_checkpoint_id m \<notin> set (c # cs)) (manifests_of st sid)"
    using IH by (simp add: conj_commute)
  moreover have "has_manifest st' s d \<longleftrightarrow> has_manifest st s d \<and> \<not> (s = sid \<and> d \<in> set (c # cs))" for s d
    using IH has_manifest_erase [OF e, of s d] by auto
  ultimately show ?case using IH by blast
qed simp

text \<open>An order of deletion in which every checkpoint goes before what it depends on.\<close>

fun dependents_first :: "checkpoint_manifest list \<Rightarrow> checkpoint_id list \<Rightarrow> bool" where
  "dependents_first ms [] = True"
| "dependents_first ms (c # cs) =
     ((\<forall>m \<in> set ms. c \<in> set (dependencies m) \<longrightarrow> mf_checkpoint_id m = c)
      \<and> dependents_first (filter (\<lambda>m. mf_checkpoint_id m \<noteq> c) ms) cs)"

lemma descendants_empty:
  assumes "\<forall>m \<in> set (manifests_of st sid). c \<in> set (dependencies m) \<longrightarrow> mf_checkpoint_id m = c"
  shows "descendants st sid c = []"
proof -
  have direct: "x = c" if "(x, c) \<in> depends (manifests_of st sid)" for x
    using that assms unfolding depends_def by blast
  have "x = c" if "(x, c) \<in> (depends (manifests_of st sid))\<^sup>+" for x
    using that by (induction x rule: converse_trancl_induct) (simp_all add: direct)
  then have "set (descendants st sid c) = {}" unfolding set_descendants by blast
  then show ?thesis by simp
qed

lemma delete_each_no_refusal:
  assumes "store_wf st" and "dependents_first (manifests_of st sid) cs"
    and "delete_each env sid cs st = (r, st')"
  shows "r \<noteq> Inl RuntimeError"
  using assms
proof (induction cs arbitrary: st)
  case (Cons c cs)
  obtain r1 st1 where s: "delete_leaf env sid c st = (r1, st1)" by force
  have d: "descendants st sid c = []" using Cons.prems(2) by (intro descendants_empty) simp
  show ?case
  proof (cases r1)
    case (Inl e)
    then show ?thesis using Cons.prems(3) s d delete_leaf_effect [OF s] by (auto simp: act_bind_def)
  next
    case (Inr u)
    then have e: "man_files st1 = AList.delete (sid, c) (man_files st)" using delete_leaf_effect [OF s] by simp
    show ?thesis
      using Cons.IH [OF wf_erase [OF Cons.prems(1) e]] Cons.prems Inr s e
        manifests_after_erase [OF Cons.prems(1), of sid c]
      by (simp add: act_bind_def)
  qed
qed auto

lemma dependents_first_sorted:
  assumes "sorted_wrt (\<lambda>a b. ord b \<le> ord a) cs"
    and "\<And>m d. m \<in> set ms \<Longrightarrow> d \<in> set (dependencies m) \<Longrightarrow> d \<in> set cs \<Longrightarrow> mf_checkpoint_id m \<noteq> d
           \<Longrightarrow> mf_checkpoint_id m \<in> set cs \<and> (ord d :: 'o::linorder) < ord (mf_checkpoint_id m)"
  shows "dependents_first ms cs"
  using assms
proof (induction cs arbitrary: ms)
  case (Cons c cs)
  have "mf_checkpoint_id m = c" if "m \<in> set ms" "c \<in> set (dependencies m)" for m
    using Cons.prems(2) [OF that] Cons.prems(1) by (auto simp: not_le [symmetric])
  moreover have "dependents_first (filter (\<lambda>m. mf_checkpoint_id m \<noteq> c) ms) cs"
    by (rule Cons.IH) (use Cons.prems in auto)
  ultimately show ?case by simp
qed simp

text \<open>Every checkpoint is younger than what it depends on.\<close>

definition chronological :: "store \<Rightarrow> sandbox_id \<Rightarrow> bool" where
  "chronological st sid =
     (\<forall>m \<in> set (manifests_of st sid). \<forall>m' \<in> set (manifests_of st sid).
        mf_checkpoint_id m' \<in> set (dependencies m) \<longrightarrow> mf_checkpoint_id m' \<noteq> mf_checkpoint_id m
          \<longrightarrow> isoformat (mf_created_at m') < isoformat (mf_created_at m))"

lemma created_order_of:
  assumes "distinct (map mf_checkpoint_id ms)" and "m \<in> set ms"
  shows "created_order ms (mf_checkpoint_id m) = isoformat (mf_created_at m)"
proof -
  let ?l = "map (\<lambda>m. (mf_checkpoint_id m, isoformat (mf_created_at m))) ms"
  have "map_of (rev ?l) (mf_checkpoint_id m) = Some (isoformat (mf_created_at m))"
    using assms by (intro map_of_is_SomeI) (auto simp: comp_def rev_map [symmetric])
  then show ?thesis by (simp add: created_order_def)
qed

lemma sorted_descending:
  "sorted_wrt (\<lambda>a b. f b \<le> f a) (rev (sort_key (f :: 'a \<Rightarrow> 'o::linorder) xs))"
  using sorted_sort_key [of f xs] by (simp add: sorted_wrt_rev sorted_wrt_map)

lemma depends_manifest: "(c, p) \<in> (depends ms)\<^sup>+ \<Longrightarrow> \<exists>m \<in> set ms. mf_checkpoint_id m = c"
  by (drule tranclD) (auto simp: depends_def)

lemma chronological_edge:
  assumes "store_wf st" and "chronological st sid"
    and "(c, p) \<in> depends (manifests_of st sid)" and "m' \<in> set (manifests_of st sid)" "mf_checkpoint_id m' = p"
    and "c \<noteq> p"
  shows "created_order (manifests_of st sid) p < created_order (manifests_of st sid) c"
proof -
  obtain m where m: "m \<in> set (manifests_of st sid)" "mf_checkpoint_id m = c" "p \<in> set (dependencies m)"
    using assms(3) by (auto simp: depends_def)
  then have "isoformat (mf_created_at m') < isoformat (mf_created_at m)"
    using assms(2,4-6) unfolding chronological_def by auto
  then show ?thesis
    using created_order_of [OF manifest_ids_distinct [OF assms(1)]] m(1,2) assms(4,5) by fastforce
qed

lemma chronological_path:
  assumes "store_wf st" and "chronological st sid"
    and "(c, p) \<in> (depends (manifests_of st sid))\<^sup>+" and "m' \<in> set (manifests_of st sid)" "mf_checkpoint_id m' = p"
  shows "created_order (manifests_of st sid) p \<le> created_order (manifests_of st sid) c"
  using assms(3)
proof (induction c rule: converse_trancl_induct)
  case (base y)
  then show ?case using chronological_edge [OF assms(1,2) base assms(4,5)] by (cases "y = p") auto
next
  case (step y z)
  obtain m where "m \<in> set (manifests_of st sid)" "mf_checkpoint_id m = z"
    using depends_manifest [OF step.hyps(2)] by blast
  then show ?case
    using chronological_edge [OF assms(1,2) step.hyps(1)] step.IH by (cases "y = z") fastforce+
qed

lemma descendants_dependents_first:
  assumes "store_wf st" and "chronological st sid"
  shows "dependents_first (manifests_of st sid) (descendants st sid cid)"
proof (rule dependents_first_sorted [where ord = "created_order (manifests_of st sid)"])
  let ?ms = "manifests_of st sid"
  show "sorted_wrt (\<lambda>a b. created_order ?ms b \<le> created_order ?ms a) (descendants st sid cid)"
    unfolding descendants_def Let_def by (rule sorted_descending)
  fix m d
  assume m: "m \<in> set ?ms" "d \<in> set (dependencies m)" "d \<in> set (descendants st sid cid)" "mf_checkpoint_id m \<noteq> d"
  have path: "(d, cid) \<in> (depends ?ms)\<^sup>+" using m(3) by (simp add: set_descendants)
  obtain m' where m': "m' \<in> set ?ms" "mf_checkpoint_id m' = d" using depends_manifest [OF path] by blast
  have edge: "(mf_checkpoint_id m, d) \<in> depends ?ms" using m(1,2) by (auto simp: depends_def)
  have less: "created_order ?ms d < created_order ?ms (mf_checkpoint_id m)"
    by (rule chronological_edge [OF assms edge m' m(4)])
  moreover have "mf_checkpoint_id m \<noteq> cid"
  proof
    assume "mf_checkpoint_id m = cid"
    then show False using chronological_path [OF assms path m(1)] less by simp
  qed
  ultimately show "mf_checkpoint_id m \<in> set (descendants st sid cid)
      \<and> created_order ?ms d < created_order ?ms (mf_checkpoint_id m)"
    using edge path by (auto simp: set_descendants intro: trancl_into_trancl2)
qed

lemma set_list_checkpoints: "set (list_checkpoints st sid) = mf_checkpoint_id ` set (manifests_of st sid)"
  by (simp add: list_checkpoints_def)

lemma list_descending:
  assumes "store_wf st"
  shows "sorted_wrt (\<lambda>a b. created_order (manifests_of st sid) b \<le> created_order (manifests_of st sid) a)
    (rev (list_checkpoints st sid))"
proof -
  let ?ms = "manifests_of st sid" and ?f = "\<lambda>m. isoformat (mf_created_at m)"
  have "sorted_wrt (\<lambda>a b. ?f a \<le> ?f b) (sort_key ?f ?ms)"
    using sorted_sort_key [of ?f ?ms] by (simp add: sorted_wrt_map)
  then have "sorted_wrt (\<lambda>a b. created_order ?ms (mf_checkpoint_id a) \<le> created_order ?ms (mf_checkpoint_id b))
      (sort_key ?f ?ms)"
    by (rule sorted_wrt_mono_rel [rotated])
      (simp add: created_order_of [OF manifest_ids_distinct [OF assms]])
  then show ?thesis by (simp add: list_checkpoints_def sorted_wrt_rev sorted_wrt_map)
qed

text \<open>Newest first is an order in which dependents go first, also for a part of the listing that has with a
  checkpoint all of its dependents.\<close>

lemma list_dependents_first:
  assumes "store_wf st" and "chronological st sid"
    and "\<And>m d. m \<in> set (manifests_of st sid) \<Longrightarrow> d \<in> set (dependencies m) \<Longrightarrow> d \<in> set (list_checkpoints st sid)
           \<Longrightarrow> mf_checkpoint_id m \<noteq> d \<Longrightarrow> P d \<Longrightarrow> P (mf_checkpoint_id m)"
  shows "dependents_first (manifests_of st sid) (filter P (rev (list_checkpoints st sid)))"
proof (rule dependents_first_sorted [where ord = "created_order (manifests_of st sid)"])
  let ?ms = "manifests_of st sid"
  show "sorted_wrt (\<lambda>a b. created_order ?ms b \<le> created_order ?ms a) (filter P (rev (list_checkpoints st sid)))"
    by (rule sorted_wrt_filter [OF list_descending [OF assms(1)]])
  fix m d
  assume m: "m \<in> set ?ms" "d \<in> set (dependencies m)" "d \<in> set (filter P (rev (list_checkpoints st sid)))"
    "mf_checkpoint_id m \<noteq> d"
  then obtain m' where m': "m' \<in> set ?ms" "mf_checkpoint_id m' = d" by (auto simp: set_list_checkpoints)
  have "(mf_checkpoint_id m, d) \<in> depends ?ms" using m(1,2) by (auto simp: depends_def)
  from chronological_edge [OF assms(1,2) this m' m(4)]
  show "mf_checkpoint_id m \<in> set (filter P (rev (list_checkpoints st sid)))
      \<and> created_order ?ms d < created_order ?ms (mf_checkpoint_id m)"
    using m assms(3) [of m d] by (simp add: set_list_checkpoints)
qed

text \<open>\<open>delete_checkpoint\<close>, taken apart.\<close>

lemma delete_checkpoint_cases:
  assumes "delete_checkpoint env sid cid cascade st = (r, st')"
  obtains (unreadable) e where "r = Inl e" "st' = st" "e \<noteq> RuntimeError"
    | (refused) "r = Inl RuntimeError" "st' = st" "descendants st sid cid \<noteq> []" "\<not> cascade"
    | (partial) e where "r = Inl e" "delete_each env sid (descendants st sid cid) st = (Inl e, st')"
    | (erased) mo st1 where "delete_each env sid (descendants st sid cid) st = (Inr (), st1)"
        "erase_checkpoint env sid cid mo st1 = (r, st')"
proof -
  obtain r0 st0 where m: "manifest_if_exists env sid cid st = (r0, st0)" by force
  then have st0: "st0 = st" by (simp add: manifest_if_exists_def)
  obtain r1 st1 where d: "delete_each env sid (descendants st sid cid) st = (r1, st1)" by force
  show thesis
  proof (cases r0)
    case (Inl e)
    then show thesis
      using assms m st0 manifest_if_exists_error [of env sid cid st e] unreadable
      by (fastforce simp: delete_checkpoint_def act_bind_def)
  next
    case (Inr mo)
    show thesis
    proof (cases "descendants st sid cid \<noteq> [] \<and> \<not> cascade")
      case True
      then show thesis using assms m st0 Inr refused by (simp add: delete_checkpoint_def act_bind_def)
    next
      case False
      then have "act_bind (delete_each env sid (descendants st sid cid)) (\<lambda>_. erase_checkpoint env sid cid mo) st
          = (r, st')"
        using assms m st0 Inr by (auto simp: delete_checkpoint_def act_bind_def split: if_splits)
      then show thesis using d partial erased by (cases r1) (auto simp: act_bind_def)
    qed
  qed
qed

lemma cascade_manifests:
  assumes "store_wf st" and "delete_each env sid (descendants st sid cid) st = (Inr (), st1)"
    and "m \<in> set (manifests_of st1 sid)" and "cid \<in> set (dependencies m)"
  shows "mf_checkpoint_id m = cid"
proof (rule ccontr)
  assume ne: "mf_checkpoint_id m \<noteq> cid"
  have m: "m \<in> set (manifests_of st sid)" "mf_checkpoint_id m \<notin> set (descendants st sid cid)"
    using delete_each_manifests [OF assms(2,1)] assms(3) by auto
  then have "(mf_checkpoint_id m, cid) \<in> depends (manifests_of st sid)"
    using assms(4) by (auto simp: depends_def)
  then show False using m(2) ne by (auto simp: set_descendants)
qed

section \<open>Properties\<close>

text \<open>C13. \<open>descendants\<close> is exact: it returns the other checkpoints of the sandbox that depend on the given one,
  directly or through others, by an incremental parent or a restore source, and nothing else.\<close>

theorem descendants_exact:
  "set (descendants st sid cid) =
     {c. c \<noteq> cid \<and> (c, cid) \<in> {(m, p). \<exists>x \<in> set (manifests_of st sid).
            mf_checkpoint_id x = m \<and> p \<in> set (dependencies x)}\<^sup>+}"
  using set_descendants unfolding depends_def by simp

text \<open>C4. Deleting a checkpoint never strands another one: on a well-formed store whose manifests have all
  their dependencies, every outcome of \<open>delete_checkpoint\<close> (success, refusal, a cascade that stops halfway)
  leaves a well-formed store in which every remaining manifest still has all of its dependencies, and after
  success the checkpoint is gone.\<close>

theorem delete_keeps_dependencies:
  assumes "store_wf st" and "deps_closed st sid"
    and "delete_checkpoint env sid cid cascade st = (r, st')"
  shows "store_wf st' \<and> deps_closed st' sid \<and> (r = Inr () \<longrightarrow> \<not> has_manifest st' sid cid)"
proof -
  have h: "healthy st sid" using assms(1,2) by (simp add: healthy_def)
  have "healthy st' sid \<and> (r = Inr () \<longrightarrow> \<not> has_manifest st' sid cid)"
    using assms(3)
  proof (cases rule: delete_checkpoint_cases)
    case (erased mo st1)
    have h1: "healthy st1 sid" by (rule delete_each_healthy [OF h erased(1)])
    show ?thesis
    proof (cases "r = Inr ()")
      case True
      then have e: "man_files st' = AList.delete (sid, cid) (man_files st1)" using erase_effect [OF erased(2)] by simp
      have "healthy st' sid"
        by (rule healthy_erase [OF h1 e]) (rule cascade_manifests [OF assms(1) erased(1)])
      then show ?thesis using has_manifest_erase [OF e, of sid cid] by simp
    next
      case False
      then have "man_files st' = man_files st1" using erase_effect [OF erased(2)] by simp
      then show ?thesis using h1 healthy_cong [of st' st1 sid] False by blast
    qed
  qed (use h delete_each_healthy in auto)
  then show ?thesis by (simp add: healthy_def)
qed

definition demo_manifest :: "checkpoint_id \<Rightarrow> instant \<Rightarrow> checkpoint_id option \<Rightarrow> checkpoint_manifest" where
  "demo_manifest cid t parent = \<lparr>
     mf_schema_version = ''v1'', mf_checkpoint_id = cid, mf_sandbox_id = ''sb1'', mf_created_at = t,
     mf_runtime_name = ''runc'', mf_runtime_version = None, mf_process_artifacts = [],
     mf_filesystem_artifacts = [], mf_metadata = Map.empty,
     mf_integrity = Map.empty(''manifest_sha256'' \<mapsto> ''h''), mf_parent_checkpoint_id = parent,
     mf_process_kind = (if parent = None then ''full'' else ''incremental'')\<rparr>"

definition demo_env :: storage_env where
  "demo_env = \<lparr>manifest_digest = (\<lambda>_. ''h''), bytes_digest = (\<lambda>b. b), json_loads = (\<lambda>_. Inl ValueError),
     image_path_in_use = None, destroy_filesystem_ref = None\<rparr>"

definition demo_store :: store where
  "demo_store = empty_store\<lparr>man_files :=
     [((''sb1'', ''a''), Readable (demo_manifest ''a'' (- 62135596800000000) None)),
      ((''sb1'', ''b''), Readable (demo_manifest ''b'' (- 62135596799999999) (Some ''a'')))]\<rparr>"

lemma demo_store_wf: "store_wf demo_store"
  by (auto simp: store_wf_def demo_store_def demo_manifest_def empty_store_def)

lemma demo_store_closed: "deps_closed demo_store ''sb1''"
  by (simp add: deps_closed_def demo_store_def demo_manifest_def empty_store_def has_manifest_def
      dependencies_def restore_sources_def source_keys_def map_filter_simps)

theorem delete_keeps_dependencies_witness:
  "deps_closed (snd (delete_checkpoint demo_env ''sb1'' ''a'' False demo_store)) ''sb1''"
  using delete_keeps_dependencies [OF demo_store_wf demo_store_closed, of demo_env "''a''" False]
  by (metis prod.collapse)

text \<open>C10. When every checkpoint is younger than what it depends on, deletion is never refused for live
  dependents: a cascading delete removes exactly the checkpoint and its descendants, and deleting all
  checkpoints newest first empties the sandbox, unless a stored file is damaged.\<close>

theorem deletion_not_refused:
  assumes "store_wf st" and "chronological st sid"
  shows "(delete_checkpoint env sid cid True st = (r, st') \<longrightarrow>
            r \<noteq> Inl RuntimeError
            \<and> (r = Inr () \<longrightarrow> manifests_of st' sid = filter (\<lambda>m. mf_checkpoint_id m \<noteq> cid
                  \<and> mf_checkpoint_id m \<notin> set (descendants st sid cid)) (manifests_of st sid)))
       \<and> (delete_all_checkpoints env sid st = (r, st') \<longrightarrow>
            r \<noteq> Inl RuntimeError \<and> (r = Inr () \<longrightarrow> list_checkpoints st' sid = []))"
proof (intro conjI impI)
  assume del: "delete_checkpoint env sid cid True st = (r, st')"
  then show "r \<noteq> Inl RuntimeError"
    using delete_each_no_refusal [OF assms(1) descendants_dependents_first [OF assms]] erase_error
    by (cases rule: delete_checkpoint_cases) fastforce+
  assume r: "r = Inr ()"
  from del show "manifests_of st' sid = filter (\<lambda>m. mf_checkpoint_id m \<noteq> cid
      \<and> mf_checkpoint_id m \<notin> set (descendants st sid cid)) (manifests_of st sid)"
  proof (cases rule: delete_checkpoint_cases)
    case (erased mo st1)
    have "man_files st' = AList.delete (sid, cid) (man_files st1)" using erase_effect [OF erased(2)] r by simp
    then show ?thesis
      using delete_each_manifests [OF erased(1) assms(1)] manifests_after_erase [of st1 sid cid]
      by (simp add: conj_commute)
  qed (use r in auto)
next
  assume "delete_all_checkpoints env sid st = (r, st')"
  then have all: "delete_each env sid (rev (list_checkpoints st sid)) st = (r, st')"
    by (simp add: delete_all_checkpoints_def act_bind_def)
  show "r \<noteq> Inl RuntimeError"
    using delete_each_no_refusal [OF assms(1) _ all] list_dependents_first [OF assms, where P = "\<lambda>_. True"] by simp
  assume "r = Inr ()"
  then have "manifests_of st' sid = []"
    using delete_each_manifests [of env sid _ st st'] all assms(1)
    by (auto simp: set_list_checkpoints filter_empty_conv)
  then show "list_checkpoints st' sid = []" by (simp add: list_checkpoints_def)
qed

lemma demo_store_chronological: "chronological demo_store ''sb1''"
proof -
  have "instant_ok (- 62135596800000000)" "instant_ok (- 62135596799999999)"
    by (simp_all add: instant_ok_def since_min_def year_from.simps days_in_year_def is_leap_def)
  then have "isoformat (- 62135596800000000) < isoformat (- 62135596799999999)" by (simp add: isoformat_less)
  then show ?thesis
    by (simp add: chronological_def demo_store_def demo_manifest_def empty_store_def
        dependencies_def restore_sources_def source_keys_def map_filter_simps)
qed

theorem deletion_not_refused_witness:
  "fst (delete_all_checkpoints demo_env ''sb1'' demo_store) \<noteq> Inl RuntimeError"
  using deletion_not_refused [OF demo_store_wf demo_store_chronological, of demo_env]
  by (metis prod.collapse)

end
