(* ===== verification/Storage_Links.thy ===== *)
theory Storage_Links
  imports Storage
begin

text \<open>
  Artifacts that are symbolic links into another sandbox's tree, as forks use them: reading through links,
  the round trip of written and of linked artifacts, and the replacement of borrowed bytes by copies.
\<close>

section \<open>Reading through links\<close>

lemma follow_simps [simp]:
  "map_of fs p = None \<Longrightarrow> follow n fs p = None"
  "map_of fs p = Some (Bytes b) \<Longrightarrow> follow n fs p = Some b"
  "map_of fs p = Some (SymLink q) \<Longrightarrow> follow 0 fs p = None"
  "map_of fs p = Some (SymLink q) \<Longrightarrow> follow (Suc k) fs p = follow k fs q"
  by (simp_all add: follow.simps)

lemma follow_cases:
  assumes "follow n fs p = Some b"
  obtains (as_file) "map_of fs p = Some (Bytes b)"
    | (as_link) q k where "map_of fs p = Some (SymLink q)" "n = Suc k" "follow k fs q = Some b"
proof (cases "map_of fs p")
  case (Some v)
  then show thesis using assms as_file as_link by (cases v; cases n) auto
qed (use assms in simp)

lemma follow_fuel: "follow n fs p = Some b \<Longrightarrow> n \<le> k \<Longrightarrow> follow k fs p = Some b"
proof (induction n arbitrary: p k)
  case 0
  then show ?case by (auto elim: follow_cases)
next
  case (Suc n)
  then obtain k' where k: "k = Suc k'" "n \<le> k'" by (cases k) auto
  from Suc.prems(1) show ?case
    by (cases rule: follow_cases) (use Suc.IH k in auto)
qed

lemma follow_unique: "follow n fs p = Some b \<Longrightarrow> follow k fs p = Some b' \<Longrightarrow> b = b'"
  using follow_fuel [of n fs p b "max n k"] follow_fuel [of k fs p b' "max n k"] by simp

lemma map_of_update: "map_of (AList.update p v fs) q = (if q = p then Some v else map_of fs q)"
  by (simp add: update_conv')

text \<open>Replacing a link by the bytes it leads to changes no read.\<close>

lemma follow_update:
  assumes "follow k fs p = Some b"
  shows "follow n fs q = Some x \<Longrightarrow> follow n (AList.update p (Bytes b) fs) q = Some x"
proof (induction n arbitrary: q)
  case 0
  then show ?case using follow_unique [OF assms, of 0 x] by (cases "q = p") (auto simp: map_of_update elim: follow_cases)
next
  case (Suc n)
  show ?case
  proof (cases "q = p")
    case True
    then show ?thesis using follow_unique [OF assms, of "Suc n" x] Suc.prems by (simp add: map_of_update)
  next
    case False
    from Suc.prems show ?thesis
      by (cases rule: follow_cases) (use False Suc.IH in \<open>auto simp: map_of_update\<close>)
  qed
qed

lemma length_update: "map_of fs p \<noteq> None \<Longrightarrow> length (AList.update p v fs) = length fs"
  by (induction fs) auto

lemma read_path_update:
  assumes "read_path fs p = Some b" and "read_path fs q = Some x"
  shows "read_path (AList.update p (Bytes b) fs) q = Some x"
proof -
  have "map_of fs p \<noteq> None" using assms(1) by (auto simp: read_path_def elim: follow_cases)
  then show ?thesis
    using follow_update [OF assms(1) [unfolded read_path_def] assms(2) [unfolded read_path_def]]
    by (simp add: read_path_def length_update)
qed

lemma materialize_reads:
  assumes "materialize_paths ps fs n = (n', fs')"
  shows "(\<forall>q x. read_path fs q = Some x \<longrightarrow> read_path fs' q = Some x)
       \<and> (\<forall>q b. map_of fs q = Some (Bytes b) \<longrightarrow> map_of fs' q = Some (Bytes b))
       \<and> (\<forall>p \<in> set ps. \<forall>x. read_path fs p = Some x \<longrightarrow> map_of fs' p = Some (Bytes x))"
  using assms
proof (induction ps arbitrary: fs n)
  case (Cons p ps)
  show ?case
  proof (cases "\<exists>b. read_path fs p = Some b \<and> (\<exists>l. map_of fs p = Some (SymLink l))")
    case True
    then obtain b l where b: "read_path fs p = Some b" "map_of fs p = Some (SymLink l)" by blast
    then have "materialize_paths ps (AList.update p (Bytes b) fs) (n + 1) = (n', fs')" using Cons.prems by simp
    note IH = Cons.IH [OF this]
    have "read_path fs' q = Some x" if "read_path fs q = Some x" for q x
      using IH read_path_update [OF b(1) that] by blast
    moreover have "map_of fs' q = Some (Bytes y)" if "map_of fs q = Some (Bytes y)" for q y
    proof -
      have "map_of (AList.update p (Bytes b) fs) q = Some (Bytes y)" using that b(2)
        by (cases "q = p") (simp_all add: map_of_update)
      then show ?thesis using IH by blast
    qed
    moreover have "map_of fs' p = Some (Bytes b)"
    proof -
      have "map_of (AList.update p (Bytes b) fs) p = Some (Bytes b)" by (simp add: map_of_update)
      then show ?thesis using IH by blast
    qed
    moreover have "map_of fs' r = Some (Bytes x)" if "r \<in> set (p # ps)" "read_path fs r = Some x" for r x
    proof (cases "r = p")
      case True
      then show ?thesis using calculation(3) that(2) b(1) by simp
    next
      case False
      then show ?thesis using IH that read_path_update [OF b(1) that(2)] by simp
    qed
    ultimately show ?thesis by blast
  next
    case False
    then have step: "materialize_paths ps fs n = (n', fs')"
      using Cons.prems by (auto split: option.splits artifact_node.splits)
    note IH = Cons.IH [OF step]
    have "map_of fs p = Some (Bytes x)" if "read_path fs p = Some x" for x
      using that False by (auto simp: read_path_def elim: follow_cases)
    then have "map_of fs' p = Some (Bytes x)" if "read_path fs p = Some x" for x using IH that by blast
    then show ?thesis using IH unfolding list.set ball_simps by blast
  qed
qed simp

lemma follow_new_path:
  assumes "map_of fs path = None"
  shows "follow n fs q = Some b \<Longrightarrow> follow n (AList.update path v fs) q = Some b"
proof (induction n arbitrary: q)
  case 0
  then have "q \<noteq> path" using assms by auto
  then show ?case using 0 by (auto simp: map_of_update elim: follow_cases)
next
  case (Suc n)
  then have "q \<noteq> path" using assms by auto
  from Suc.prems show ?case
    by (cases rule: follow_cases) (use \<open>q \<noteq> path\<close> Suc.IH in \<open>auto simp: map_of_update\<close>)
qed

lemma length_update_new: "map_of fs p = None \<Longrightarrow> length (AList.update p v fs) = Suc (length fs)"
  by (induction fs) (auto split: if_splits)

lemma delete_new: "map_of fs p = None \<Longrightarrow> AList.delete p fs = fs"
  by (induction fs) (auto split: if_splits)

section \<open>Properties\<close>

text \<open>C28. What is written is what is read: after \<open>put_artifact\<close> the returned reference reads back the data.\<close>

theorem artifact_roundtrip:
  assumes "put_artifact env sid cid a st = Inr (ref, st')"
  shows "get_artifact env st' ref = Inr (pay_data a) \<and> \<not> is_linked_artifact st' ref"
  using assms
  by (auto simp: put_artifact_def get_artifact_def is_linked_artifact_def read_path_def Let_def
      map_of_update split: sum.splits)

theorem artifact_roundtrip_witness:
  "\<exists>ref st'. put_artifact \<lparr>manifest_digest = \<lambda>_. ''h'', bytes_digest = rev, json_loads = \<lambda>_. Inl ValueError,
       image_path_in_use = None, destroy_filesystem_ref = None\<rparr> ''sb1'' ''ck''
       \<lparr>pay_kind = PROCESS, pay_name = ''a/b'', pay_data = ''xyz'', pay_metadata = Map.empty\<rparr> empty_store
     = Inr (ref, st')
   \<and> get_artifact \<lparr>manifest_digest = \<lambda>_. ''h'', bytes_digest = rev, json_loads = \<lambda>_. Inl ValueError,
       image_path_in_use = None, destroy_filesystem_ref = None\<rparr> st' ref = Inr ''xyz''"
proof -
  let ?env = "\<lparr>manifest_digest = \<lambda>_. ''h'', bytes_digest = rev, json_loads = \<lambda>_. Inl ValueError,
       image_path_in_use = None, destroy_filesystem_ref = None\<rparr>"
  let ?a = "\<lparr>pay_kind = PROCESS, pay_name = ''a/b'', pay_data = ''xyz'', pay_metadata = Map.empty\<rparr>"
  obtain ref st' where p: "put_artifact ?env ''sb1'' ''ck'' ?a empty_store = Inr (ref, st')"
    by (simp add: put_artifact_def safe_name_def Let_def)
  then show ?thesis using artifact_roundtrip [OF p] by (intro exI [of _ ref] exI [of _ st']) simp
qed


definition demo_links :: store where
  "demo_links = empty_store\<lparr>art_files := [((''sb1'', ''ck'', PROCESS, ''x''), Bytes ''data'')]\<rparr>"

definition demo_reference :: artifact_reference where
  "demo_reference = \<lparr>ref_kind = PROCESS, ref_name = ''x'', ref_relative_path = (''sb1'', ''ck'', PROCESS, ''x''),
     ref_size_bytes = 4, ref_sha256 = ''data'', ref_metadata = Map.empty\<rparr>"

definition demo_link_env :: storage_env where
  "demo_link_env = \<lparr>manifest_digest = (\<lambda>_. ''h''), bytes_digest = (\<lambda>b. b), json_loads = (\<lambda>_. Inl ValueError),
     image_path_in_use = None, destroy_filesystem_ref = None\<rparr>"


text \<open>C14. Materialising makes a sandbox self-contained: after \<open>materialize_linked_artifacts\<close>, every artifact of
  the sandbox that could be read before is still read with the same bytes once the trees of all other
  sandboxes are gone, and nothing any other sandbox could read has changed.\<close>

theorem materialize_self_contained:
  assumes "materialize_linked_artifacts sid st = (n, st')"
  shows "(fst p = sid \<longrightarrow> read_path (art_files st) p = Some b
            \<longrightarrow> read_path (filter (\<lambda>(q, _). fst q = sid) (art_files st')) p = Some b)
       \<and> (read_path (art_files st) p = Some b \<longrightarrow> read_path (art_files st') p = Some b)"
proof -
  obtain fs' where m: "materialize_paths (paths_of sid (art_files st)) (art_files st) 0 = (n, fs')"
    and st': "art_files st' = fs'"
    using assms by (auto simp: materialize_linked_artifacts_def split: prod.splits)
  note reads = materialize_reads [OF m]
  have "read_path (filter (\<lambda>(q, _). fst q = sid) fs') p = Some b"
    if "fst p = sid" "read_path (art_files st) p = Some b"
  proof -
    have "map_of (art_files st) p \<noteq> None" using that(2) by (auto simp: read_path_def elim: follow_cases)
    then have "p \<in> set (paths_of sid (art_files st))"
      using that(1) by (simp add: paths_of_def map_of_eq_None_iff)
    then have "map_of fs' p = Some (Bytes b)" using reads that(2) by blast
    then have "map_of (filter (\<lambda>(q, _). fst q = sid) fs') p = Some (Bytes b)"
      using that(1) by (induction fs') (auto split: if_splits)
    then show ?thesis by (simp add: read_path_def)
  qed
  then show ?thesis using reads st' by blast
qed

theorem materialize_self_contained_witness:
  "read_path (filter (\<lambda>(q, _). fst q = ''fork'') (art_files (snd (materialize_linked_artifacts ''fork''
      (demo_links\<lparr>art_files := [((''sb1'', ''ck'', PROCESS, ''x''), Bytes ''data''),
        ((''fork'', ''ck'', PROCESS, ''x''), SymLink (''sb1'', ''ck'', PROCESS, ''x''))]\<rparr>)))))
     (''fork'', ''ck'', PROCESS, ''x'') = Some ''data''"
proof -
  let ?st = "demo_links\<lparr>art_files := [((''sb1'', ''ck'', PROCESS, ''x''), Bytes ''data''),
        ((''fork'', ''ck'', PROCESS, ''x''), SymLink (''sb1'', ''ck'', PROCESS, ''x''))]\<rparr>"
  have "read_path (art_files ?st) (''fork'', ''ck'', PROCESS, ''x'') = Some ''data''"
    by (simp add: read_path_def)
  note r = this
  have m: "materialize_linked_artifacts ''fork'' ?st
      = (fst (materialize_linked_artifacts ''fork'' ?st), snd (materialize_linked_artifacts ''fork'' ?st))"
    by (rule prod.collapse [symmetric])
  show ?thesis
    by (rule materialize_self_contained [OF m, THEN conjunct1, THEN mp, THEN mp, OF _ r]) simp
qed

end
