(* ===== verification/Restore.thy ===== *)
theory Restore
  imports Storage_Deletion Runtime_Mem
begin

text \<open>
  The restore side of \<^verbatim>\<open>crab/workers/composite.py\<close>: which stored checkpoints supply the process and the
  filesystem half of a restore (\<open>resolve_restore_manifest\<close> and its helpers), and the check that every
  ancestor of an incremental process checkpoint is still there (\<open>_validate_incremental_chain\<close>), over the
  store of \<open>LocalCheckpointManager\<close>.  The runtime's capabilities and pre-dump locations are arguments.
\<close>

section \<open>Trace cursors and safe numbers\<close>

definition committed_trace_cursor :: "metadata \<Rightarrow> int" where
  "committed_trace_cursor md =
     (case md ''benchmark_trace_cursor'' of
        None \<Rightarrow> 0
      | Some v \<Rightarrow> (case py_int v of Inl _ \<Rightarrow> 0 | Inr i \<Rightarrow> max 0 i))"

definition safe_int :: "pyval option \<Rightarrow> int option" where
  "safe_int v = (case v of None \<Rightarrow> None | Some x \<Rightarrow> (case py_int x of Inl _ \<Rightarrow> None | Inr i \<Rightarrow> Some i))"

section \<open>Choosing the sources\<close>

definition latest_manifest_with_artifacts ::
  "checkpoint_manifest list \<Rightarrow> (checkpoint_manifest \<Rightarrow> bool) \<Rightarrow> checkpoint_manifest option" where
  "latest_manifest_with_artifacts ms include = find include (rev ms)"

text \<open>The loop of \<open>_latest_process_manifest_for_restore\<close> over the candidates newest first, with the first
  process checkpoint seen as its accumulator.\<close>

fun latest_process_loop ::
  "int option \<Rightarrow> checkpoint_manifest list \<Rightarrow> checkpoint_manifest option \<Rightarrow> checkpoint_manifest option" where
  "latest_process_loop cursor [] newest = newest"
| "latest_process_loop cursor (m # ms) newest =
     (if mf_process_artifacts m = [] then latest_process_loop cursor ms newest
      else
        let newest' = (case newest of None \<Rightarrow> Some m | Some x \<Rightarrow> Some x) in
        case cursor of
          None \<Rightarrow> Some m
        | Some c \<Rightarrow>
            if committed_trace_cursor (mf_metadata m) \<le> c then Some m
            else latest_process_loop cursor ms newest')"

definition latest_process_manifest_for_restore ::
  "checkpoint_manifest list \<Rightarrow> checkpoint_manifest option \<Rightarrow> checkpoint_manifest option" where
  "latest_process_manifest_for_restore ms fs =
     latest_process_loop (map_option (\<lambda>m. committed_trace_cursor (mf_metadata m)) fs) (rev ms) None"

datatype half = ProcessHalf | FilesystemHalf

fun half_artifacts :: "half \<Rightarrow> checkpoint_manifest \<Rightarrow> artifact_reference list" where
  "half_artifacts ProcessHalf m = mf_process_artifacts m"
| "half_artifacts FilesystemHalf m = mf_filesystem_artifacts m"

definition restore_source_manifest ::
  "storage_env \<Rightarrow> store \<Rightarrow> checkpoint_manifest \<Rightarrow> checkpoint_id \<Rightarrow> checkpoint_manifest list \<Rightarrow> half
     \<Rightarrow> checkpoint_manifest res" where
  "restore_source_manifest env st logical source_id candidates component =
     (case (case find (\<lambda>c. mf_checkpoint_id c = source_id) candidates of
              Some c \<Rightarrow> Inr c
            | None \<Rightarrow> get_manifest env st (mf_sandbox_id logical) source_id) of
        Inl e \<Rightarrow> Inl e
      | Inr source \<Rightarrow> if half_artifacts component source = [] then Inl ValueError else Inr source)"

text \<open>Candidates up to and including the manifest itself: from the listing of the store, or from a list
  the caller has loaded.\<close>

fun get_all :: "storage_env \<Rightarrow> store \<Rightarrow> sandbox_id \<Rightarrow> checkpoint_id list \<Rightarrow> checkpoint_manifest list res" where
  "get_all env st sid [] = Inr []"
| "get_all env st sid (c # cs) =
     (case get_manifest env st sid c of
        Inl e \<Rightarrow> Inl e
      | Inr m \<Rightarrow> (case get_all env st sid cs of Inl e \<Rightarrow> Inl e | Inr ms \<Rightarrow> Inr (m # ms)))"

fun upto_first :: "('a \<Rightarrow> bool) \<Rightarrow> 'a list \<Rightarrow> 'a list" where
  "upto_first P [] = []"
| "upto_first P (x # xs) = (if P x then [x] else x # upto_first P xs)"

definition restore_candidates ::
  "storage_env \<Rightarrow> store \<Rightarrow> checkpoint_manifest \<Rightarrow> checkpoint_manifest list option \<Rightarrow> checkpoint_manifest list res" where
  "restore_candidates env st m given =
     (case given of
        None \<Rightarrow> get_all env st (mf_sandbox_id m)
          (upto_first (\<lambda>c. c = mf_checkpoint_id m) (list_checkpoints st (mf_sandbox_id m)))
      | Some cs \<Rightarrow> Inr (upto_first (\<lambda>c. mf_checkpoint_id c = mf_checkpoint_id m) cs))"

definition checkpoint_id_of :: "pyval \<Rightarrow> checkpoint_id res" where
  "checkpoint_id_of v = (if pystr v = [] then Inl ValueError else Inr (pystr v))"

definition named_source ::
  "storage_env \<Rightarrow> store \<Rightarrow> checkpoint_manifest \<Rightarrow> pyval \<Rightarrow> checkpoint_manifest list \<Rightarrow> half
     \<Rightarrow> checkpoint_manifest res" where
  "named_source env st current raw candidates component =
     (case checkpoint_id_of raw of
        Inl e \<Rightarrow> Inl e
      | Inr cid \<Rightarrow> restore_source_manifest env st current cid candidates component)"

definition restore_halves ::
  "storage_env \<Rightarrow> store \<Rightarrow> checkpoint_manifest \<Rightarrow> checkpoint_manifest list
     \<Rightarrow> (checkpoint_manifest option \<times> checkpoint_manifest option) res" where
  "restore_halves env st current candidates =
     (if meta_flag (mf_metadata current) ''logical_checkpoint''
      then case (meta_get (mf_metadata current) ''process_restore_checkpoint_id'',
                 meta_get (mf_metadata current) ''filesystem_restore_checkpoint_id'') of
             (Some p, Some f) \<Rightarrow>
               (case named_source env st current p candidates ProcessHalf of
                  Inl e \<Rightarrow> Inl e
                | Inr pm \<Rightarrow>
                    (case named_source env st current f candidates FilesystemHalf of
                       Inl e \<Rightarrow> Inl e
                     | Inr fm \<Rightarrow> Inr (Some pm, Some fm)))
           | _ \<Rightarrow> Inl ValueError
      else
        let fm = latest_manifest_with_artifacts candidates (\<lambda>c. mf_filesystem_artifacts c \<noteq> []) in
        Inr (latest_process_manifest_for_restore candidates fm, fm))"

section \<open>The resolved manifest\<close>

definition source_metadata :: "string \<Rightarrow> checkpoint_manifest option \<Rightarrow> metadata \<Rightarrow> metadata" where
  "source_metadata half_name src md =
     (case src of
        None \<Rightarrow> md
      | Some m \<Rightarrow> md(half_name @ ''_restore_checkpoint_id'' \<mapsto> PStr (mf_checkpoint_id m),
                     half_name @ ''_restore_trace_cursor'' \<mapsto> PInt (committed_trace_cursor (mf_metadata m)),
                     half_name @ ''_restore_created_at'' \<mapsto> PStr (isoformat (mf_created_at m))))"

definition io_estimates :: "checkpoint_manifest \<Rightarrow> int list" where
  "io_estimates m =
     List.map_filter (\<lambda>k. safe_int (mf_metadata m k))
       [''process_checkpoint_size_bytes'', ''filesystem_checkpoint_written_bytes'']"

definition gap_metadata :: "checkpoint_manifest option \<Rightarrow> checkpoint_manifest option \<Rightarrow> metadata \<Rightarrow> metadata" where
  "gap_metadata pm fm md =
     (case (pm, fm) of
        (Some p, Some f) \<Rightarrow>
          let ests = io_estimates p @ io_estimates f;
              md' = md(''restore_source_gap_turns'' \<mapsto>
                          PInt \<bar>committed_trace_cursor (mf_metadata p) - committed_trace_cursor (mf_metadata f)\<bar>,
                       ''restore_source_gap_ms'' \<mapsto>
                          PFloat \<bar>of_int (mf_created_at f - mf_created_at p) / 1000000 * 1000\<bar>,
                       ''restore_mixed_sources'' \<mapsto> PBool (mf_checkpoint_id p \<noteq> mf_checkpoint_id f))
          in if ests = [] then md' else md'(''restore_estimated_io_bytes'' \<mapsto> PInt (sum_list ests))
      | _ \<Rightarrow> md)"

definition copy_key :: "metadata \<Rightarrow> string \<Rightarrow> metadata \<Rightarrow> metadata" where
  "copy_key source k target =
     (case meta_get source k of None \<Rightarrow> target(k := None) | Some v \<Rightarrow> target(k \<mapsto> v))"

definition copy_process_restore_metadata :: "metadata \<Rightarrow> metadata \<Rightarrow> metadata" where
  "copy_process_restore_metadata target source =
     copy_key source ''captured_request_started_at''
       (copy_key source ''captured_request_provider''
         (copy_key source ''captured_request_id''
           (target(''captures_inflight_llm'' \<mapsto> PBool (meta_flag source ''captures_inflight_llm'')))))"

definition resolve_restore_manifest ::
  "storage_env \<Rightarrow> store \<Rightarrow> checkpoint_manifest \<Rightarrow> checkpoint_manifest list option \<Rightarrow> checkpoint_manifest res" where
  "resolve_restore_manifest env st manifest given =
     (case restore_candidates env st manifest given of
        Inl e \<Rightarrow> Inl e
      | Inr candidates \<Rightarrow>
          let current = (if candidates = [] then manifest else last candidates) in
          case restore_halves env st current candidates of
            Inl e \<Rightarrow> Inl e
          | Inr (pm, fm) \<Rightarrow>
              let md = copy_process_restore_metadata
                         (gap_metadata pm fm
                           (source_metadata ''filesystem'' fm
                             (source_metadata ''process'' pm (mf_metadata current))))
                         (case pm of None \<Rightarrow> Map.empty | Some m \<Rightarrow> mf_metadata m)
              in Inr (with_integrity (manifest_digest env) (current\<lparr>
                   mf_process_artifacts := (case pm of None \<Rightarrow> [] | Some m \<Rightarrow> mf_process_artifacts m),
                   mf_filesystem_artifacts := (case fm of None \<Rightarrow> [] | Some m \<Rightarrow> mf_filesystem_artifacts m),
                   mf_metadata := md,
                   mf_parent_checkpoint_id :=
                     (case pm of None \<Rightarrow> mf_parent_checkpoint_id current | Some m \<Rightarrow> mf_parent_checkpoint_id m),
                   mf_process_kind :=
                     (case pm of None \<Rightarrow> mf_process_kind current | Some m \<Rightarrow> mf_process_kind m)\<rparr>)))"

section \<open>Incremental chains\<close>

text \<open>The walk of \<open>_validate_incremental_chain\<close>: \<open>pre_dump\<close> is \<open>runtime.pre_dump_location\<close> of the sandbox and
  \<open>path_exists\<close> is \<open>Path.exists\<close>.  It ends because each step either stops or visits another stored
  manifest.\<close>

function validate_chain ::
  "storage_env \<Rightarrow> store \<Rightarrow> (checkpoint_id \<Rightarrow> string option) \<Rightarrow> (string \<Rightarrow> bool) \<Rightarrow> sandbox_id
     \<Rightarrow> checkpoint_id list \<Rightarrow> checkpoint_manifest \<Rightarrow> unit res" where
  "validate_chain env st pre_dump path_exists sid visited cursor =
     (case mf_parent_checkpoint_id cursor of
        None \<Rightarrow> Inr ()
      | Some parent \<Rightarrow>
          if parent \<in> set visited then Inl RuntimeError
          else case pre_dump parent of
            None \<Rightarrow> Inl FileNotFoundError
          | Some path \<Rightarrow>
              if \<not> path_exists path then Inl FileNotFoundError
              else case get_manifest env st sid parent of
                Inl e \<Rightarrow> Inl e
              | Inr pm \<Rightarrow>
                  if mf_process_kind pm = ''full'' then Inr ()
                  else validate_chain env st pre_dump path_exists sid (parent # visited) pm)"
  by auto
termination
proof (relation "measure (\<lambda>(env, st, pd, pe, sid, visited, cursor).
    card (set (map (snd \<circ> fst) (man_files st)) - set visited))", goal_cases)
  case (2 env st pd pe sid visited cursor parent path pm)
  have "parent \<in> set (map (snd \<circ> fst) (man_files st))"
    using 2(5) by (force simp: get_manifest_def dest: map_of_SomeD split: option.splits)
  then have "set (map (snd \<circ> fst) (man_files st)) - set (parent # visited)
      \<subset> set (map (snd \<circ> fst) (man_files st)) - set visited" using 2(2) by auto
  then show ?case by (simp add: psubset_card_mono)
qed simp

declare validate_chain.simps [simp del]

definition validate_incremental_chain ::
  "storage_env \<Rightarrow> store \<Rightarrow> runtime_capabilities \<Rightarrow> (checkpoint_id \<Rightarrow> string option) \<Rightarrow> (string \<Rightarrow> bool)
     \<Rightarrow> checkpoint_manifest \<Rightarrow> unit res" where
  "validate_incremental_chain env st caps pre_dump path_exists manifest =
     (if mf_process_kind manifest \<noteq> ''incremental'' then Inr ()
      else if \<not> supports_incremental_process caps then Inr ()
      else validate_chain env st pre_dump path_exists (mf_sandbox_id manifest) [] manifest)"

section \<open>Lemmas\<close>

lemma find_split:
  "find P xs = Some x \<Longrightarrow> \<exists>us vs. xs = us @ x # vs \<and> P x \<and> (\<forall>u \<in> set us. \<not> P u)"
proof (induction xs)
  case (Cons y ys)
  show ?case
  proof (cases "P y")
    case True
    then have "y # ys = [] @ x # ys \<and> P x \<and> (\<forall>u \<in> set []. \<not> P u)" using Cons.prems by simp
    then show ?thesis by blast
  next
    case False
    then obtain us vs where "ys = us @ x # vs" "P x" "\<forall>u \<in> set us. \<not> P u" using Cons by auto
    then have "y # ys = (y # us) @ x # vs \<and> P x \<and> (\<forall>u \<in> set (y # us). \<not> P u)" using False by simp
    then show ?thesis by blast
  qed
qed simp

lemma find_rev_latest:
  assumes "find P (rev xs) = Some x"
  shows "\<exists>ys zs. xs = ys @ x # zs \<and> P x \<and> (\<forall>z \<in> set zs. \<not> P z)"
proof -
  obtain us vs where "rev xs = us @ x # vs" "P x" "\<forall>u \<in> set us. \<not> P u" using find_split [OF assms] by blast
  then have "xs = rev vs @ x # rev us" by (metis append_assoc append_Cons append_Nil rev.simps(2) rev_append rev_rev_ident)
  then show ?thesis using \<open>P x\<close> \<open>\<forall>u \<in> set us. \<not> P u\<close> by (metis set_rev)
qed

text \<open>The process source, described without the loop: the newest process checkpoint not ahead of the
  filesystem's cursor, else the newest process checkpoint.\<close>

definition has_process :: "checkpoint_manifest \<Rightarrow> bool" where
  "has_process m = (mf_process_artifacts m \<noteq> [])"

definition not_ahead :: "int option \<Rightarrow> checkpoint_manifest \<Rightarrow> bool" where
  "not_ahead cursor m =
     (has_process m \<and> (case cursor of None \<Rightarrow> True | Some c \<Rightarrow> committed_trace_cursor (mf_metadata m) \<le> c))"

lemma latest_process_loop_eq:
  "latest_process_loop cursor ms newest =
     (case find (not_ahead cursor) ms of
        Some m \<Rightarrow> Some m
      | None \<Rightarrow> (case newest of Some m \<Rightarrow> Some m | None \<Rightarrow> find has_process ms))"
proof (induction ms arbitrary: newest)
  case Nil
  then show ?case by (simp split: option.split)
next
  case (Cons m ms)
  show ?case
  proof (cases "has_process m")
    case False
    then have "latest_process_loop cursor (m # ms) newest = latest_process_loop cursor ms newest"
      and "\<not> not_ahead cursor m" by (simp_all add: not_ahead_def has_process_def)
    then show ?thesis using Cons.IH [of newest] False by (simp split: option.split)
  next
    case True
    then have "latest_process_loop cursor (m # ms) newest =
        (if not_ahead cursor m then Some m
         else latest_process_loop cursor ms (case newest of None \<Rightarrow> Some m | Some x \<Rightarrow> Some x))"
      by (simp add: not_ahead_def has_process_def Let_def split: option.split)
    then show ?thesis
      using True Cons.IH [of "case newest of None \<Rightarrow> Some m | Some x \<Rightarrow> Some x"]
      by (simp split: option.split)
  qed
qed

lemma latest_process_eq:
  "latest_process_manifest_for_restore ms fs =
     (let cursor = map_option (\<lambda>m. committed_trace_cursor (mf_metadata m)) fs in
      case find (not_ahead cursor) (rev ms) of Some m \<Rightarrow> Some m | None \<Rightarrow> find has_process (rev ms))"
  by (simp add: latest_process_manifest_for_restore_def latest_process_loop_eq Let_def split: option.split)

lemma find_Some_set: "find P xs = Some x \<Longrightarrow> x \<in> set xs \<and> P x"
  by (induction xs) (auto split: if_splits)

lemma find_None_set: "find P xs = None \<Longrightarrow> x \<in> set xs \<Longrightarrow> \<not> P x"
  by (auto simp: find_None_iff)

lemma named_source_half:
  assumes "named_source env st current raw cs h = Inr m"
  shows "half_artifacts h m \<noteq> [] \<and>
     (mf_checkpoint_id m = pystr raw \<or> get_manifest env st (mf_sandbox_id current) (pystr raw) = Inr m)"
  using assms
  by (auto simp: named_source_def checkpoint_id_of_def restore_source_manifest_def
      dest!: find_Some_set split: if_splits option.splits sum.splits)

lemma latest_process_choice:
  assumes "latest_process_manifest_for_restore cs fm = pm"
  shows "(pm = None \<longrightarrow> (\<forall>c \<in> set cs. mf_process_artifacts c = []))
     \<and> (\<forall>p f. pm = Some p \<longrightarrow> fm = Some f \<longrightarrow> mf_process_artifacts p \<noteq> []
          \<and> (committed_trace_cursor (mf_metadata p) \<le> committed_trace_cursor (mf_metadata f)
             \<or> (\<forall>c \<in> set cs. mf_process_artifacts c \<noteq> [] \<longrightarrow>
                  committed_trace_cursor (mf_metadata f) < committed_trace_cursor (mf_metadata c))))"
proof -
  let ?cur = "map_option (\<lambda>m. committed_trace_cursor (mf_metadata m)) fm"
  show ?thesis
  proof (cases "find (not_ahead ?cur) (rev cs)")
    case None
    then have pm: "pm = find has_process (rev cs)" using assms by (simp add: latest_process_eq)
    have "\<forall>c \<in> set cs. \<not> not_ahead ?cur c" using find_None_set [OF None] by simp
    then have "\<forall>c \<in> set cs. has_process c \<longrightarrow> committed_trace_cursor (mf_metadata f)
        < committed_trace_cursor (mf_metadata c)" if "fm = Some f" for f
      using that by (simp add: not_ahead_def not_le)
    then show ?thesis
      using find_None_set [of has_process "rev cs"] find_Some_set [of has_process "rev cs"] unfolding pm
      by (simp add: has_process_def)
  next
    case (Some p)
    then have "pm = Some p" using assms by (simp add: latest_process_eq)
    then show ?thesis using find_Some_set [OF Some] by (auto simp: not_ahead_def has_process_def)
  qed
qed

text \<open>The resolved manifest as a function of the current candidate and the two sources.\<close>

definition resolved_with ::
  "storage_env \<Rightarrow> checkpoint_manifest \<Rightarrow> checkpoint_manifest option \<Rightarrow> checkpoint_manifest option \<Rightarrow> checkpoint_manifest" where
  "resolved_with env current pm fm =
     with_integrity (manifest_digest env) (current\<lparr>
       mf_process_artifacts := (case pm of None \<Rightarrow> [] | Some m \<Rightarrow> mf_process_artifacts m),
       mf_filesystem_artifacts := (case fm of None \<Rightarrow> [] | Some m \<Rightarrow> mf_filesystem_artifacts m),
       mf_metadata := copy_process_restore_metadata
         (gap_metadata pm fm (source_metadata ''filesystem'' fm (source_metadata ''process'' pm (mf_metadata current))))
         (case pm of None \<Rightarrow> Map.empty | Some m \<Rightarrow> mf_metadata m),
       mf_parent_checkpoint_id :=
         (case pm of None \<Rightarrow> mf_parent_checkpoint_id current | Some m \<Rightarrow> mf_parent_checkpoint_id m),
       mf_process_kind := (case pm of None \<Rightarrow> mf_process_kind current | Some m \<Rightarrow> mf_process_kind m)\<rparr>)"

lemma resolve_with:
  "resolve_restore_manifest env st m given =
     (case restore_candidates env st m given of
        Inl e \<Rightarrow> Inl e
      | Inr cs \<Rightarrow>
          let current = (if cs = [] then m else last cs) in
          case restore_halves env st current cs of
            Inl e \<Rightarrow> Inl e
          | Inr (pm, fm) \<Rightarrow> Inr (resolved_with env current pm fm))"
  by (simp add: resolve_restore_manifest_def resolved_with_def Let_def split: sum.split)

lemma resolved_with_fields [simp]:
  "mf_sandbox_id (resolved_with env m pm fm) = mf_sandbox_id m"
  "mf_checkpoint_id (resolved_with env m pm fm) = mf_checkpoint_id m"
  "mf_parent_checkpoint_id (resolved_with env m pm fm) =
     (case pm of None \<Rightarrow> mf_parent_checkpoint_id m | Some p \<Rightarrow> mf_parent_checkpoint_id p)"
  by (simp_all add: resolved_with_def with_integrity_def)

lemma copy_key_other: "k \<noteq> k' \<Longrightarrow> copy_key src k md k' = md k'"
  by (simp add: copy_key_def split: option.split)

lemma resolved_sources:
  "pm = Some p \<Longrightarrow> meta_get (mf_metadata (resolved_with env m pm fm)) ''process_restore_checkpoint_id''
     = Some (PStr (mf_checkpoint_id p))"
  "fm = Some f \<Longrightarrow> meta_get (mf_metadata (resolved_with env m pm fm)) ''filesystem_restore_checkpoint_id''
     = Some (PStr (mf_checkpoint_id f))"
  by (simp_all add: resolved_with_def with_integrity_def copy_process_restore_metadata_def copy_key_other
      gap_metadata_def source_metadata_def Let_def meta_get_def split: option.split)

text \<open>An incremental chain that is all there, with the number of steps to its root.\<close>

inductive chain_intact ::
  "storage_env \<Rightarrow> store \<Rightarrow> (checkpoint_id \<Rightarrow> string option) \<Rightarrow> (string \<Rightarrow> bool) \<Rightarrow> sandbox_id
     \<Rightarrow> nat \<Rightarrow> checkpoint_manifest \<Rightarrow> bool"
  for env st pre_dump path_exists sid where
  intact_root: "mf_parent_checkpoint_id m = None \<Longrightarrow> chain_intact env st pre_dump path_exists sid 0 m"
| intact_full: "\<lbrakk>mf_parent_checkpoint_id m = Some p; pre_dump p = Some path; path_exists path;
    get_manifest env st sid p = Inr pm; mf_process_kind pm = ''full''\<rbrakk>
    \<Longrightarrow> chain_intact env st pre_dump path_exists sid 0 m"
| intact_step: "\<lbrakk>mf_parent_checkpoint_id m = Some p; pre_dump p = Some path; path_exists path;
    get_manifest env st sid p = Inr pm; mf_process_kind pm \<noteq> ''full'';
    chain_intact env st pre_dump path_exists sid n pm\<rbrakk>
    \<Longrightarrow> chain_intact env st pre_dump path_exists sid (Suc n) m"

lemma chain_intact_unique:
  "chain_intact env st pd pe sid n m \<Longrightarrow> chain_intact env st pd pe sid k m \<Longrightarrow> n = k"
proof (induction arbitrary: k rule: chain_intact.induct)
  case (intact_root m)
  from intact_root.prems show ?case by (cases rule: chain_intact.cases) (use intact_root.hyps in simp_all)
next
  case (intact_full m p path pm)
  from intact_full.prems show ?case by (cases rule: chain_intact.cases) (use intact_full.hyps in simp_all)
next
  case (intact_step m p path pm n)
  note hyps = intact_step.hyps and IH = intact_step.IH
  from intact_step.prems show ?case
  proof (cases rule: chain_intact.cases)
    case (intact_step p' path' pm' n')
    then have "pm' = pm" using hyps(1,4) by simp
    then show ?thesis using IH [of n'] intact_step(1,7) by simp
  qed (use hyps in simp_all)
qed

lemma validate_chain_parent:
  assumes "validate_chain env st pd pe sid visited m = Inr ()" and "mf_parent_checkpoint_id m = Some p"
  obtains path pm where "p \<notin> set visited" "pd p = Some path" "pe path" "get_manifest env st sid p = Inr pm"
    "mf_process_kind pm = ''full'' \<or> validate_chain env st pd pe sid (p # visited) pm = Inr ()"
  using assms validate_chain.simps [of env st pd pe sid visited m] that
  by (simp split: if_splits option.splits sum.splits)

lemma validate_chain_sound:
  "validate_chain env st pd pe sid visited m = Inr () \<Longrightarrow> \<exists>n. chain_intact env st pd pe sid n m"
proof (induction env st pd pe sid visited m rule: validate_chain.induct)
  case (1 env st pd pe sid visited m)
  show ?case
  proof (cases "mf_parent_checkpoint_id m")
    case None
    then show ?thesis by (auto intro: intact_root)
  next
    case (Some p)
    obtain path pm where pm: "p \<notin> set visited" "pd p = Some path" "pe path" "get_manifest env st sid p = Inr pm"
      "mf_process_kind pm = ''full'' \<or> validate_chain env st pd pe sid (p # visited) pm = Inr ()"
      using validate_chain_parent [OF 1(2) Some] by blast
    show ?thesis
    proof (cases "mf_process_kind pm = ''full''")
      case True
      then show ?thesis using Some pm by (auto intro: intact_full)
    next
      case False
      then obtain n where "chain_intact env st pd pe sid n pm"
        using 1(1) [OF Some pm(1,2)] pm by auto
      then show ?thesis using Some pm False by (auto intro: intact_step)
    qed
  qed
qed

lemma validate_chain_complete:
  assumes "chain_intact env st pd pe sid n m"
    and "\<forall>v \<in> set visited. \<exists>pv k. get_manifest env st sid v = Inr pv \<and> mf_process_kind pv \<noteq> ''full''
           \<and> chain_intact env st pd pe sid k pv \<and> n \<le> k"
  shows "validate_chain env st pd pe sid visited m = Inr ()"
  using assms
proof (induction arbitrary: visited rule: chain_intact.induct)
  case (intact_root m)
  then show ?case by (subst validate_chain.simps) simp
next
  case (intact_full m p path pm)
  then have "p \<notin> set visited" by force
  then show ?case using intact_full by (subst validate_chain.simps) simp
next
  case (intact_step m p path pm n)
  have "p \<notin> set visited"
  proof
    assume "p \<in> set visited"
    then obtain k where "chain_intact env st pd pe sid k pm" "Suc n \<le> k"
      using intact_step.prems intact_step.hyps(4) by force
    then show False using chain_intact_unique [OF intact_step.hyps(6)] by fastforce
  qed
  moreover have "validate_chain env st pd pe sid (p # visited) pm = Inr ()"
  proof (rule intact_step.IH)
    show "\<forall>v\<in>set (p # visited). \<exists>pv k. get_manifest env st sid v = Inr pv \<and> mf_process_kind pv \<noteq> ''full''
        \<and> chain_intact env st pd pe sid k pv \<and> n \<le> k"
    proof
      fix v
      assume "v \<in> set (p # visited)"
      then consider "v = p" | "v \<in> set visited" by auto
      then show "\<exists>pv k. get_manifest env st sid v = Inr pv \<and> mf_process_kind pv \<noteq> ''full''
          \<and> chain_intact env st pd pe sid k pv \<and> n \<le> k"
      proof cases
        case 1
        then show ?thesis using intact_step.hyps(4-6) by blast
      next
        case 2
        then show ?thesis using intact_step.prems Suc_leD by blast
      qed
    qed
  qed
  ultimately show ?case using intact_step.hyps by (subst validate_chain.simps) simp
qed

section \<open>Properties\<close>





definition demo_full :: "checkpoint_id \<Rightarrow> instant \<Rightarrow> checkpoint_manifest" where
  "demo_full cid t = (demo_manifest cid t None)\<lparr>
     mf_process_artifacts := [\<lparr>ref_kind = PROCESS, ref_name = ''p'', ref_relative_path = (''sb1'', cid, PROCESS, ''p''),
       ref_size_bytes = 1, ref_sha256 = ''x'', ref_metadata = Map.empty\<rparr>],
     mf_filesystem_artifacts := [\<lparr>ref_kind = FILESYSTEM, ref_name = ''f'', ref_relative_path = (''sb1'', cid, FILESYSTEM, ''f''),
       ref_size_bytes = 1, ref_sha256 = ''y'', ref_metadata = Map.empty\<rparr>]\<rparr>"

lemma demo_full_fields [simp]:
  "mf_checkpoint_id (demo_full cid t) = cid" "mf_sandbox_id (demo_full cid t) = ''sb1''"
  "mf_created_at (demo_full cid t) = t" "mf_process_artifacts (demo_full cid t) \<noteq> []"
  "mf_filesystem_artifacts (demo_full cid t) \<noteq> []" "mf_parent_checkpoint_id (demo_full cid t) = None"
  "mf_metadata (demo_full cid t) = Map.empty" "mf_schema_version (demo_full cid t) = ''v1''"
  "mf_integrity (demo_full cid t) = Map.empty(''manifest_sha256'' \<mapsto> ''h'')"
  by (simp_all add: demo_full_def demo_manifest_def)

end
