(* ===== verification/Retention.thy ===== *)
theory Retention
  imports Restore
begin

text \<open>
  The retention managers of \<^verbatim>\<open>crab/storage/policies.py\<close> over the local store: pinned checkpoints, the set of
  checkpoints a prune must keep (\<open>_protected_checkpoint_ids\<close>), pruning, and the three policies that decide
  when it runs.  The lemmas show that pruning never touches a protected checkpoint and leaves the restore
  of the newest checkpoint unchanged.
\<close>

section \<open>Pins\<close>

text \<open>Reference counts of pinned checkpoints per sandbox.\<close>

type_synonym pins = "sandbox_id \<Rightarrow> (checkpoint_id \<times> int) list"

definition pin_count :: "pins \<Rightarrow> sandbox_id \<Rightarrow> checkpoint_id \<Rightarrow> int" where
  "pin_count pins sid cid = (case map_of (pins sid) cid of None \<Rightarrow> 0 | Some n \<Rightarrow> n)"

definition pin_checkpoint ::
  "storage_env \<Rightarrow> store \<Rightarrow> sandbox_id \<Rightarrow> checkpoint_id \<Rightarrow> pins \<Rightarrow> bool res \<times> pins" where
  "pin_checkpoint env st sid cid pins =
     (case get_manifest env st sid cid of
        Inl FileNotFoundError \<Rightarrow> (Inr False, pins)
      | Inl e \<Rightarrow> (Inl e, pins)
      | Inr _ \<Rightarrow> (Inr True, pins(sid := AList.update cid (pin_count pins sid cid + 1) (pins sid))))"

definition unpin_checkpoint :: "sandbox_id \<Rightarrow> checkpoint_id \<Rightarrow> pins \<Rightarrow> pins" where
  "unpin_checkpoint sid cid pins =
     (if pins sid = [] then pins
      else
        let current = pin_count pins sid cid in
        if current \<le> 1 then pins(sid := AList.delete cid (pins sid))
        else pins(sid := AList.update cid (current - 1) (pins sid)))"

text \<open>\<open>pin_chain\<close>: the loop over the parent chain, with the ids pinned so far for the roll-back.  It ends
  because each round visits another stored manifest.\<close>

function pin_chain_loop ::
  "storage_env \<Rightarrow> store \<Rightarrow> sandbox_id \<Rightarrow> checkpoint_id option \<Rightarrow> checkpoint_id list \<Rightarrow> pins \<Rightarrow> bool res \<times> pins" where
  "pin_chain_loop env st sid current seen pins =
     (case current of
        None \<Rightarrow> (Inr True, pins)
      | Some c \<Rightarrow>
          if c \<in> set seen then (Inr True, pins)
          else case get_manifest env st sid c of
            Inl FileNotFoundError \<Rightarrow> (Inr False, fold (unpin_checkpoint sid) (rev seen) pins)
          | Inl e \<Rightarrow> (Inl e, pins)
          | Inr m \<Rightarrow> pin_chain_loop env st sid (mf_parent_checkpoint_id m) (c # seen)
                       (snd (pin_checkpoint env st sid c pins)))"
  by pat_completeness auto
termination
proof (relation "measure (\<lambda>(env, st, sid, current, seen, pins).
    card (set (map (snd \<circ> fst) (man_files st)) - set seen))", goal_cases)
  case (2 env st sid current seen pins c m)
  have "c \<in> set (map (snd \<circ> fst) (man_files st))"
    using 2(3) by (force simp: get_manifest_def dest: map_of_SomeD split: option.splits)
  then have "set (map (snd \<circ> fst) (man_files st)) - set (c # seen)
      \<subset> set (map (snd \<circ> fst) (man_files st)) - set seen" using 2(2) by auto
  then show ?case by (simp add: psubset_card_mono)
qed simp

declare pin_chain_loop.simps [simp del]

definition pin_chain ::
  "storage_env \<Rightarrow> store \<Rightarrow> sandbox_id \<Rightarrow> checkpoint_id \<Rightarrow> pins \<Rightarrow> bool res \<times> pins" where
  "pin_chain env st sid leaf pins =
     (case get_manifest env st sid leaf of
        Inl FileNotFoundError \<Rightarrow> (Inr False, pins)
      | Inl e \<Rightarrow> (Inl e, pins)
      | Inr _ \<Rightarrow> pin_chain_loop env st sid (Some leaf) [] pins)"

function unpin_chain_loop ::
  "storage_env \<Rightarrow> store \<Rightarrow> sandbox_id \<Rightarrow> checkpoint_id option \<Rightarrow> checkpoint_id list \<Rightarrow> pins \<Rightarrow> unit res \<times> pins" where
  "unpin_chain_loop env st sid current seen pins =
     (case current of
        None \<Rightarrow> (Inr (), pins)
      | Some c \<Rightarrow>
          if c \<in> set seen then (Inr (), pins)
          else
            let pins' = unpin_checkpoint sid c pins in
            case get_manifest env st sid c of
              Inl FileNotFoundError \<Rightarrow> (Inr (), pins')
            | Inl e \<Rightarrow> (Inl e, pins')
            | Inr m \<Rightarrow> unpin_chain_loop env st sid (mf_parent_checkpoint_id m) (c # seen) pins')"
  by pat_completeness auto
termination
proof (relation "measure (\<lambda>(env, st, sid, current, seen, pins).
    card (set (map (snd \<circ> fst) (man_files st)) - set seen))", goal_cases)
  case (2 env st sid current seen pins c pins' m)
  have "c \<in> set (map (snd \<circ> fst) (man_files st))"
    using 2(4) by (force simp: get_manifest_def dest: map_of_SomeD split: option.splits)
  then have "set (map (snd \<circ> fst) (man_files st)) - set (c # seen)
      \<subset> set (map (snd \<circ> fst) (man_files st)) - set seen" using 2(2) by auto
  then show ?case by (simp add: psubset_card_mono)
qed simp

declare unpin_chain_loop.simps [simp del]

definition unpin_chain :: "storage_env \<Rightarrow> store \<Rightarrow> sandbox_id \<Rightarrow> checkpoint_id \<Rightarrow> pins \<Rightarrow> unit res \<times> pins" where
  "unpin_chain env st sid leaf pins = unpin_chain_loop env st sid (Some leaf) [] pins"

section \<open>The protected set\<close>

text \<open>\<open>_manifest_snapshot\<close>: the listing with the manifests that can be loaded; one that has disappeared is
  skipped, any other failure is raised.  Manifests are keyed by the id they are listed under.\<close>

fun load_listed ::
  "storage_env \<Rightarrow> store \<Rightarrow> sandbox_id \<Rightarrow> checkpoint_id list \<Rightarrow> (checkpoint_id \<times> checkpoint_manifest) list res" where
  "load_listed env st sid [] = Inr []"
| "load_listed env st sid (c # cs) =
     (case get_manifest env st sid c of
        Inl FileNotFoundError \<Rightarrow> load_listed env st sid cs
      | Inl e \<Rightarrow> Inl e
      | Inr m \<Rightarrow> (case load_listed env st sid cs of Inl e \<Rightarrow> Inl e | Inr ms \<Rightarrow> Inr ((c, m) # ms)))"

definition manifest_snapshot ::
  "storage_env \<Rightarrow> store \<Rightarrow> sandbox_id
     \<Rightarrow> (checkpoint_id list \<times> (checkpoint_id \<times> checkpoint_manifest) list) res" where
  "manifest_snapshot env st sid =
     (let ids = list_checkpoints st sid in
      case load_listed env st sid ids of Inl e \<Rightarrow> Inl e | Inr ms \<Rightarrow> Inr (ids, ms))"

definition by_id :: "(checkpoint_id \<times> checkpoint_manifest) list \<Rightarrow> checkpoint_id \<Rightarrow> checkpoint_manifest option" where
  "by_id ms c = map_of (rev ms) c"

definition latest_id :: "(checkpoint_manifest \<Rightarrow> bool) \<Rightarrow> checkpoint_manifest list \<Rightarrow> checkpoint_id list" where
  "latest_id P ms = (case find P (rev ms) of None \<Rightarrow> [] | Some m \<Rightarrow> [mf_checkpoint_id m])"

definition restore_dependency_ids ::
  "storage_env \<Rightarrow> store \<Rightarrow> sandbox_id \<Rightarrow> checkpoint_id \<Rightarrow> (checkpoint_id \<times> checkpoint_manifest) list
     \<Rightarrow> checkpoint_id list" where
  "restore_dependency_ids env st sid cid ms =
     (case (case by_id ms cid of Some m \<Rightarrow> Inr m | None \<Rightarrow> get_manifest env st sid cid) of
        Inl _ \<Rightarrow> []
      | Inr m \<Rightarrow>
          (case resolve_restore_manifest env st m (Some (map snd ms)) of
             Inl _ \<Rightarrow> []
           | Inr resolved \<Rightarrow>
               cid # List.map_filter (\<lambda>k. map_option pystr (meta_get (mf_metadata resolved) k)) source_keys))"

text \<open>The parent chain of one protected checkpoint.\<close>

function ancestors ::
  "(checkpoint_id \<times> checkpoint_manifest) list \<Rightarrow> checkpoint_manifest option \<Rightarrow> checkpoint_id list \<Rightarrow> checkpoint_id list" where
  "ancestors ms chain seen =
     (case chain of
        None \<Rightarrow> seen
      | Some m \<Rightarrow>
          (case mf_parent_checkpoint_id m of
             None \<Rightarrow> seen
           | Some p \<Rightarrow> if p \<in> set seen then seen
                       else ancestors ms (by_id ms p) (p # seen)))"
  by pat_completeness auto
termination
proof (relation "inv_image (less_than <*lex*> less_than)
    (\<lambda>(ms, chain, seen). (card (set (map fst ms) - set seen), if chain = None then 0 else 1))", goal_cases)
  case 1
  show ?case by (intro wf_inv_image wf_lex_prod wf_less_than)
next
  case (2 ms chain seen m p)
  show ?case
  proof (cases "by_id ms p")
    case None
    have "card (set (map fst ms) - set (p # seen)) \<le> card (set (map fst ms) - set seen)"
      by (intro card_mono) auto
    then show ?thesis using 2(1) None by auto
  next
    case (Some q)
    then have "p \<in> set (map fst ms)" by (force simp: by_id_def dest!: map_of_SomeD)
    then have "set (map fst ms) - set (p # seen) \<subset> set (map fst ms) - set seen" using 2(3) by auto
    then show ?thesis using psubset_card_mono [of "set (map fst ms) - set seen"] by simp
  qed
qed

declare ancestors.simps [simp del]

definition base_protected ::
  "storage_env \<Rightarrow> store \<Rightarrow> pins \<Rightarrow> sandbox_id \<Rightarrow> (checkpoint_id \<times> checkpoint_manifest) list \<Rightarrow> checkpoint_id list" where
  "base_protected env st pins sid ms =
     (let manifests = map snd ms;
          latest = latest_id (\<lambda>_. True) manifests
      in latest
         @ latest_id (\<lambda>m. mf_process_artifacts m \<noteq> []) manifests
         @ latest_id (\<lambda>m. mf_filesystem_artifacts m \<noteq> []) manifests
         @ concat (map (\<lambda>c. restore_dependency_ids env st sid c ms) latest)
         @ map fst (pins sid))"

definition protected_checkpoint_ids ::
  "storage_env \<Rightarrow> store \<Rightarrow> pins \<Rightarrow> sandbox_id \<Rightarrow> (checkpoint_id \<times> checkpoint_manifest) list \<Rightarrow> checkpoint_id list" where
  "protected_checkpoint_ids env st pins sid ms =
     (let base = base_protected env st pins sid ms in
      base @ concat (map (\<lambda>c. ancestors ms (by_id ms c) []) base))"

text \<open>\<open>LatestOnlyCheckpointManager\<close> adds every filesystem checkpoint unless it may delete them.\<close>

definition latest_only_protected ::
  "bool \<Rightarrow> storage_env \<Rightarrow> store \<Rightarrow> pins \<Rightarrow> sandbox_id \<Rightarrow> (checkpoint_id \<times> checkpoint_manifest) list \<Rightarrow> checkpoint_id list" where
  "latest_only_protected delete_filesystem env st pins sid ms =
     protected_checkpoint_ids env st pins sid ms
     @ (if delete_filesystem then []
        else map mf_checkpoint_id (filter (\<lambda>m. mf_filesystem_artifacts m \<noteq> []) (map snd ms)))"

section \<open>Pruning\<close>

definition prune_unprotected :: "bool \<Rightarrow> storage_env \<Rightarrow> pins \<Rightarrow> sandbox_id \<Rightarrow> (store, unit) act" where
  "prune_unprotected delete_filesystem env pins sid =
     act_bind (act_read (\<lambda>st. manifest_snapshot env st sid)) (\<lambda>(ids, ms).
     act_bind (act_read (\<lambda>st. Inr (latest_only_protected delete_filesystem env st pins sid ms))) (\<lambda>protected.
       delete_each env sid (filter (\<lambda>c. c \<notin> set protected) (rev ids))))"

text \<open>\<open>DeleteAfterRestoreCheckpointManager\<close>: what its \<open>handle_restore_complete\<close> does.\<close>

definition delete_after_restore :: "storage_env \<Rightarrow> sandbox_id \<Rightarrow> (store, unit) act" where
  "delete_after_restore env sid =
     act_bind (act_read (\<lambda>st. Inr (rev (list_checkpoints st sid)))) (delete_each env sid)"

section \<open>What a prune can change\<close>

lemma art_files_runtime [simp]:
  "art_files (remove_runtime_dir env p st) = art_files st"
  "art_files (delete_process_runtime_paths env v st) = art_files st"
  "art_files (delete_filesystem_runtime_paths env v st) = art_files st"
proof -
  show *: "art_files (remove_runtime_dir env p st) = art_files st" for p st
    by (simp add: remove_runtime_dir_def split: option.splits runtime_node.splits)
  show "art_files (delete_process_runtime_paths env v st) = art_files st"
    by (simp add: delete_process_runtime_paths_def Let_def *)
  show "art_files (delete_filesystem_runtime_paths env v st) = art_files st"
    by (simp add: delete_filesystem_runtime_paths_def Let_def split: option.splits)
qed

lemma delete_references_keeps_artifacts [act_keeps_intros]:
  "act_keeps art_files (delete_runtime_references env rs)"
proof (induction rs)
  case (Cons r rs)
  have "act_keeps art_files (act_update (\<lambda>st. Inr (delete_process_runtime_paths env v st)))"
    "act_keeps art_files (act_update (\<lambda>st. Inr (delete_filesystem_runtime_paths env v st)))" for v
    by (simp_all add: act_keeps_def act_update_def)
  then show ?case using Cons.IH by (auto intro!: act_keeps_intros split: option.splits artifact_kind.splits)
qed (simp add: act_keeps_intros)

lemma erase_artifacts:
  assumes "erase_checkpoint env sid cid mo st = (r, st')"
  shows "art_files st' = (if r = Inr () then filter (\<lambda>((s, c, _), _). \<not> (s = sid \<and> c = cid)) (art_files st)
     else art_files st)"
proof -
  have keep: "act_keeps art_files (case mo of None \<Rightarrow> act_return ()
      | Some m \<Rightarrow> delete_runtime_references env (mf_process_artifacts m @ mf_filesystem_artifacts m))"
    by (cases mo) (simp_all add: act_keeps_intros)
  show ?thesis
    using assms act_keepsD [OF keep, of st]
    by (auto simp: erase_checkpoint_def act_bind_def act_update_def split: prod.splits sum.splits)
qed

lemma delete_leaf_artifacts:
  assumes "delete_leaf env sid cid st = (r, st')"
  shows "art_files st' = (if r = Inr () then filter (\<lambda>((s, c, _), _). \<not> (s = sid \<and> c = cid)) (art_files st)
     else art_files st)"
proof (cases "erase_checkpoint env sid cid (case fst (manifest_if_exists env sid cid st) of Inr mo \<Rightarrow> mo | _ \<Rightarrow> None) st = (r, st')")
  case True
  then show ?thesis by (rule erase_artifacts)
next
  case False
  then show ?thesis using assms
    by (auto simp: delete_leaf_def act_bind_def manifest_if_exists_def split: prod.splits sum.splits if_splits)
qed

text \<open>Whatever the outcome, a sequence of deletions removes exactly the files of some of the listed
  checkpoints and touches nothing of any other checkpoint.\<close>

definition removed :: "sandbox_id \<Rightarrow> checkpoint_id set \<Rightarrow> store \<Rightarrow> store \<Rightarrow> bool" where
  "removed sid D st st' =
     (man_files st' = filter (\<lambda>f. fst f \<notin> Pair sid ` D) (man_files st)
      \<and> art_files st' = filter (\<lambda>f. (fst (fst f), fst (snd (fst f))) \<notin> Pair sid ` D) (art_files st))"

lemma removed_trans:
  assumes "removed sid D st st'" and "removed sid E st' st''"
  shows "removed sid (D \<union> E) st st''"
  using assms unfolding removed_def image_Un by (simp add: conj_commute)

lemma delete_leaf_removed:
  assumes "delete_leaf env sid c st = (r, st')"
  shows "removed sid (if r = Inr () then {c} else {}) st st'"
proof (cases "r = Inr ()")
  case True
  have "man_files st' = filter (\<lambda>f. fst f \<notin> Pair sid ` {c}) (man_files st)"
    using delete_leaf_effect [OF assms] True by (auto simp: AList.delete_eq intro!: filter_cong)
  moreover have "art_files st' = filter (\<lambda>f. (fst (fst f), fst (snd (fst f))) \<notin> Pair sid ` {c}) (art_files st)"
    using delete_leaf_artifacts [OF assms] True by (auto intro!: filter_cong)
  ultimately show ?thesis using True by (simp add: removed_def)
next
  case False
  then show ?thesis using delete_leaf_effect [OF assms] delete_leaf_artifacts [OF assms] by (simp add: removed_def)
qed

lemma delete_each_removed:
  "delete_each env sid cs st = (r, st') \<Longrightarrow> \<exists>D. D \<subseteq> set cs \<and> (r = Inr () \<longrightarrow> D = set cs) \<and> removed sid D st st'"
proof (induction cs arbitrary: st)
  case Nil
  then show ?case by (auto simp: removed_def)
next
  case (Cons c cs)
  obtain r1 st1 where l: "delete_leaf env sid c st = (r1, st1)" by force
  note rm = delete_leaf_removed [OF l]
  show ?case
  proof (cases r1)
    case (Inl e)
    then have "r = Inl e" "st' = st1" using Cons.prems l by (simp_all add: act_bind_def)
    then show ?thesis using rm Inl by (intro exI [of _ "{}"]) simp
  next
    case (Inr u)
    then have "delete_each env sid cs st1 = (r, st')" using Cons.prems l by (simp add: act_bind_def)
    then obtain D where D: "D \<subseteq> set cs" "r = Inr () \<longrightarrow> D = set cs" "removed sid D st1 st'" using Cons.IH by blast
    moreover have "removed sid {c} st st1" using rm Inr by simp
    ultimately show ?thesis
      using removed_trans [of sid "{c}" st st1 D st'] by (intro exI [of _ "{c} \<union> D"]) auto
  qed
qed

lemma map_of_filter_key: "P k \<Longrightarrow> map_of (filter (\<lambda>f. P (fst f)) fs) k = map_of fs k"
  by (induction fs) auto

lemma removed_keeps:
  assumes "removed sid D st st'" and "(s, c) \<notin> Pair sid ` D"
  shows "get_manifest env st' s c = get_manifest env st s c"
    and "map_of (art_files st') (s, c, k) = map_of (art_files st) (s, c, k)"
proof -
  have "map_of (man_files st') (s, c) = map_of (man_files st) (s, c)"
    using assms map_of_filter_key [of "\<lambda>k. k \<notin> Pair sid ` D"] by (simp add: removed_def)
  then show "get_manifest env st' s c = get_manifest env st s c" by (simp add: get_manifest_def)
  show "map_of (art_files st') (s, c, k) = map_of (art_files st) (s, c, k)"
    using assms map_of_filter_key [of "\<lambda>p. (fst p, fst (snd p)) \<notin> Pair sid ` D" "(s, c, k)"]
    by (simp add: removed_def)
qed

text \<open>The listing of the manifests, oldest first.\<close>

definition listing :: "store \<Rightarrow> sandbox_id \<Rightarrow> checkpoint_manifest list" where
  "listing st sid = sort_key (\<lambda>m. isoformat (mf_created_at m)) (manifests_of st sid)"

lemma list_checkpoints_listing: "list_checkpoints st sid = map mf_checkpoint_id (listing st sid)"
  by (simp add: list_checkpoints_def listing_def)

lemma readable_removed:
  assumes "\<forall>s c m. ((s, c), Readable m) \<in> set fs \<longrightarrow> mf_checkpoint_id m = c"
  shows "readable sid (filter (\<lambda>f. fst f \<notin> Pair sid ` D) fs) = filter (\<lambda>m. mf_checkpoint_id m \<notin> D) (readable sid fs)"
  using assms
proof (induction sid fs rule: readable.induct)
  case (2 sid s d f fs)
  have wf: "\<forall>s c m. ((s, c), Readable m) \<in> set fs \<longrightarrow> mf_checkpoint_id m = c" using 2(4) by (meson list.set_intros(2))
  show ?case
  proof (cases f)
    case Unreadable
    then show ?thesis using 2(1) [OF _ wf] by simp
  next
    case (Readable m)
    then have "mf_checkpoint_id m = d" using 2(4) by (meson list.set_intros(1))
    then show ?thesis using 2(2) [OF Readable _ wf] 2(3) [OF Readable _ wf] Readable by (cases "s = sid") auto
  qed
qed simp

lemma listing_removed:
  assumes "store_wf st" and "removed sid D st st'"
  shows "listing st' sid = filter (\<lambda>m. mf_checkpoint_id m \<notin> D) (listing st sid)"
  using assms readable_removed [of "man_files st" sid D]
  by (simp add: listing_def removed_def store_wf_def filter_sort)

lemma listing_get:
  assumes "store_wf st" and "m \<in> set (listing st sid)"
  shows "map_of (man_files st) (sid, mf_checkpoint_id m) = Some (Readable m)" and "mf_sandbox_id m = sid"
proof -
  obtain c where c: "((sid, c), Readable m) \<in> set (man_files st)"
    using assms(2) by (auto simp: listing_def set_readable)
  then have "mf_sandbox_id m = sid \<and> mf_checkpoint_id m = c" using assms(1) by (simp add: store_wf_def)
  then show "map_of (man_files st) (sid, mf_checkpoint_id m) = Some (Readable m)" "mf_sandbox_id m = sid"
    using c assms(1) by (simp_all add: store_wf_def)
qed

lemma get_in_listing:
  assumes "store_wf st" and "get_manifest env st sid c = Inr m"
  shows "m \<in> set (listing st sid) \<and> mf_checkpoint_id m = c"
proof -
  have "((sid, c), Readable m) \<in> set (man_files st)"
    using assms(2) by (auto simp: get_manifest_def dest: map_of_SomeD split: option.splits manifest_file.splits sum.splits)
  then show ?thesis using assms(1) by (auto simp: listing_def set_readable store_wf_def)
qed

lemma listing_distinct: "store_wf st \<Longrightarrow> distinct (map mf_checkpoint_id (listing st sid))"
  using manifest_ids_distinct [of st sid] by (simp add: listing_def distinct_map)

section \<open>The snapshot and the protected set\<close>

definition keyed :: "checkpoint_manifest list \<Rightarrow> (checkpoint_id \<times> checkpoint_manifest) list" where
  "keyed xs = map (\<lambda>m. (mf_checkpoint_id m, m)) xs"

lemma keyed_snd [simp]: "map snd (keyed xs) = xs"
  by (simp add: keyed_def comp_def)

lemma load_listed_keyed:
  assumes "store_wf st" and "set xs \<subseteq> set (listing st sid)"
    and "load_listed env st sid (map mf_checkpoint_id xs) = Inr ms"
  shows "ms = keyed xs \<and> get_all env st sid (map mf_checkpoint_id xs) = Inr xs"
  using assms(2,3)
proof (induction xs arbitrary: ms)
  case Nil
  then show ?case by (simp add: keyed_def)
next
  case (Cons x xs)
  have x: "map_of (man_files st) (sid, mf_checkpoint_id x) = Some (Readable x)"
    using listing_get(1) [OF assms(1)] Cons.prems(1) by simp
  then have "get_manifest env st sid (mf_checkpoint_id x) = Inr x"
    using Cons.prems(2)
    by (auto simp: get_manifest_def validate_manifest_def validate_schema_def validate_integrity_def
        split: sum.splits if_splits option.splits)
  then show ?case using Cons by (auto simp: keyed_def split: sum.splits)
qed

lemma snapshot_keyed:
  assumes "store_wf st" and "manifest_snapshot env st sid = Inr (ids, ms)"
  shows "ids = map mf_checkpoint_id (listing st sid)" and "ms = keyed (listing st sid)"
    and "get_all env st sid ids = Inr (listing st sid)"
  using assms(2) load_listed_keyed [OF assms(1) order.refl, of env]
  by (auto simp: manifest_snapshot_def Let_def list_checkpoints_listing split: sum.splits)

lemma by_id_keyed:
  assumes "distinct (map mf_checkpoint_id xs)"
  shows "by_id (keyed xs) c = Some m \<longleftrightarrow> m \<in> set xs \<and> mf_checkpoint_id m = c"
proof -
  have "distinct (map fst (rev (keyed xs)))" using assms by (simp add: keyed_def rev_map [symmetric] comp_def)
  then show ?thesis by (auto simp: by_id_def keyed_def)
qed

lemma ancestors_closed:
  assumes "\<forall>q \<in> set seen. \<forall>x p. by_id ms q = Some x \<longrightarrow> mf_parent_checkpoint_id x = Some p
             \<longrightarrow> p \<in> set seen \<or> chain = Some x"
  shows "set seen \<subseteq> set (ancestors ms chain seen)
       \<and> (\<forall>m p. chain = Some m \<longrightarrow> mf_parent_checkpoint_id m = Some p \<longrightarrow> p \<in> set (ancestors ms chain seen))
       \<and> (\<forall>q x p. q \<in> set (ancestors ms chain seen) \<longrightarrow> by_id ms q = Some x
             \<longrightarrow> mf_parent_checkpoint_id x = Some p \<longrightarrow> p \<in> set (ancestors ms chain seen))"
  using assms
proof (induction ms chain seen rule: ancestors.induct)
  case (1 ms chain seen)
  consider (stop) "\<forall>m p. chain = Some m \<longrightarrow> mf_parent_checkpoint_id m = Some p \<longrightarrow> p \<in> set seen"
    | (up) m p where "chain = Some m" "mf_parent_checkpoint_id m = Some p" "p \<notin> set seen"
    by blast
  then show ?case
  proof cases
    case stop
    then have "ancestors ms chain seen = seen" by (subst ancestors.simps) (auto split: option.split)
    then show ?thesis using 1(2) stop by (simp only: subset_refl simp_thms) blast
  next
    case up
    have "ancestors ms chain seen = ancestors ms (by_id ms p) (p # seen)"
      by (subst ancestors.simps) (simp add: up)
    moreover have "\<forall>q \<in> set (p # seen). \<forall>x r. by_id ms q = Some x \<longrightarrow> mf_parent_checkpoint_id x = Some r
        \<longrightarrow> r \<in> set (p # seen) \<or> by_id ms p = Some x"
      using 1(2) up by fastforce
    note IH = 1(1) [OF up this]
    ultimately show ?thesis using IH up(1,2) by auto
  qed
qed

text \<open>A protected checkpoint other than a kept filesystem checkpoint has all of its ancestors protected.\<close>

lemma base_chain_protected:
  assumes "c \<in> set (base_protected env st pins sid ms)" and "by_id ms c = Some m"
  shows "\<exists>A. A \<subseteq> set (protected_checkpoint_ids env st pins sid ms)
     \<and> (\<forall>p. mf_parent_checkpoint_id m = Some p \<longrightarrow> p \<in> A)
     \<and> (\<forall>q x p. q \<in> A \<longrightarrow> by_id ms q = Some x \<longrightarrow> mf_parent_checkpoint_id x = Some p \<longrightarrow> p \<in> A)"
proof -
  let ?A = "set (ancestors ms (by_id ms c) [])"
  have "?A \<subseteq> set (protected_checkpoint_ids env st pins sid ms)"
    using assms(1) by (auto simp: protected_checkpoint_ids_def Let_def)
  then show ?thesis using ancestors_closed [of "[]" ms "by_id ms c"] assms(2) by (intro exI [of _ ?A]) auto
qed

lemma protected_parent:
  assumes "c \<in> set (protected_checkpoint_ids env st pins sid ms)" and "by_id ms c = Some m"
    and "mf_parent_checkpoint_id m = Some p"
  shows "p \<in> set (protected_checkpoint_ids env st pins sid ms)"
proof (cases "c \<in> set (base_protected env st pins sid ms)")
  case True
  then show ?thesis using base_chain_protected [OF True assms(2)] assms(3) by blast
next
  case False
  then obtain b where b: "b \<in> set (base_protected env st pins sid ms)" "c \<in> set (ancestors ms (by_id ms b) [])"
    using assms(1) by (auto simp: protected_checkpoint_ids_def Let_def)
  then have "p \<in> set (ancestors ms (by_id ms b) [])"
    using ancestors_closed [of "[]" ms "by_id ms b"] assms(2,3) by auto
  then show ?thesis using b(1) by (auto simp: protected_checkpoint_ids_def Let_def)
qed

section \<open>Pin counts\<close>

text \<open>Stored counts are positive.\<close>

definition pins_wf :: "pins \<Rightarrow> bool" where
  "pins_wf pins = (\<forall>s c n. (c, n) \<in> set (pins s) \<longrightarrow> 1 \<le> n)"

lemma pin_count_nonneg: "pins_wf pins \<Longrightarrow> 0 \<le> pin_count pins s c"
  by (auto simp: pin_count_def pins_wf_def dest!: map_of_SomeD split: option.split) fastforce

lemma in_update: "x \<in> set (AList.update k v xs) \<Longrightarrow> x = (k, v) \<or> x \<in> set xs"
  by (induction xs) (auto split: if_splits)

lemma pin_effect:
  assumes "get_manifest env st sid c = Inr m" and "pins_wf pins"
  shows "fst (pin_checkpoint env st sid c pins) = Inr True"
    and "pin_count (snd (pin_checkpoint env st sid c pins)) s d = pin_count pins s d + (if s = sid \<and> d = c then 1 else 0)"
    and "pins_wf (snd (pin_checkpoint env st sid c pins))"
proof -
  show "fst (pin_checkpoint env st sid c pins) = Inr True" by (simp add: pin_checkpoint_def assms(1))
  show "pin_count (snd (pin_checkpoint env st sid c pins)) s d = pin_count pins s d + (if s = sid \<and> d = c then 1 else 0)"
    by (simp add: pin_checkpoint_def assms(1) pin_count_def update_conv')
  show "pins_wf (snd (pin_checkpoint env st sid c pins))"
    using assms(2) pin_count_nonneg [OF assms(2), of sid c]
    by (auto simp: pin_checkpoint_def assms(1) pins_wf_def dest!: in_update)
qed

lemma unpin_effect:
  assumes "pins_wf pins"
  shows "pin_count (unpin_checkpoint sid c pins) s d =
           (if s = sid \<and> d = c then max 0 (pin_count pins s d - 1) else pin_count pins s d)"
    and "pins_wf (unpin_checkpoint sid c pins)"
proof -
  show "pin_count (unpin_checkpoint sid c pins) s d =
      (if s = sid \<and> d = c then max 0 (pin_count pins s d - 1) else pin_count pins s d)"
    by (auto simp: unpin_checkpoint_def Let_def pin_count_def update_conv' delete_conv')
  show "pins_wf (unpin_checkpoint sid c pins)"
    using assms by (auto simp: unpin_checkpoint_def Let_def pins_wf_def AList.delete_eq dest!: in_update)
qed

lemma unpin_all:
  assumes "pins_wf pins" and "distinct cs" and "\<forall>c \<in> set cs. 1 \<le> pin_count pins sid c"
  shows "pin_count (fold (unpin_checkpoint sid) cs pins) s d
           = pin_count pins s d - (if s = sid \<and> d \<in> set cs then 1 else 0)"
  using assms
proof (induction cs arbitrary: pins)
  case (Cons c cs)
  then show ?case using unpin_effect [OF Cons.prems(1), of sid c] by auto
qed simp

text \<open>The walk of \<open>pin_chain\<close>: on success it has pinned the checkpoints \<open>V\<close> of the chain once each, and the
  walk of \<open>unpin_chain\<close> over the same store releases exactly those; otherwise it has released what it held.\<close>

definition pinned_by :: "sandbox_id \<Rightarrow> checkpoint_id set \<Rightarrow> sandbox_id \<Rightarrow> checkpoint_id \<Rightarrow> int" where
  "pinned_by sid V s d = (if s = sid \<and> d \<in> V then 1 else 0)"

definition releases ::
  "storage_env \<Rightarrow> store \<Rightarrow> sandbox_id \<Rightarrow> checkpoint_id option \<Rightarrow> checkpoint_id list \<Rightarrow> checkpoint_id set \<Rightarrow> bool" where
  "releases env st sid cur seen V =
     (\<forall>q. pins_wf q \<longrightarrow> (\<forall>c \<in> V. 1 \<le> pin_count q sid c) \<longrightarrow>
        fst (unpin_chain_loop env st sid cur seen q) = Inr ()
        \<and> (\<forall>s d. pin_count (snd (unpin_chain_loop env st sid cur seen q)) s d = pin_count q s d - pinned_by sid V s d))"

lemma releases_step:
  assumes "get_manifest env st sid c = Inr m" and "c \<notin> set seen" and "c \<notin> V"
    and "releases env st sid (mf_parent_checkpoint_id m) (c # seen) V"
  shows "releases env st sid (Some c) seen (insert c V)"
  unfolding releases_def
proof (intro allI impI)
  fix q
  assume q: "pins_wf q" "\<forall>d \<in> insert c V. 1 \<le> pin_count q sid d"
  let ?q = "unpin_checkpoint sid c q"
  have step: "unpin_chain_loop env st sid (Some c) seen q
      = unpin_chain_loop env st sid (mf_parent_checkpoint_id m) (c # seen) ?q"
    by (subst unpin_chain_loop.simps) (simp add: assms(1,2) Let_def)
  have "pins_wf ?q" "\<forall>d \<in> V. 1 \<le> pin_count ?q sid d" using unpin_effect [OF q(1), of sid c] q(2) assms(3) by auto
  then have "fst (unpin_chain_loop env st sid (mf_parent_checkpoint_id m) (c # seen) ?q) = Inr ()"
    "pin_count (snd (unpin_chain_loop env st sid (mf_parent_checkpoint_id m) (c # seen) ?q)) s d
       = pin_count ?q s d - pinned_by sid V s d" for s d
    using assms(4) unfolding releases_def by blast+
  then show "fst (unpin_chain_loop env st sid (Some c) seen q) = Inr ()
      \<and> (\<forall>s d. pin_count (snd (unpin_chain_loop env st sid (Some c) seen q)) s d
           = pin_count q s d - pinned_by sid (insert c V) s d)"
    unfolding step using unpin_effect(1) [OF q(1), of sid c] q(2) assms(3) by (auto simp: pinned_by_def)
qed

lemma pin_chain_loop_effect:
  assumes "pins_wf pins" and "distinct seen" and "\<forall>c \<in> set seen. 1 \<le> pin_count pins sid c"
    and "pin_chain_loop env st sid cur seen pins = (Inr ok, pins')"
  shows "if ok
     then pins_wf pins' \<and> (\<exists>V. set seen \<inter> V = {} \<and> (cur \<noteq> None \<longrightarrow> the cur \<in> V \<or> the cur \<in> set seen) \<and> releases env st sid cur seen V
            \<and> (\<forall>s d. pin_count pins' s d = pin_count pins s d + pinned_by sid V s d))
     else \<forall>s d. pin_count pins' s d = pin_count pins s d - pinned_by sid (set seen) s d"
  using assms
proof (induction env st sid cur seen pins rule: pin_chain_loop.induct)
  case (1 env st sid cur seen pins)
  consider (stop) "\<forall>c. cur = Some c \<longrightarrow> c \<in> set seen"
    | (up) c m where "cur = Some c" "c \<notin> set seen" "get_manifest env st sid c = Inr m"
    | (bad) c e where "cur = Some c" "c \<notin> set seen" "get_manifest env st sid c = Inl e"
    by (meson obj_sumE)
  then show ?case
  proof cases
    case stop
    then have p: "pin_chain_loop env st sid cur seen pins = (Inr True, pins)"
      by (subst pin_chain_loop.simps) (auto split: option.split)
    have "releases env st sid cur seen {}"
      unfolding releases_def using stop
      by (subst unpin_chain_loop.simps, subst unpin_chain_loop.simps) (auto simp: pinned_by_def split: option.split)
    then show ?thesis using 1(2-5) p stop by (auto simp: pinned_by_def intro!: exI [of _ "{}"])
  next
    case bad
    then show ?thesis
      using 1(5) unpin_all [OF 1(2), of "rev seen" sid] 1(3,4)
      by (subst (asm) pin_chain_loop.simps) (auto simp: pinned_by_def split: py_error.splits)
  next
    case up
    let ?p = "snd (pin_checkpoint env st sid c pins)"
    note pin = pin_effect [OF up(3) 1(2)]
    have "pin_chain_loop env st sid (mf_parent_checkpoint_id m) (c # seen) ?p = (Inr ok, pins')"
      using 1(5) up by (subst (asm) pin_chain_loop.simps) simp
    moreover have "\<forall>d \<in> set (c # seen). 1 \<le> pin_count ?p sid d"
      using pin(2) 1(4) pin_count_nonneg [OF 1(2), of sid c] by auto
    moreover have "distinct (c # seen)" using 1(3) up(2) by simp
    ultimately have IH: "if ok
      then pins_wf pins' \<and> (\<exists>V. set (c # seen) \<inter> V = {}
            \<and> (mf_parent_checkpoint_id m \<noteq> None \<longrightarrow> the (mf_parent_checkpoint_id m) \<in> V \<or> the (mf_parent_checkpoint_id m) \<in> set (c # seen))
            \<and> releases env st sid (mf_parent_checkpoint_id m) (c # seen) V
            \<and> (\<forall>s d. pin_count pins' s d = pin_count ?p s d + pinned_by sid V s d))
      else \<forall>s d. pin_count pins' s d = pin_count ?p s d - pinned_by sid (set (c # seen)) s d"
      using 1(1) [OF up pin(3)] by blast
    show ?thesis
    proof (cases ok)
      case True
      then obtain V where V: "set (c # seen) \<inter> V = {}" "releases env st sid (mf_parent_checkpoint_id m) (c # seen) V"
        "\<forall>s d. pin_count pins' s d = pin_count ?p s d + pinned_by sid V s d" "pins_wf pins'" using IH by auto
      have "releases env st sid cur seen (insert c V)" using releases_step [OF up(3,2) _ V(2)] V(1) up(1) by simp
      moreover have "pin_count pins' s d = pin_count pins s d + pinned_by sid (insert c V) s d" for s d
        using V(1,3) pin(2) by (auto simp: pinned_by_def)
      ultimately show ?thesis using True V(1,4) up(1,2) by (auto intro!: exI [of _ "insert c V"])
    next
      case False
      then show ?thesis using IH pin(2) up(2) by (auto simp: pinned_by_def)
    qed
  qed
qed

text \<open>C37. Pinning a chain and unpinning it are inverse: when \<open>pin_chain\<close> succeeds every count is the old one
  plus one on the checkpoints of the chain, the leaf among them, and \<open>unpin_chain\<close> over the same store brings
  every count back; when it answers \<open>False\<close> no count has changed.\<close>

theorem pin_chain_roundtrip:
  assumes "pins_wf pins" and "pin_chain env st sid leaf pins = (Inr ok, pins')"
  shows "if ok
         then 1 \<le> pin_count pins' sid leaf \<and> fst (unpin_chain env st sid leaf pins') = Inr ()
            \<and> (\<forall>s d. pin_count (snd (unpin_chain env st sid leaf pins')) s d = pin_count pins s d)
         else \<forall>s d. pin_count pins' s d = pin_count pins s d"
proof (cases "get_manifest env st sid leaf")
  case (Inl e)
  then have "\<not> ok \<and> pins' = pins" using assms(2) by (auto simp: pin_chain_def split: py_error.splits)
  then show ?thesis by simp
next
  case (Inr m)
  then have p: "pin_chain_loop env st sid (Some leaf) [] pins = (Inr ok, pins')" using assms(2) by (simp add: pin_chain_def)
  note eff = pin_chain_loop_effect [OF assms(1) _ _ p, simplified]
  show ?thesis
  proof (cases ok)
    case True
    then obtain V where V: "leaf \<in> V" "releases env st sid (Some leaf) [] V" "pins_wf pins'"
      "\<forall>s d. pin_count pins' s d = pin_count pins s d + pinned_by sid V s d"
      using eff by auto
    then have "\<forall>c \<in> V. 1 \<le> pin_count pins' sid c" using pin_count_nonneg [OF assms(1)] by (simp add: pinned_by_def)
    then show ?thesis using True V by (simp add: releases_def unpin_chain_def)
  next
    case False
    then show ?thesis using eff by (simp add: pinned_by_def)
  qed
qed

theorem pin_chain_roundtrip_witness:
  "\<exists>pins'. pin_chain demo_env demo_store ''sb1'' ''b'' (\<lambda>_. []) = (Inr True, pins') \<and> 1 \<le> pin_count pins' ''sb1'' ''b''"
proof -
  have "fst (pin_chain demo_env demo_store ''sb1'' ''b'' (\<lambda>_. [])) = Inr True"
    by (simp add: pin_chain_def pin_chain_loop.simps get_manifest_def validate_manifest_def validate_schema_def
        validate_integrity_def manifest_schema_version_def compute_manifest_hash_def demo_env_def demo_store_def
        demo_manifest_def empty_store_def)
  then obtain pins' where p: "pin_chain demo_env demo_store ''sb1'' ''b'' (\<lambda>_. []) = (Inr True, pins')"
    by (metis prod.collapse)
  then show ?thesis using pin_chain_roundtrip [OF _ p] by (simp add: pins_wf_def)
qed

section \<open>The restore of the newest checkpoint\<close>

lemma upto_first_last:
  "distinct (map f xs) \<Longrightarrow> xs \<noteq> [] \<Longrightarrow> upto_first (\<lambda>x. f x = f (last xs)) xs = xs"
proof (induction xs)
  case (Cons x xs)
  show ?case
  proof (cases "xs = []")
    case False
    then have "f x \<noteq> f (last xs)" using Cons.prems(1) by (metis distinct.simps(2) last_in_set list.simps(9) imageI set_map)
    then show ?thesis using Cons False by simp
  qed simp
qed simp

lemma upto_first_map: "upto_first P (map f xs) = map f (upto_first (\<lambda>x. P (f x)) xs)"
  by (induction xs) auto

lemma find_filter_same: "(\<And>x. find P xs = Some x \<Longrightarrow> Q x) \<Longrightarrow> find P (filter Q xs) = find P xs"
  by (induction xs) auto

lemma find_rev_filter: "(\<And>x. find P (rev xs) = Some x \<Longrightarrow> Q x) \<Longrightarrow> find P (rev (filter Q xs)) = find P (rev xs)"
  using find_filter_same [of P "rev xs" Q] by (simp add: rev_filter)

lemma resolve_halves:
  assumes "restore_candidates env st m given = Inr cs" and "cs \<noteq> []" and "last cs = m"
  shows "resolve_restore_manifest env st m given =
     (case restore_halves env st m cs of Inl e \<Rightarrow> Inl e | Inr (pm, fm) \<Rightarrow> Inr (resolved_with env m pm fm))"
  by (simp add: resolve_with assms)

lemma newest_candidates:
  assumes "store_wf st" and "get_all env st sid (list_checkpoints st sid) = Inr (listing st sid)"
    and "listing st sid \<noteq> []" and "m = last (listing st sid)"
  shows "restore_candidates env st m None = Inr (listing st sid)"
    and "restore_candidates env st m (Some (listing st sid)) = Inr (listing st sid)"
proof -
  let ?L = "listing st sid"
  have "m \<in> set ?L" using assms(3,4) by simp
  then have sid: "mf_sandbox_id m = sid" using listing_get(2) [OF assms(1)] by blast
  have up: "upto_first (\<lambda>c. mf_checkpoint_id c = mf_checkpoint_id m) ?L = ?L"
    unfolding assms(4) by (rule upto_first_last [OF listing_distinct [OF assms(1)] assms(3)])
  have "upto_first (\<lambda>c. c = mf_checkpoint_id m) (list_checkpoints st sid) = list_checkpoints st sid"
    unfolding list_checkpoints_listing upto_first_map up ..
  then show "restore_candidates env st m None = Inr ?L" using assms(2) sid by (simp add: restore_candidates_def)
  show "restore_candidates env st m (Some ?L) = Inr ?L" using up by (simp add: restore_candidates_def)
qed

lemma latest_process_filter:
  assumes "\<And>p. latest_process_manifest_for_restore cs fm = Some p \<Longrightarrow> Q p"
  shows "latest_process_manifest_for_restore (filter Q cs) fm = latest_process_manifest_for_restore cs fm"
proof -
  let ?P = "not_ahead (map_option (\<lambda>m. committed_trace_cursor (mf_metadata m)) fm)"
  have eq: "latest_process_manifest_for_restore xs fm =
      (case find ?P (rev xs) of Some m \<Rightarrow> Some m | None \<Rightarrow> find has_process (rev xs))" for xs
    by (simp add: latest_process_eq)
  have 1: "find ?P (rev (filter Q cs)) = find ?P (rev cs)"
    by (rule find_rev_filter) (use assms in \<open>simp add: eq\<close>)
  have 2: "find has_process (rev (filter Q cs)) = find has_process (rev cs)" if "find ?P (rev cs) = None"
    by (rule find_rev_filter) (use assms that in \<open>simp add: eq\<close>)
  show ?thesis unfolding eq 1 using 2 by (cases "find ?P (rev cs)") simp_all
qed

text \<open>Dropping candidates other than the two sources does not change the choice of the sources.\<close>

lemma restore_halves_removed:
  assumes "restore_halves env st m cs = Inr (pm, fm)"
    and "\<forall>p. pm = Some p \<longrightarrow> Q p" and "\<forall>f. fm = Some f \<longrightarrow> Q f"
    and "\<And>c x. get_manifest env st (mf_sandbox_id m) c = Inr x \<Longrightarrow> Q x \<Longrightarrow>
           get_manifest env st' (mf_sandbox_id m) c = Inr x"
  shows "restore_halves env st' m (filter Q cs) = Inr (pm, fm)"
proof (cases "meta_flag (mf_metadata m) ''logical_checkpoint''")
  case True
  have named: "named_source env st' m raw (filter Q cs) h = Inr x"
    if "named_source env st m raw cs h = Inr x" "Q x" for raw h x
  proof -
    have "restore_source_manifest env st' m (pystr raw) (filter Q cs) h = Inr x"
      if r: "restore_source_manifest env st m (pystr raw) cs h = Inr x"
    proof (cases "find (\<lambda>c. mf_checkpoint_id c = pystr raw) cs")
      case None
      then have "find (\<lambda>c. mf_checkpoint_id c = pystr raw) (filter Q cs) = None"
        by (simp add: find_None_iff)
      then show ?thesis using None r assms(4) \<open>Q x\<close>
        by (auto simp: restore_source_manifest_def split: sum.splits if_splits)
    next
      case (Some y)
      then have "x = y" using r by (simp add: restore_source_manifest_def split: if_splits)
      then have "find (\<lambda>c. mf_checkpoint_id c = pystr raw) (filter Q cs) = Some x"
        using find_filter_same [of "\<lambda>c. mf_checkpoint_id c = pystr raw" cs Q] Some \<open>Q x\<close> by simp
      then show ?thesis using r Some \<open>x = y\<close> by (simp add: restore_source_manifest_def)
    qed
    then show ?thesis using that(1) by (auto simp: named_source_def checkpoint_id_of_def split: sum.splits if_splits)
  qed
  obtain P F p f where src: "meta_get (mf_metadata m) ''process_restore_checkpoint_id'' = Some P"
    "meta_get (mf_metadata m) ''filesystem_restore_checkpoint_id'' = Some F" "pm = Some p" "fm = Some f"
    and "named_source env st m P cs ProcessHalf = Inr p" "named_source env st m F cs FilesystemHalf = Inr f"
    using assms(1) True by (auto simp: restore_halves_def split: option.splits sum.splits)
  then have "named_source env st' m P (filter Q cs) ProcessHalf = Inr p"
    "named_source env st' m F (filter Q cs) FilesystemHalf = Inr f" using named assms(2,3) by blast+
  then show ?thesis using True src by (simp add: restore_halves_def)
next
  case False
  let ?F = "\<lambda>c. mf_filesystem_artifacts c \<noteq> []"
  have fm: "latest_manifest_with_artifacts cs ?F = fm" and pm: "latest_process_manifest_for_restore cs fm = pm"
    using assms(1) False by (auto simp: restore_halves_def Let_def)
  have "latest_manifest_with_artifacts (filter Q cs) ?F = latest_manifest_with_artifacts cs ?F"
    unfolding latest_manifest_with_artifacts_def
    by (rule find_rev_filter) (use fm assms(3) in \<open>simp add: latest_manifest_with_artifacts_def\<close>)
  moreover have "latest_process_manifest_for_restore (filter Q cs) fm = pm"
    using latest_process_filter [of cs fm Q] pm assms(2) by simp
  ultimately show ?thesis using False fm by (simp add: restore_halves_def Let_def)
qed

lemma prune_removed:
  assumes "prune_unprotected df env pins sid st = (r, st')"
    and "manifest_snapshot env st sid = Inr (ids, ms)"
  shows "\<exists>D. D \<inter> set (latest_only_protected df env st pins sid ms) = {} \<and> D \<subseteq> set ids \<and> removed sid D st st'
     \<and> (r = Inr () \<longrightarrow> D = set ids - set (latest_only_protected df env st pins sid ms))"
proof -
  have "delete_each env sid (filter (\<lambda>c. c \<notin> set (latest_only_protected df env st pins sid ms)) (rev ids)) st = (r, st')"
    using assms by (simp add: prune_unprotected_def act_bind_def)
  from delete_each_removed [OF this] obtain D
    where D: "D \<subseteq> set ids - set (latest_only_protected df env st pins sid ms)" "removed sid D st st'"
      "r = Inr () \<longrightarrow> D = set ids - set (latest_only_protected df env st pins sid ms)"
    by (auto simp: set_diff_eq)
  then show ?thesis by (intro exI [of _ D]) blast
qed

lemma prune_unreadable:
  "prune_unprotected df env pins sid st = (r, st') \<Longrightarrow> manifest_snapshot env st sid = Inl e \<Longrightarrow> st' = st"
  by (simp add: prune_unprotected_def act_bind_def)

lemma base_subset: "set (base_protected env st pins sid ms) \<subseteq> set (latest_only_protected df env st pins sid ms)"
  "set (protected_checkpoint_ids env st pins sid ms) \<subseteq> set (latest_only_protected df env st pins sid ms)"
  by (auto simp: latest_only_protected_def protected_checkpoint_ids_def Let_def)

text \<open>The newest checkpoint and the sources its restore uses are protected.\<close>

lemma sources_protected:
  assumes "L \<noteq> []" and "distinct (map mf_checkpoint_id L)"
    and "resolve_restore_manifest env st (last L) (Some L) = Inr (resolved_with env (last L) pm fm)"
  shows "mf_checkpoint_id (last L) \<in> set (base_protected env st pins sid (keyed L))"
    and "pm = Some p \<Longrightarrow> mf_checkpoint_id p \<in> set (base_protected env st pins sid (keyed L))"
    and "fm = Some f \<Longrightarrow> mf_checkpoint_id f \<in> set (base_protected env st pins sid (keyed L))"
proof -
  have latest: "latest_id (\<lambda>_. True) L = [mf_checkpoint_id (last L)]"
    using assms(1) by (cases L rule: rev_cases) (simp_all add: latest_id_def)
  then show "mf_checkpoint_id (last L) \<in> set (base_protected env st pins sid (keyed L))"
    by (simp add: base_protected_def Let_def)
  have "by_id (keyed L) (mf_checkpoint_id (last L)) = Some (last L)"
    using by_id_keyed [OF assms(2)] assms(1) by simp
  then have deps: "restore_dependency_ids env st sid (mf_checkpoint_id (last L)) (keyed L) =
      mf_checkpoint_id (last L) # List.map_filter
        (\<lambda>k. map_option pystr (meta_get (mf_metadata (resolved_with env (last L) pm fm)) k)) source_keys"
    using assms(3) by (simp add: restore_dependency_ids_def)
  show "mf_checkpoint_id p \<in> set (base_protected env st pins sid (keyed L))" if "pm = Some p"
    using resolved_sources(1) [OF that, of env "last L" fm] deps latest
    by (simp add: base_protected_def Let_def source_keys_def map_filter_simps pystr_def split: option.split)
  show "mf_checkpoint_id f \<in> set (base_protected env st pins sid (keyed L))" if "fm = Some f"
    using resolved_sources(2) [OF that, of env "last L" pm] deps latest
    by (simp add: base_protected_def Let_def source_keys_def map_filter_simps pystr_def split: option.split)
qed

lemma last_filter: "xs \<noteq> [] \<Longrightarrow> Q (last xs) \<Longrightarrow> filter Q xs \<noteq> [] \<and> last (filter Q xs) = last xs"
  by (cases xs rule: rev_cases) simp_all

lemma chain_kept:
  assumes "chain_intact env st pd pe sid n m"
    and "\<forall>p. mf_parent_checkpoint_id m = Some p \<longrightarrow> p \<in> A"
    and "\<And>q x p. q \<in> A \<Longrightarrow> get_manifest env st sid q = Inr x \<Longrightarrow> mf_parent_checkpoint_id x = Some p \<Longrightarrow> p \<in> A"
    and "\<And>q x. q \<in> A \<Longrightarrow> get_manifest env st sid q = Inr x \<Longrightarrow> get_manifest env st' sid q = Inr x"
  shows "chain_intact env st' pd pe sid n m"
  using assms
proof (induction rule: chain_intact.induct)
  case (intact_root m)
  then show ?case by (intro chain_intact.intact_root)
next
  case (intact_full m p path pm)
  then show ?case by (intro chain_intact.intact_full) auto
next
  case (intact_step m p path pm n)
  have "p \<in> A" using intact_step by blast
  then have "chain_intact env st' pd pe sid n pm" using intact_step by blast
  then show ?case using intact_step(1-5) intact_step.prems(3) \<open>p \<in> A\<close> by (intro chain_intact.intact_step) auto
qed

lemma validate_chain_kept:
  assumes "validate_incremental_chain env st caps pd pe m = Inr ()"
    and "\<forall>p. mf_parent_checkpoint_id m = Some p \<longrightarrow> p \<in> A"
    and "\<And>q x p. q \<in> A \<Longrightarrow> get_manifest env st (mf_sandbox_id m) q = Inr x
          \<Longrightarrow> mf_parent_checkpoint_id x = Some p \<Longrightarrow> p \<in> A"
    and "\<And>q x. q \<in> A \<Longrightarrow> get_manifest env st (mf_sandbox_id m) q = Inr x
          \<Longrightarrow> get_manifest env st' (mf_sandbox_id m) q = Inr x"
  shows "validate_incremental_chain env st' caps pd pe m = Inr ()"
proof (cases "mf_process_kind m = ''incremental'' \<and> supports_incremental_process caps")
  case True
  then have "validate_chain env st pd pe (mf_sandbox_id m) [] m = Inr ()"
    using assms(1) by (simp add: validate_incremental_chain_def)
  then obtain n where n: "chain_intact env st pd pe (mf_sandbox_id m) n m" using validate_chain_sound by blast
  have "chain_intact env st' pd pe (mf_sandbox_id m) n m"
    by (rule chain_kept [OF n assms(2)]) (use assms(3,4) in blast)+
  then have "validate_chain env st' pd pe (mf_sandbox_id m) [] m = Inr ()" by (rule validate_chain_complete) simp
  then show ?thesis using True by (simp add: validate_incremental_chain_def)
qed (auto simp: validate_incremental_chain_def)

lemma get_all_iff:
  "get_all env st sid (map mf_checkpoint_id xs) = Inr xs
     \<longleftrightarrow> (\<forall>x \<in> set xs. get_manifest env st sid (mf_checkpoint_id x) = Inr x)"
  by (induction xs) (auto split: sum.splits)

lemma removed_wf: "store_wf st \<Longrightarrow> removed sid D st st' \<Longrightarrow> store_wf st'"
  by (auto simp: store_wf_def removed_def distinct_map_filter)

text \<open>The restore of the newest checkpoint, its resolution written with the sources.\<close>

lemma newest_resolved:
  assumes "store_wf st" and "listing st sid \<noteq> []"
    and "get_all env st sid (list_checkpoints st sid) = Inr (listing st sid)"
    and "m = last (listing st sid)"
    and "resolve_restore_manifest env st m None = Inr resolved"
  obtains pm fm where "restore_halves env st m (listing st sid) = Inr (pm, fm)" "resolved = resolved_with env m pm fm"
    "resolve_restore_manifest env st m (Some (listing st sid)) = Inr resolved"
proof -
  note cand = newest_candidates [OF assms(1,3,2,4)]
  note res = resolve_halves [OF cand(1) assms(2) assms(4) [symmetric]] resolve_halves [OF cand(2) assms(2) assms(4) [symmetric]]
  obtain h where h: "restore_halves env st m (listing st sid) = Inr h"
    using assms(5) res(1) by (cases "restore_halves env st m (listing st sid)") simp_all
  then show ?thesis using that assms(5) res by (cases h) simp
qed

lemma restore_kept:
  assumes "store_wf st" and "listing st sid \<noteq> []"
    and "get_all env st sid (list_checkpoints st sid) = Inr (listing st sid)"
    and "m = last (listing st sid)" and "restore_halves env st m (listing st sid) = Inr (pm, fm)"
    and "removed sid D st st'" and "mf_checkpoint_id m \<notin> D"
    and "\<And>p. pm = Some p \<Longrightarrow> mf_checkpoint_id p \<notin> D" and "\<And>f. fm = Some f \<Longrightarrow> mf_checkpoint_id f \<notin> D"
  shows "listing st' sid \<noteq> [] \<and> last (listing st' sid) = m
     \<and> get_all env st' sid (list_checkpoints st' sid) = Inr (listing st' sid)
     \<and> resolve_restore_manifest env st' m None = Inr (resolved_with env m pm fm)"
proof -
  let ?Q = "\<lambda>x. mf_checkpoint_id x \<notin> D" and ?L = "listing st sid"
  have L': "listing st' sid = filter ?Q ?L" using listing_removed [OF assms(1,6)] .
  have last': "listing st' sid \<noteq> [] \<and> last (listing st' sid) = m"
    using last_filter [OF assms(2), of ?Q] assms(4,7) L' by simp
  have keep: "get_manifest env st' sid c = get_manifest env st sid c" if "c \<notin> D" for c
    using removed_keeps(1) [OF assms(6)] that by blast
  have all': "get_all env st' sid (list_checkpoints st' sid) = Inr (listing st' sid)"
    using assms(3) keep unfolding list_checkpoints_listing get_all_iff L' by simp
  have sid: "mf_sandbox_id m = sid" using listing_get(2) [OF assms(1)] assms(2,4) by simp
  have "restore_halves env st' m (listing st' sid) = Inr (pm, fm)"
    unfolding L'
  proof (rule restore_halves_removed [OF assms(5)])
    fix c x
    assume "get_manifest env st (mf_sandbox_id m) c = Inr x" "mf_checkpoint_id x \<notin> D"
    then show "get_manifest env st' (mf_sandbox_id m) c = Inr x"
      using get_in_listing [OF assms(1)] keep sid by simp
  qed (use assms(8,9) in blast)+
  then have "resolve_restore_manifest env st' m None = Inr (resolved_with env m pm fm)"
    using resolve_halves [OF newest_candidates(1) [OF removed_wf [OF assms(1,6)] all']] last' by simp
  then show ?thesis using last' all' by blast
qed

lemma pm_in_listing:
  assumes "store_wf st" and "restore_halves env st m (listing st sid) = Inr (pm, fm)"
    and "mf_sandbox_id m = sid" and "pm = Some p"
  shows "p \<in> set (listing st sid)"
proof (cases "meta_flag (mf_metadata m) ''logical_checkpoint''")
  case True
  then obtain raw where "named_source env st m raw (listing st sid) ProcessHalf = Inr p"
    using assms(2,4) by (auto simp: restore_halves_def split: option.splits sum.splits)
  then show ?thesis using get_in_listing [OF assms(1)] assms(3)
    by (auto simp: named_source_def checkpoint_id_of_def restore_source_manifest_def
        dest!: find_Some_set split: if_splits option.splits sum.splits)
next
  case False
  then have "latest_process_manifest_for_restore (listing st sid) fm = Some p"
    using assms(2,4) by (auto simp: restore_halves_def Let_def)
  then show ?thesis by (auto simp: latest_process_eq Let_def dest!: find_Some_set split: option.splits)
qed

lemma chain_still_valid:
  assumes "store_wf st" and "listing st sid \<noteq> []" and "removed sid D st st'"
    and "D \<inter> set (protected_checkpoint_ids env st pins sid (keyed (listing st sid))) = {}"
    and "x \<in> set (listing st sid)"
    and "mf_checkpoint_id x \<in> set (base_protected env st pins sid (keyed (listing st sid)))"
    and "mf_sandbox_id m = sid" and "mf_parent_checkpoint_id m = mf_parent_checkpoint_id x"
    and "validate_incremental_chain env st caps pd pe m = Inr ()"
  shows "validate_incremental_chain env st' caps pd pe m = Inr ()"
proof -
  let ?L = "listing st sid"
  note by_id = by_id_keyed [OF listing_distinct [OF assms(1)]]
  have "by_id (keyed ?L) (mf_checkpoint_id x) = Some x" using by_id assms(5) by simp
  from base_chain_protected [OF assms(6) this] obtain A
    where A: "A \<subseteq> set (protected_checkpoint_ids env st pins sid (keyed ?L))"
      "\<forall>p. mf_parent_checkpoint_id x = Some p \<longrightarrow> p \<in> A"
      "\<forall>q y p. q \<in> A \<longrightarrow> by_id (keyed ?L) q = Some y \<longrightarrow> mf_parent_checkpoint_id y = Some p \<longrightarrow> p \<in> A" by blast
  show ?thesis
  proof (rule validate_chain_kept [OF assms(9)])
    show "\<forall>p. mf_parent_checkpoint_id m = Some p \<longrightarrow> p \<in> A" using A(2) assms(8) by simp
    show "p \<in> A" if "q \<in> A" "get_manifest env st (mf_sandbox_id m) q = Inr y" "mf_parent_checkpoint_id y = Some p"
      for q y p
      using A(3) that get_in_listing [OF assms(1)] by_id assms(7) by blast
    show "get_manifest env st' (mf_sandbox_id m) q = Inr y" if "q \<in> A" "get_manifest env st (mf_sandbox_id m) q = Inr y" for q y
      using removed_keeps(1) [OF assms(3), of sid q env] that A(1) assms(4,7) by auto
  qed
qed

section \<open>Properties\<close>

text \<open>C35. Pruning removes only what is not protected: whatever its outcome, it leaves the manifest and the artifact
  files of every protected or pinned checkpoint and of every other sandbox as they were; when it succeeds
  exactly the protected checkpoints remain listed, and when the manifests cannot be read nothing changes.\<close>

theorem prune_effect:
  assumes "store_wf st" and "prune_unprotected df env pins sid st = (r, st')"
  shows "(\<forall>e. manifest_snapshot env st sid = Inl e \<longrightarrow> st' = st)
     \<and> (\<forall>ids ms. manifest_snapshot env st sid = Inr (ids, ms) \<longrightarrow>
          (\<forall>s c. s \<noteq> sid \<or> c \<in> set (latest_only_protected df env st pins sid ms) \<or> c \<in> fst ` set (pins sid) \<longrightarrow>
             get_manifest env st' s c = get_manifest env st s c
             \<and> (\<forall>k. map_of (art_files st') (s, c, k) = map_of (art_files st) (s, c, k)))
        \<and> (r = Inr () \<longrightarrow> list_checkpoints st' sid
             = filter (\<lambda>c. c \<in> set (latest_only_protected df env st pins sid ms)) ids))"
proof (intro conjI allI impI)
  show "st' = st" if "manifest_snapshot env st sid = Inl e" for e using prune_unreadable [OF assms(2) that] .
  fix ids ms
  assume snap: "manifest_snapshot env st sid = Inr (ids, ms)"
  let ?prot = "latest_only_protected df env st pins sid ms"
  obtain D where D: "D \<inter> set ?prot = {}" "D \<subseteq> set ids" "removed sid D st st'" "r = Inr () \<longrightarrow> D = set ids - set ?prot"
    using prune_removed [OF assms(2) snap] by blast
  have "fst ` set (pins sid) \<subseteq> set ?prot"
    using base_subset(1) [of env st pins sid ms df] by (auto simp: base_protected_def Let_def)
  then have out: "(s, c) \<notin> Pair sid ` D" if "s \<noteq> sid \<or> c \<in> set ?prot \<or> c \<in> fst ` set (pins sid)" for s c
    using that D(1) by auto
  show "get_manifest env st' s c = get_manifest env st s c"
    if "s \<noteq> sid \<or> c \<in> set ?prot \<or> c \<in> fst ` set (pins sid)" for s c
    using removed_keeps(1) [OF D(3) out [OF that]] .
  show "map_of (art_files st') (s, c, k) = map_of (art_files st) (s, c, k)"
    if "s \<noteq> sid \<or> c \<in> set ?prot \<or> c \<in> fst ` set (pins sid)" for s c k
    using removed_keeps(2) [OF D(3) out [OF that]] .
  assume "r = Inr ()"
  then have "listing st' sid = filter (\<lambda>m. mf_checkpoint_id m \<notin> set ids - set ?prot) (listing st sid)"
    using listing_removed [OF assms(1) D(3)] D(4) by simp
  also have "\<dots> = filter (\<lambda>m. mf_checkpoint_id m \<in> set ?prot) (listing st sid)"
    using snapshot_keyed(1) [OF assms(1) snap] by (auto intro!: filter_cong)
  finally show "list_checkpoints st' sid = filter (\<lambda>c. c \<in> set ?prot) ids"
    using snapshot_keyed(1) [OF assms(1) snap] by (simp add: list_checkpoints_listing filter_map comp_def)
qed

text \<open>C3. Pruning never changes what the newest checkpoint restores: on a well-formed store, whatever the outcome
  of the prune, the newest checkpoint is still the newest, its manifest still loads, its restore resolves to
  the very same manifest (the same artifacts of both halves, the same sources), and if its incremental chain
  was complete before it is complete afterwards.\<close>

theorem prune_keeps_restore:
  assumes "store_wf st" and "prune_unprotected df env pins sid st = (r, st')"
    and "list_checkpoints st sid \<noteq> []"
    and "get_manifest env st sid (last (list_checkpoints st sid)) = Inr m"
    and "resolve_restore_manifest env st m None = Inr resolved"
  shows "list_checkpoints st' sid \<noteq> [] \<and> last (list_checkpoints st' sid) = last (list_checkpoints st sid)
     \<and> get_manifest env st' sid (last (list_checkpoints st sid)) = Inr m
     \<and> resolve_restore_manifest env st' m None = Inr resolved
     \<and> (validate_incremental_chain env st caps pd pe resolved = Inr ()
          \<longrightarrow> validate_incremental_chain env st' caps pd pe resolved = Inr ())"
proof (cases "manifest_snapshot env st sid")
  case (Inl e)
  then have "st' = st" using prune_unreadable [OF assms(2)] by simp
  then show ?thesis using assms(3-5) by blast
next
  case (Inr snap)
  then obtain ids ms where snap: "manifest_snapshot env st sid = Inr (ids, ms)" by (cases snap) auto
  let ?L = "listing st sid"
  have key: "ms = keyed ?L" "get_all env st sid (list_checkpoints st sid) = Inr ?L"
    using snapshot_keyed [OF assms(1) snap] by (simp_all add: list_checkpoints_listing)
  have L: "?L \<noteq> []" using assms(3) by (simp add: list_checkpoints_listing)
  then have ids: "last (list_checkpoints st sid) = mf_checkpoint_id (last ?L)"
    by (simp add: list_checkpoints_listing last_map)
  have m: "m = last ?L"
    using assms(4) key(2) L unfolding list_checkpoints_listing get_all_iff by (simp add: last_map)
  obtain pm fm where h: "restore_halves env st m ?L = Inr (pm, fm)" "resolved = resolved_with env m pm fm"
    "resolve_restore_manifest env st m (Some ?L) = Inr resolved"
    using newest_resolved [OF assms(1) L key(2) m assms(5)] by blast
  obtain D where D: "D \<inter> set (latest_only_protected df env st pins sid ms) = {}" "removed sid D st st'"
    using prune_removed [OF assms(2) snap] by blast
  have prot: "D \<inter> set (protected_checkpoint_ids env st pins sid (keyed ?L)) = {}"
    "D \<inter> set (base_protected env st pins sid (keyed ?L)) = {}"
    using D(1) base_subset [of env st pins sid ms df] key(1) by blast+
  note src = sources_protected [OF L listing_distinct [OF assms(1)] h(3) [unfolded h(2) m], where pins = pins and sid = sid]
  have r: "listing st' sid \<noteq> [] \<and> last (listing st' sid) = m
      \<and> get_all env st' sid (list_checkpoints st' sid) = Inr (listing st' sid)
      \<and> resolve_restore_manifest env st' m None = Inr (resolved_with env m pm fm)"
    by (rule restore_kept [OF assms(1) L key(2) m h(1) D(2)]) (use src prot(2) m in blast)+
  have v: "validate_incremental_chain env st' caps pd pe resolved = Inr ()"
    if val: "validate_incremental_chain env st caps pd pe resolved = Inr ()"
  proof -
    let ?x = "case pm of None \<Rightarrow> m | Some p \<Rightarrow> p"
    have "?x \<in> set ?L" using pm_in_listing [OF assms(1) h(1)] listing_get(2) [OF assms(1)] L m by (auto split: option.split)
    moreover have "mf_checkpoint_id ?x \<in> set (base_protected env st pins sid (keyed ?L))"
      using src(1,2) m by (auto split: option.split)
    moreover have "mf_parent_checkpoint_id resolved = mf_parent_checkpoint_id ?x" "mf_sandbox_id resolved = sid"
      using h(2) m listing_get(2) [OF assms(1)] L by (simp_all split: option.split)
    ultimately show ?thesis using chain_still_valid [OF assms(1) L D(2) prot(1)] val by blast
  qed
  have "get_manifest env st' sid (mf_checkpoint_id m) = Inr m"
    using r unfolding list_checkpoints_listing get_all_iff by (metis last_in_set)
  then show ?thesis using r v h(2) ids m by (simp add: list_checkpoints_listing last_map)
qed

text \<open>A prune is blocked by a listed checkpoint that may go while a protected one still depends on it.\<close>

definition prune_blocked :: "checkpoint_manifest list \<Rightarrow> checkpoint_id list \<Rightarrow> bool" where
  "prune_blocked ms prot =
     list_ex (\<lambda>m. mf_checkpoint_id m \<in> set prot
       \<and> list_ex (\<lambda>d. d \<notin> set prot \<and> d \<in> set (map mf_checkpoint_id ms)) (dependencies m)) ms"

lemma delete_each_refused:
  assumes "store_wf st" and "m \<in> set (manifests_of st sid)" and "mf_checkpoint_id m \<notin> set cs"
    and "d \<in> set cs" and "d \<in> set (dependencies m)" and "delete_each env sid cs st = (r, st')"
  shows "r \<noteq> Inr ()"
  using assms
proof (induction cs arbitrary: st)
  case (Cons c cs)
  obtain r1 st1 where l: "delete_leaf env sid c st = (r1, st1)" by force
  show ?case
  proof (cases r1)
    case (Inl e)
    then show ?thesis using Cons.prems(6) l by (auto simp: act_bind_def)
  next
    case (Inr u)
    then have e: "man_files st1 = AList.delete (sid, c) (man_files st)" "descendants st sid c = []"
      using delete_leaf_effect [OF l] by simp_all
    have "d \<noteq> c" using no_descendants [OF e(2) Cons.prems(2)] Cons.prems(3,5) by auto
    moreover have "m \<in> set (manifests_of st1 sid)"
      using manifests_after_erase [OF Cons.prems(1), of sid c] e(1) Cons.prems(2,3) by simp
    ultimately show ?thesis
      using Cons.IH [OF wf_erase [OF Cons.prems(1) e(1)]] Cons.prems Inr l by (simp add: act_bind_def)
  qed
qed simp


text \<open>Three checkpoints: a full one, an incremental one on it that also captured the filesystem, and a newer
  full one.\<close>

definition demo_chain_store :: store where
  "demo_chain_store = empty_store\<lparr>man_files :=
     [((''sb1'', ''a''), Readable ((demo_full ''a'' (- 62135596800000000))\<lparr>mf_filesystem_artifacts := []\<rparr>)),
      ((''sb1'', ''b''), Readable ((demo_full ''b'' (- 62135596799999999))
          \<lparr>mf_parent_checkpoint_id := Some ''a'', mf_process_kind := ''incremental''\<rparr>)),
      ((''sb1'', ''c''), Readable (demo_full ''c'' (- 62135596799999998)))]\<rparr>"

lemma demo_times:
  "isoformat (- 62135596800000000) < isoformat (- 62135596799999999)"
  "isoformat (- 62135596799999999) < isoformat (- 62135596799999998)"
  "isoformat (- 62135596800000000) < isoformat (- 62135596799999998)"
proof -
  have "instant_ok (- 62135596800000000)" "instant_ok (- 62135596799999999)" "instant_ok (- 62135596799999998)"
    by (simp_all add: instant_ok_def since_min_def year_from.simps days_in_year_def is_leap_def)
  then show "isoformat (- 62135596800000000) < isoformat (- 62135596799999999)"
    "isoformat (- 62135596799999999) < isoformat (- 62135596799999998)"
    "isoformat (- 62135596800000000) < isoformat (- 62135596799999998)" by (simp_all add: isoformat_less)
qed

lemma demo_chain_wf: "store_wf demo_chain_store"
  by (auto simp: store_wf_def demo_chain_store_def empty_store_def)

lemma demo_chain_listing:
  "listing demo_chain_store ''sb1'' =
     [(demo_full ''a'' (- 62135596800000000))\<lparr>mf_filesystem_artifacts := []\<rparr>,
      (demo_full ''b'' (- 62135596799999999))\<lparr>mf_parent_checkpoint_id := Some ''a'', mf_process_kind := ''incremental''\<rparr>,
      demo_full ''c'' (- 62135596799999998)]"
  using demo_times [THEN less_imp_le] by (simp add: listing_def demo_chain_store_def empty_store_def)

lemma demo_chain_snapshot:
  "manifest_snapshot demo_env demo_chain_store ''sb1'' = Inr ([''a'', ''b'', ''c''], keyed (listing demo_chain_store ''sb1''))"
  unfolding manifest_snapshot_def list_checkpoints_listing demo_chain_listing keyed_def
  by (simp add: Let_def get_manifest_def validate_manifest_def validate_schema_def validate_integrity_def
      manifest_schema_version_def compute_manifest_hash_def demo_env_def demo_chain_store_def empty_store_def)

lemma demo_chain_protected:
  "set (latest_only_protected False demo_env demo_chain_store (\<lambda>_. []) ''sb1'' (keyed (listing demo_chain_store ''sb1'')))
     = {''b'', ''c''}"
proof -
  let ?L = "listing demo_chain_store ''sb1''" and ?c = "demo_full ''c'' (- 62135596799999998)"
  have last: "last ?L = ?c" "?L \<noteq> []" by (simp_all add: demo_chain_listing)
  have cand: "restore_candidates demo_env demo_chain_store ?c (Some ?L) = Inr ?L"
    by (simp add: restore_candidates_def demo_chain_listing)
  have "restore_halves demo_env demo_chain_store ?c ?L = Inr (Some ?c, Some ?c)"
    by (simp add: restore_halves_def demo_chain_listing Let_def
        latest_manifest_with_artifacts_def latest_process_manifest_for_restore_def)
  then have res: "resolve_restore_manifest demo_env demo_chain_store ?c (Some ?L)
      = Inr (resolved_with demo_env ?c (Some ?c) (Some ?c))"
    using resolve_halves [OF cand last(2,1)] by simp
  have by_id: "by_id (keyed ?L) ''c'' = Some ?c"
    by (simp add: by_id_def keyed_def demo_chain_listing)
  have deps: "restore_dependency_ids demo_env demo_chain_store ''sb1'' ''c'' (keyed ?L) = [''c'', ''c'', ''c'']"
    using resolved_sources [of "Some ?c" ?c demo_env ?c "Some ?c"] resolved_sources(2) [of "Some ?c" ?c demo_env ?c "Some ?c"]
    by (simp add: restore_dependency_ids_def by_id res source_keys_def map_filter_simps pystr_def
       )
  have "base_protected demo_env demo_chain_store (\<lambda>_. []) ''sb1'' (keyed ?L)
      = [''c'', ''c'', ''c'', ''c'', ''c'', ''c'']"
    by (simp add: base_protected_def Let_def latest_id_def demo_chain_listing
        deps [unfolded demo_chain_listing])
  moreover have "ancestors (keyed ?L) (Some ?c) [] = []"
    by (subst ancestors.simps) simp
  moreover have "map mf_checkpoint_id (filter (\<lambda>m. mf_filesystem_artifacts m \<noteq> []) ?L) = [''b'', ''c'']"
    by (simp add: demo_chain_listing)
  ultimately show ?thesis
    by (auto simp: latest_only_protected_def protected_checkpoint_ids_def Let_def by_id simp del: set_filter set_map)
qed

lemma demo_chain_chronological: "chronological demo_chain_store ''sb1''"
  using demo_times
  by (simp add: chronological_def demo_chain_store_def empty_store_def
      dependencies_def restore_sources_def source_keys_def map_filter_simps)


theorem prune_effect_witness:
  "get_manifest demo_env (snd (prune_unprotected False demo_env (\<lambda>_. []) ''sb1'' demo_chain_store)) ''sb1'' ''b''
     = get_manifest demo_env demo_chain_store ''sb1'' ''b''"
  using prune_effect [OF demo_chain_wf surjective_pairing, where df = False and env = demo_env and pins = "\<lambda>_. []" and sid = "''sb1''"]
    demo_chain_snapshot demo_chain_protected by simp

theorem prune_keeps_restore_witness:
  "get_manifest demo_env (snd (prune_unprotected True demo_env (\<lambda>_. []) ''sb1'' demo_chain_store)) ''sb1'' ''c''
     = Inr (demo_full ''c'' (- 62135596799999998))"
proof -
  let ?L = "listing demo_chain_store ''sb1''" and ?c = "demo_full ''c'' (- 62135596799999998)"
  have last: "last (list_checkpoints demo_chain_store ''sb1'') = ''c''" "list_checkpoints demo_chain_store ''sb1'' \<noteq> []"
    by (simp_all add: list_checkpoints_listing demo_chain_listing)
  have all: "get_all demo_env demo_chain_store ''sb1'' (list_checkpoints demo_chain_store ''sb1'') = Inr ?L"
    using snapshot_keyed(1,3) [OF demo_chain_wf demo_chain_snapshot] by (simp add: list_checkpoints_listing)
  then have get: "get_manifest demo_env demo_chain_store ''sb1'' ''c'' = Inr ?c"
    unfolding list_checkpoints_listing get_all_iff
    by (simp add: demo_chain_listing)
  have "restore_halves demo_env demo_chain_store ?c ?L = Inr (Some ?c, Some ?c)"
    by (simp add: restore_halves_def demo_chain_listing Let_def
        latest_manifest_with_artifacts_def latest_process_manifest_for_restore_def)
  then have "resolve_restore_manifest demo_env demo_chain_store ?c None
      = Inr (resolved_with demo_env ?c (Some ?c) (Some ?c))"
    using resolve_halves [OF newest_candidates(1) [OF demo_chain_wf all]] by (simp add: demo_chain_listing)
  from prune_keeps_restore [OF demo_chain_wf surjective_pairing last(2) _ this] get last(1)
  show ?thesis by simp
qed

end
