(* ===== verification/Prune_Queue.thy ===== *)
theory Prune_Queue
  imports Crab_Prelude "HOL-Library.Multiset"
begin

text \<open>
  The background pruning of \<open>LatestOnlyCheckpointManager\<close> in \<^verbatim>\<open>crab/storage/policies.py\<close>: callers schedule a
  prune of a sandbox, one dispatcher thread debounces and runs it.  Each critical section of the code is one
  step, so that the steps interleave as the threads do; a key stands for a pair of a manager and a sandbox,
  because the dispatcher's queue is shared by all managers.  The lemmas show that no request is lost and that
  the dispatcher always comes to rest.
\<close>

section \<open>State and critical sections\<close>

text \<open>Where the dispatcher thread is: waiting for the queue, in the debounce loop of \<open>_run_prune_task\<close>, pruning,
  or between its last two critical sections with a task to queue again.\<close>

datatype 'k dispatcher = Idle | Debounce 'k | Pruning 'k | Requeue 'k

text \<open>The four sets of the manager, the callers that are past the first critical section of
  \<open>_schedule_prune\<close> and before the second, the queue, and the dispatcher thread.\<close>

record 'k retention =
  pending :: "'k list"
  running :: "'k list"
  dirty :: "'k list"
  touched :: "'k list"
  submitting :: "'k list"
  task_queue :: "'k list"
  dispatcher_at :: "'k dispatcher"

definition retention_init :: "'k retention" where
  "retention_init = \<lparr>pending = [], running = [], dirty = [], touched = [], submitting = [], task_queue = [],
     dispatcher_at = Idle\<rparr>"

text \<open>\<open>_schedule_prune\<close>, up to the end of its first \<open>with\<close> block; a prune that is pending or running only
  becomes dirty.\<close>

definition schedule_prune :: "'k \<Rightarrow> 'k retention \<Rightarrow> 'k retention" where
  "schedule_prune k s =
     (let s1 = s\<lparr>touched := List.insert k (touched s)\<rparr> in
      if k \<in> set (pending s) \<or> k \<in> set (running s) then s1\<lparr>dirty := List.insert k (dirty s)\<rparr>
      else s1\<lparr>pending := List.insert k (pending s), submitting := k # submitting s\<rparr>)"

text \<open>The second \<open>with\<close> block: the caller appends its task.\<close>

definition submit_task :: "'k \<Rightarrow> 'k retention \<Rightarrow> 'k retention" where
  "submit_task k s = s\<lparr>submitting := remove1 k (submitting s), task_queue := task_queue s @ [k]\<rparr>"

text \<open>\<open>_run_retention_dispatcher\<close>: take the next task.\<close>

definition pop_task :: "'k retention \<Rightarrow> 'k retention" where
  "pop_task s = (case task_queue s of [] \<Rightarrow> s | k # ks \<Rightarrow> s\<lparr>task_queue := ks, dispatcher_at := Debounce k\<rparr>)"

text \<open>One round of the debounce loop.\<close>

definition debounce_round :: "'k \<Rightarrow> 'k retention \<Rightarrow> 'k retention" where
  "debounce_round k s =
     (if k \<in> set (dirty s) then s\<lparr>dirty := removeAll k (dirty s)\<rparr>
      else s\<lparr>pending := removeAll k (pending s), running := List.insert k (running s), dispatcher_at := Pruning k\<rparr>)"

text \<open>The \<open>finally\<close> block after the prune, which runs whatever the prune raised.\<close>

definition finish_prune :: "'k \<Rightarrow> 'k retention \<Rightarrow> 'k retention" where
  "finish_prune k s =
     (let s1 = s\<lparr>running := removeAll k (running s)\<rparr> in
      if k \<in> set (dirty s)
      then s1\<lparr>dirty := removeAll k (dirty s), pending := List.insert k (pending s), dispatcher_at := Requeue k\<rparr>
      else s1\<lparr>dispatcher_at := Idle\<rparr>)"

definition requeue_task :: "'k \<Rightarrow> 'k retention \<Rightarrow> 'k retention" where
  "requeue_task k s = s\<lparr>task_queue := task_queue s @ [k], dispatcher_at := Idle\<rparr>"

text \<open>The condition \<open>flush\<close> waits for.\<close>

definition flush_ready :: "'k retention \<Rightarrow> bool" where
  "flush_ready s = (pending s = [] \<and> running s = [] \<and> dirty s = [])"

section \<open>Interleavings\<close>

text \<open>What the background work does, with the key whose prune a step starts; and everything that can happen,
  with the history newest first.\<close>

inductive background :: "'k retention \<Rightarrow> 'k option \<Rightarrow> 'k retention \<Rightarrow> bool" where
  submit: "k \<in> set (submitting s) \<Longrightarrow> background s None (submit_task k s)"
| pop: "dispatcher_at s = Idle \<Longrightarrow> task_queue s \<noteq> [] \<Longrightarrow> background s None (pop_task s)"
| debounce: "dispatcher_at s = Debounce k \<Longrightarrow> k \<in> set (dirty s) \<Longrightarrow> background s None (debounce_round k s)"
| start: "dispatcher_at s = Debounce k \<Longrightarrow> k \<notin> set (dirty s) \<Longrightarrow> background s (Some k) (debounce_round k s)"
| finish: "dispatcher_at s = Pruning k \<Longrightarrow> background s None (finish_prune k s)"
| requeue: "dispatcher_at s = Requeue k \<Longrightarrow> background s None (requeue_task k s)"

datatype 'k event = Scheduled 'k | Started 'k

inductive history :: "'k event list \<Rightarrow> 'k retention \<Rightarrow> bool" where
  begins: "history [] retention_init"
| scheduled: "history es s \<Longrightarrow> history (Scheduled k # es) (schedule_prune k s)"
| silent: "history es s \<Longrightarrow> background s None s' \<Longrightarrow> history es s'"
| started: "history es s \<Longrightarrow> background s (Some k) s' \<Longrightarrow> history (Started k # es) s'"

text \<open>A request for \<open>k\<close> that no prune of \<open>k\<close> has been started for since.\<close>

fun unserved :: "'k event list \<Rightarrow> 'k \<Rightarrow> bool" where
  "unserved [] k = False"
| "unserved (Scheduled j # es) k = (j = k \<or> unserved es k)"
| "unserved (Started j # es) k = (j \<noteq> k \<and> unserved es k)"

section \<open>The invariant\<close>

fun dispatcher_task :: "'k dispatcher \<Rightarrow> 'k list" where
  "dispatcher_task (Debounce k) = [k]"
| "dispatcher_task (Requeue k) = [k]"
| "dispatcher_task _ = []"

definition in_flight :: "'k retention \<Rightarrow> 'k list" where
  "in_flight s = submitting s @ task_queue s @ dispatcher_task (dispatcher_at s)"

text \<open>A key is pending exactly while one task for it is on its way to the prune, running exactly while it is
  pruned, and dirty only while it is one of the two.\<close>

definition retention_inv :: "'k retention \<Rightarrow> bool" where
  "retention_inv s =
     (distinct (in_flight s) \<and> set (pending s) = set (in_flight s)
      \<and> set (running s) = (case dispatcher_at s of Pruning k \<Rightarrow> {k} | _ \<Rightarrow> {})
      \<and> set (pending s) \<inter> set (running s) = {}
      \<and> set (dirty s) \<subseteq> set (pending s) \<union> set (running s) \<and> distinct (dirty s))"

lemmas retention_defs = schedule_prune_def submit_task_def pop_task_def debounce_round_def finish_prune_def
  requeue_task_def in_flight_def Let_def

lemma inv_init: "retention_inv retention_init"
  by (simp add: retention_inv_def retention_init_def in_flight_def)

lemma inv_schedule: "retention_inv s \<Longrightarrow> retention_inv (schedule_prune k s)"
  by (cases "k \<in> set (pending s) \<or> k \<in> set (running s)")
    (auto simp: retention_inv_def schedule_prune_def in_flight_def Let_def)

lemma inv_submit:
  assumes "retention_inv s" and "k \<in> set (submitting s)"
  shows "retention_inv (submit_task k s)"
proof -
  have "mset (in_flight (submit_task k s)) = mset (in_flight s)"
    using assms(2) by (simp add: submit_task_def in_flight_def)
  then have eq: "set (in_flight (submit_task k s)) = set (in_flight s)"
    "distinct (in_flight (submit_task k s)) = distinct (in_flight s)"
    by (auto dest: mset_eq_setD mset_eq_imp_distinct_iff)
  have fields: "pending (submit_task k s) = pending s" "running (submit_task k s) = running s"
    "dirty (submit_task k s) = dirty s" "dispatcher_at (submit_task k s) = dispatcher_at s"
    by (simp_all add: submit_task_def)
  show ?thesis using assms(1) unfolding retention_inv_def eq fields .
qed

lemma inv_pop: "retention_inv s \<Longrightarrow> dispatcher_at s = Idle \<Longrightarrow> retention_inv (pop_task s)"
  by (cases "task_queue s") (auto simp: retention_inv_def pop_task_def in_flight_def)

lemma inv_debounce: "retention_inv s \<Longrightarrow> dispatcher_at s = Debounce k \<Longrightarrow> retention_inv (debounce_round k s)"
  by (cases "k \<in> set (dirty s)") (auto simp: retention_inv_def debounce_round_def in_flight_def distinct_removeAll)

lemma inv_finish: "retention_inv s \<Longrightarrow> dispatcher_at s = Pruning k \<Longrightarrow> retention_inv (finish_prune k s)"
  by (cases "k \<in> set (dirty s)") (auto simp: retention_inv_def finish_prune_def in_flight_def distinct_removeAll Let_def)

lemma inv_requeue:
  assumes "retention_inv s" and "dispatcher_at s = Requeue k"
  shows "retention_inv (requeue_task k s)"
proof -
  have "in_flight (requeue_task k s) = in_flight s" using assms(2) by (simp add: requeue_task_def in_flight_def)
  then show ?thesis using assms by (auto simp: retention_inv_def requeue_task_def)
qed

lemma inv_background: "background s l s' \<Longrightarrow> retention_inv s \<Longrightarrow> retention_inv s'"
  by (induction rule: background.induct)
    (simp_all add: inv_submit inv_pop inv_debounce inv_finish inv_requeue)

lemma history_inv: "history es s \<Longrightarrow> retention_inv s"
proof (induction rule: history.induct)
  case (silent es s s')
  then show ?case using inv_background by blast
next
  case (started es s k s')
  then show ?case using inv_background by blast
qed (simp_all add: inv_init inv_schedule)

text \<open>Requests that are not served yet are pending or dirty.\<close>

lemma unserved_recorded:
  "history es s \<Longrightarrow> unserved es k \<Longrightarrow> k \<in> set (pending s) \<union> set (dirty s)"
proof (induction arbitrary: k rule: history.induct)
  case (scheduled es s j)
  then show ?case by (auto simp: schedule_prune_def Let_def)
next
  case (silent es s s')
  from silent.hyps(2) silent.IH [OF silent.prems] history_inv [OF silent.hyps(1)] show ?case
    by (cases rule: background.cases) (auto simp: retention_inv_def retention_defs split: list.splits)
next
  case (started es s j s')
  then have "k \<noteq> j" "k \<in> set (pending s) \<union> set (dirty s)" by auto
  with started.hyps(2) show ?case by (cases rule: background.cases) (auto simp: debounce_round_def)
qed simp

text \<open>The work left: every background step consumes some.\<close>

fun dispatcher_work :: "'k dispatcher \<Rightarrow> nat" where
  "dispatcher_work Idle = 0"
| "dispatcher_work (Debounce _) = 3"
| "dispatcher_work (Pruning _) = 2"
| "dispatcher_work (Requeue _) = 5"

definition work_left :: "'k retention \<Rightarrow> nat" where
  "work_left s = 10 * length (dirty s) + 5 * length (submitting s) + 4 * length (task_queue s)
     + dispatcher_work (dispatcher_at s)"

lemma length_removeAll_member: "k \<in> set xs \<Longrightarrow> length (removeAll k xs) < length xs"
  by (rule length_removeAll_less)

lemma background_consumes: "background s l s' \<Longrightarrow> work_left s' < work_left s"
proof (induction rule: background.induct)
  case (submit k s)
  then show ?case using length_pos_if_in_set [OF submit]
    by (simp add: work_left_def submit_task_def length_remove1 del: length_greater_0_conv)
next
  case (pop s)
  then show ?case by (auto simp: work_left_def pop_task_def split: list.splits)
next
  case (debounce s k)
  then show ?case using length_removeAll_member [of k "dirty s"] by (simp add: work_left_def debounce_round_def)
next
  case (finish s k)
  then show ?case using length_removeAll_member [of k "dirty s"]
    by (cases "k \<in> set (dirty s)") (simp_all add: work_left_def finish_prune_def Let_def)
qed (simp_all add: work_left_def debounce_round_def requeue_task_def)

lemma background_enabled:
  assumes "retention_inv s" and "\<not> flush_ready s"
  shows "\<exists>l s'. background s l s'"
proof (cases "dispatcher_at s")
  case Idle
  then have "submitting s \<noteq> [] \<or> task_queue s \<noteq> []"
    using assms by (auto simp: retention_inv_def flush_ready_def in_flight_def)
  then show ?thesis
    using background.submit [of "hd (submitting s)" s] background.pop [OF Idle] by (cases "submitting s") auto
next
  case (Debounce k)
  then show ?thesis using background.debounce [OF Debounce] background.start [OF Debounce] by blast
next
  case (Pruning k)
  then show ?thesis using background.finish [OF Pruning] by blast
next
  case (Requeue k)
  then show ?thesis using background.requeue [OF Requeue] by blast
qed

lemma flush_reached: "retention_inv s \<Longrightarrow> \<exists>s'. (\<lambda>x y. \<exists>l. background x l y)\<^sup>*\<^sup>* s s' \<and> flush_ready s'"
proof (induction "work_left s" arbitrary: s rule: less_induct)
  case less
  show ?case
  proof (cases "flush_ready s")
    case False
    then obtain l s1 where b: "background s l s1" using background_enabled [OF less.prems] by blast
    then obtain s' where "(\<lambda>x y. \<exists>l. background x l y)\<^sup>*\<^sup>* s1 s'" "flush_ready s'"
      using less.hyps [OF background_consumes [OF b] inv_background [OF b less.prems]] by blast
    then show ?thesis using b converse_rtranclp_into_rtranclp [of "\<lambda>x y. \<exists>l. background x l y" s s1 s'] by blast
  qed blast
qed

section \<open>Properties\<close>

text \<open>C33. No prune request is lost: in every interleaving of callers and dispatcher, whenever the condition
  \<open>flush\<close> waits for holds, every request ever made for a sandbox has been followed by the start of a prune of
  that sandbox, and no task is left in the queue.\<close>

theorem no_prune_lost:
  assumes "history es s" and "flush_ready s"
  shows "\<not> unserved es k \<and> task_queue s = [] \<and> submitting s = []"
  using unserved_recorded [OF assms(1), of k] history_inv [OF assms(1)] assms(2)
  by (auto simp: flush_ready_def retention_inv_def in_flight_def)

theorem no_prune_lost_witness:
  "\<not> unserved [Started ''a'', Scheduled ''a'', Scheduled ''a''] ''a''"
proof -
  let ?s1 = "schedule_prune ''a'' (schedule_prune ''a'' (retention_init :: string retention))"
  let ?s2 = "pop_task (submit_task ''a'' ?s1)"
  let ?s4 = "debounce_round ''a'' (debounce_round ''a'' ?s2)"
  let ?s5 = "finish_prune ''a'' ?s4"
  have "history [Scheduled ''a'', Scheduled ''a''] ?s1" by (rule history.scheduled [OF history.scheduled [OF history.begins]])
  then have "history [Scheduled ''a'', Scheduled ''a''] (submit_task ''a'' ?s1)"
    by (rule history.silent [OF _ background.submit]) (simp add: retention_defs retention_init_def)
  then have "history [Scheduled ''a'', Scheduled ''a''] ?s2"
    by (rule history.silent [OF _ background.pop]) (simp_all add: retention_defs retention_init_def)
  then have "history [Scheduled ''a'', Scheduled ''a''] (debounce_round ''a'' ?s2)"
    by (rule history.silent [OF _ background.debounce]) (simp_all add: retention_defs retention_init_def)
  then have "history [Started ''a'', Scheduled ''a'', Scheduled ''a''] ?s4"
    by (rule history.started [OF _ background.start]) (simp_all add: retention_defs retention_init_def)
  then have h: "history [Started ''a'', Scheduled ''a'', Scheduled ''a''] ?s5"
    by (rule history.silent [OF _ background.finish]) (simp_all add: retention_defs retention_init_def)
  show ?thesis
    by (rule no_prune_lost [OF h, THEN conjunct1]) (simp add: flush_ready_def retention_defs retention_init_def)
qed

text \<open>C34. The background work always comes to rest: once no more requests arrive, every sequence of dispatcher
  and submitting steps is finite, its length bounded by \<open>work_left\<close>, it can only stop where the condition
  \<open>flush\<close> waits for holds, and such a state is reached.\<close>

theorem retention_comes_to_rest:
  assumes "history es s"
  shows "(\<forall>l s'. background s l s' \<longrightarrow> work_left s' < work_left s)
       \<and> ((\<nexists>l s'. background s l s') \<longrightarrow> flush_ready s)
       \<and> (\<exists>s'. (\<lambda>x y. \<exists>l. background x l y)\<^sup>*\<^sup>* s s' \<and> flush_ready s')"
proof (intro conjI allI impI)
  show "work_left s' < work_left s" if "background s l s'" for l s' using background_consumes [OF that] .
  show "flush_ready s" if "\<nexists>l s'. background s l s'" using background_enabled [OF history_inv [OF assms]] that by blast
  show "\<exists>s'. (\<lambda>x y. \<exists>l. background x l y)\<^sup>*\<^sup>* s s' \<and> flush_ready s'" by (rule flush_reached [OF history_inv [OF assms]])
qed

theorem retention_comes_to_rest_witness:
  "work_left (submit_task ''a'' (schedule_prune ''a'' retention_init)) < work_left (schedule_prune ''a'' retention_init)"
proof -
  have h: "history [Scheduled ''a''] (schedule_prune ''a'' retention_init)" by (rule history.scheduled [OF history.begins])
  have "background (schedule_prune ''a'' retention_init) None (submit_task ''a'' (schedule_prune ''a'' retention_init))"
    by (rule background.submit) (simp add: retention_defs retention_init_def)
  then show ?thesis using retention_comes_to_rest [OF h] by blast
qed

end
