(* ===== verification/Composite.thy ===== *)
theory Composite
  imports Restore
begin

text \<open>
  The checkpoint and restore workers of \<^verbatim>\<open>crab/workers\<close>: the adapters that drive a runtime
  (\<^verbatim>\<open>process.py\<close>, \<^verbatim>\<open>filesystem.py\<close>) and the composite workers of \<^verbatim>\<open>composite.py\<close> that combine the two halves
  with the local store.  A runtime is a record of its operations over a state of its own; \<open>json.dumps\<close>, the
  hook of the retention policy and the text of an exception are parameters, and the ids and times the code
  draws (\<open>CheckpointId.new()\<close>, \<open>utc_now()\<close>) are arguments.  The two steps of a checkpoint run on a thread
  pool; the model runs the process step first and, like the pool, the filesystem step in any case.
\<close>

section \<open>Jobs and results\<close>

record checkpoint_job =
  job_id :: job_id
  job_sandbox_id :: sandbox_id
  job_requested_at :: instant
  job_reason :: string
  job_checkpoint_process :: bool
  job_checkpoint_filesystem :: bool
  job_leave_running :: bool
  job_is_incremental_process :: bool
  job_parent_process_checkpoint_id :: "checkpoint_id option"
  job_produce_pre_dump :: bool
  job_metadata :: metadata

record restore_job =
  rjob_id :: job_id
  rjob_sandbox_id :: sandbox_id
  rjob_checkpoint_id :: checkpoint_id
  rjob_requested_at :: instant
  rjob_reason :: string
  rjob_metadata :: metadata

datatype job_status = PENDING | RUNNING | SUCCEEDED | FAILED

datatype failure_code = NO_FAILURE | NOT_IMPLEMENTED | RUNTIME_ERROR | STORAGE_ERROR | VALIDATION_ERROR
  | TIMEOUT | UNKNOWN_FAILURE

record worker_step_result =
  step_success :: bool
  step_artifacts :: "artifact_payload list"
  step_operation_status :: runtime_operation_status
  step_failure_code :: failure_code
  step_message :: "string option"

record checkpoint_result =
  cres_job_id :: job_id
  cres_sandbox_id :: sandbox_id
  cres_checkpoint_id :: checkpoint_id
  cres_status :: job_status
  cres_started_at :: instant
  cres_finished_at :: instant
  cres_manifest :: "checkpoint_manifest option"
  cres_failure_code :: failure_code
  cres_message :: "string option"
  cres_operation_statuses :: "runtime_operation_status list"

record restore_result =
  rres_job_id :: job_id
  rres_sandbox_id :: sandbox_id
  rres_checkpoint_id :: checkpoint_id
  rres_status :: job_status
  rres_started_at :: instant
  rres_finished_at :: instant
  rres_failure_code :: failure_code
  rres_message :: "string option"
  rres_operation_statuses :: "runtime_operation_status list"

section \<open>The runtime contract and the worker's surroundings\<close>

record 'r runtime_ops =
  rt_name :: string
  rt_version :: "string option"
  rt_capabilities :: runtime_capabilities
  rt_pre_dump_process :: "sandbox_id \<Rightarrow> checkpoint_id \<Rightarrow> checkpoint_id option \<Rightarrow> ('r, runtime_operation_status) act"
  rt_pre_dump_location :: "'r \<Rightarrow> sandbox_id \<Rightarrow> checkpoint_id \<Rightarrow> string option"
  rt_checkpoint_process ::
    "sandbox_id \<Rightarrow> checkpoint_id \<Rightarrow> bool \<Rightarrow> checkpoint_id option \<Rightarrow> ('r, runtime_operation_status) act"
  rt_process_checkpoint_location :: "'r \<Rightarrow> sandbox_id \<Rightarrow> checkpoint_id \<Rightarrow> string option"
  rt_checkpoint_filesystem :: "sandbox_id \<Rightarrow> checkpoint_id \<Rightarrow> ('r, runtime_operation_status) act"
  rt_filesystem_checkpoint_metadata :: "sandbox_id \<Rightarrow> checkpoint_id \<Rightarrow> ('r, metadata) act"
  rt_restore_process :: "sandbox_id \<Rightarrow> checkpoint_id \<Rightarrow> bool option \<Rightarrow> ('r, runtime_operation_status) act"
  rt_restore_filesystem :: "sandbox_id \<Rightarrow> checkpoint_id \<Rightarrow> ('r, runtime_operation_status) act"
  rt_discard_partial_checkpoint :: "sandbox_id \<Rightarrow> checkpoint_id \<Rightarrow> ('r, unit) act"

text \<open>What the adapters hand to \<open>json.dumps\<close>.\<close>

datatype json_doc = JVal pyval | JMeta metadata | JObj "(string \<times> json_doc) list"

record 'r cr_world =
  cr_store :: store
  cr_runtime :: 'r

definition on_store :: "(store, 'a) act \<Rightarrow> ('r cr_world, 'a) act" where
  "on_store m w = (case m (cr_store w) of (r, st) \<Rightarrow> (r, w\<lparr>cr_store := st\<rparr>))"

definition on_runtime :: "('r, 'a) act \<Rightarrow> ('r cr_world, 'a) act" where
  "on_runtime m w = (case m (cr_runtime w) of (r, rt) \<Rightarrow> (r, w\<lparr>cr_runtime := rt\<rparr>))"

record 'r worker_env =
  we_storage :: storage_env
  we_runtime :: "'r runtime_ops"
  we_json_dumps :: "json_doc \<Rightarrow> string"
  we_path_exists :: "'r \<Rightarrow> string \<Rightarrow> bool"
  we_exc_str :: "py_error \<Rightarrow> string"
  we_checkpoint_guard :: "(checkpoint_job \<Rightarrow> 'r cr_world \<Rightarrow> (bool \<times> string option) res) option"
  we_checkpoint_complete :: "checkpoint_manifest \<Rightarrow> (store, unit) act"

section \<open>The adapters\<close>

definition status_doc :: "runtime_operation_status \<Rightarrow> json_doc" where
  "status_doc s = JObj [(''executed'', JVal (PBool (op_executed s))), (''reason'', JVal (PStr (op_reason s))),
     (''command'', JVal (PList (map PStr (op_command s)))), (''metadata'', JMeta (op_metadata s))]"

definition opt_str :: "string option \<Rightarrow> pyval" where
  "opt_str x = (case x of None \<Rightarrow> PNone | Some s \<Rightarrow> PStr s)"

definition step_ok :: "artifact_payload list \<Rightarrow> runtime_operation_status \<Rightarrow> worker_step_result" where
  "step_ok artifacts status = \<lparr>step_success = True, step_artifacts = artifacts, step_operation_status = status,
     step_failure_code = NO_FAILURE, step_message = None\<rparr>"

definition process_metadata_artifact :: "'r worker_env \<Rightarrow> string \<Rightarrow> json_doc \<Rightarrow> artifact_payload" where
  "process_metadata_artifact we name doc = \<lparr>pay_kind = PROCESS, pay_name = name, pay_data = we_json_dumps we doc,
     pay_metadata = Map.empty(''runtime'' \<mapsto> PStr (rt_name (we_runtime we)))\<rparr>"

definition adapter_process_checkpoint ::
  "'r worker_env \<Rightarrow> checkpoint_job \<Rightarrow> checkpoint_id \<Rightarrow> ('r, worker_step_result) act" where
  "adapter_process_checkpoint we job cid =
     (let rt = we_runtime we; sid = job_sandbox_id job; parent = job_parent_process_checkpoint_id job;
          do_pair = (job_produce_pre_dump job \<and> supports_incremental_process (rt_capabilities rt))
      in act_bind (if do_pair then act_bind (rt_pre_dump_process rt sid cid parent) (\<lambda>s. act_return (Some s))
                   else act_return None) (\<lambda>pre_status.
         act_bind (act_read (\<lambda>r. Inr (if do_pair then rt_pre_dump_location rt r sid cid else None))) (\<lambda>pre_path.
         act_bind (rt_checkpoint_process rt sid cid (job_leave_running job) (if do_pair then Some cid else None)) (\<lambda>status.
         act_bind (act_read (\<lambda>r. Inr (rt_process_checkpoint_location rt r sid cid))) (\<lambda>image.
           let is_chain_node = (do_pair \<and> parent \<noteq> None);
               payload =
                 [(''sandbox_id'', JVal (PStr sid)), (''checkpoint_id'', JVal (PStr cid)),
                  (''leave_running'', JVal (PBool (job_leave_running job))),
                  (''process_kind'', JVal (PStr (if is_chain_node then ''incremental'' else ''full''))),
                  (''process_storage_mode'',
                     JVal (PStr (if py_truthy (opt_str image) then ''runtime_reference'' else ''adapter_default''))),
                  (''process_checkpoint_location'', JVal (opt_str image)),
                  (''status'', status_doc status)]
                 @ (case pre_status of
                      None \<Rightarrow> []
                    | Some s \<Rightarrow> [(''pre_dump_location'', JVal (opt_str pre_path)), (''pre_dump_status'', status_doc s)]
                        @ (case parent of None \<Rightarrow> [] | Some p \<Rightarrow> [(''parent_checkpoint_id'', JVal (PStr p))]))
           in act_return (step_ok [process_metadata_artifact we ''process_checkpoint.json'' (JObj payload)] status))))))"

definition adapter_filesystem_checkpoint ::
  "'r worker_env \<Rightarrow> checkpoint_job \<Rightarrow> checkpoint_id \<Rightarrow> ('r, worker_step_result) act" where
  "adapter_filesystem_checkpoint we job cid =
     (let rt = we_runtime we; sid = job_sandbox_id job in
      act_bind (rt_checkpoint_filesystem rt sid cid) (\<lambda>status.
      act_bind (rt_filesystem_checkpoint_metadata rt sid cid) (\<lambda>md.
        act_return (step_ok
          [\<lparr>pay_kind = FILESYSTEM, pay_name = ''filesystem_checkpoint.json'',
            pay_data = we_json_dumps we (JObj [(''sandbox_id'', JVal (PStr sid)), (''checkpoint_id'', JVal (PStr cid)),
               (''status'', status_doc status), (''filesystem'', JMeta md)]),
            pay_metadata = Map.empty(''runtime'' \<mapsto> PStr (rt_name rt))\<rparr>] status))))"

text \<open>\<open>_restore_checkpoint_id\<close>, the same in both adapters.\<close>

definition restore_checkpoint_id :: "checkpoint_manifest \<Rightarrow> string \<Rightarrow> checkpoint_id \<Rightarrow> checkpoint_id res" where
  "restore_checkpoint_id m key dflt =
     (case meta_get (mf_metadata m) key of None \<Rightarrow> Inr dflt | Some v \<Rightarrow> checkpoint_id_of v)"

definition adapter_process_restore ::
  "'r worker_env \<Rightarrow> restore_job \<Rightarrow> checkpoint_manifest \<Rightarrow> ('r, worker_step_result) act" where
  "adapter_process_restore we job m =
     (let rt = we_runtime we; sid = rjob_sandbox_id job in
      act_bind (act_read (\<lambda>_. restore_checkpoint_id m ''process_restore_checkpoint_id'' (rjob_checkpoint_id job))) (\<lambda>cid.
      act_bind (act_read (\<lambda>r.
         if supports_custom_checkpoint_dir (rt_capabilities rt)
         then case rt_process_checkpoint_location rt r sid cid of
                None \<Rightarrow> Inl ValueError
              | Some path \<Rightarrow> if we_path_exists we r path then Inr () else Inl FileNotFoundError
         else Inr ())) (\<lambda>_.
      act_bind
        (case meta_get (rjob_metadata job) ''lazy_pages'' of
           Some lazy \<Rightarrow> if supports_lazy_restore (rt_capabilities rt)
                        then rt_restore_process rt sid cid (Some (py_truthy lazy))
                        else rt_restore_process rt sid cid None
         | None \<Rightarrow> rt_restore_process rt sid cid None) (\<lambda>status.
        act_return (step_ok [] status)))))"

definition adapter_filesystem_restore ::
  "'r worker_env \<Rightarrow> restore_job \<Rightarrow> checkpoint_manifest \<Rightarrow> ('r, worker_step_result) act" where
  "adapter_filesystem_restore we job m =
     (let rt = we_runtime we; sid = rjob_sandbox_id job in
      act_bind (act_read (\<lambda>_. restore_checkpoint_id m ''filesystem_restore_checkpoint_id'' (rjob_checkpoint_id job))) (\<lambda>cid.
      act_bind (rt_restore_filesystem rt sid cid) (\<lambda>status. act_return (step_ok [] status))))"

section \<open>The composite checkpoint worker\<close>

text \<open>The two step workers the composite workers are built with.\<close>

record 'r step_workers =
  sw_process_checkpoint :: "checkpoint_job \<Rightarrow> checkpoint_id \<Rightarrow> ('r, worker_step_result) act"
  sw_filesystem_checkpoint :: "checkpoint_job \<Rightarrow> checkpoint_id \<Rightarrow> ('r, worker_step_result) act"
  sw_process_restore :: "restore_job \<Rightarrow> checkpoint_manifest \<Rightarrow> ('r, worker_step_result) act"
  sw_filesystem_restore :: "restore_job \<Rightarrow> checkpoint_manifest \<Rightarrow> ('r, worker_step_result) act"

definition adapter_workers :: "'r worker_env \<Rightarrow> 'r step_workers" where
  "adapter_workers we = \<lparr>sw_process_checkpoint = adapter_process_checkpoint we,
     sw_filesystem_checkpoint = adapter_filesystem_checkpoint we,
     sw_process_restore = adapter_process_restore we, sw_filesystem_restore = adapter_filesystem_restore we\<rparr>"

definition checkpoint_scope :: "checkpoint_job \<Rightarrow> string" where
  "checkpoint_scope job =
     (if job_checkpoint_process job \<and> job_checkpoint_filesystem job then ''full''
      else if job_checkpoint_process job then ''process_only''
      else if job_checkpoint_filesystem job then ''filesystem_only'' else ''none'')"

definition checkpoint_estimated_io_bytes :: "int option \<Rightarrow> int option \<Rightarrow> int option" where
  "checkpoint_estimated_io_bytes process_size filesystem_written =
     (let values = List.map_filter id [process_size, filesystem_written] in
      if values = [] then None else Some (sum_list values))"

text \<open>\<open>_has_process_ancestor\<close>: the loop over the listing, newest first.\<close>

fun process_ancestor_loop :: "storage_env \<Rightarrow> store \<Rightarrow> sandbox_id \<Rightarrow> checkpoint_id list \<Rightarrow> bool res" where
  "process_ancestor_loop env st sid [] = Inr False"
| "process_ancestor_loop env st sid (c # cs) =
     (case get_manifest env st sid c of
        Inl FileNotFoundError \<Rightarrow> process_ancestor_loop env st sid cs
      | Inl e \<Rightarrow> Inl e
      | Inr m \<Rightarrow> if mf_process_artifacts m \<noteq> [] then Inr True else process_ancestor_loop env st sid cs)"

definition has_process_ancestor :: "storage_env \<Rightarrow> store \<Rightarrow> sandbox_id \<Rightarrow> bool res" where
  "has_process_ancestor env st sid = process_ancestor_loop env st sid (rev (list_checkpoints st sid))"

definition setdefault :: "string \<Rightarrow> pyval \<Rightarrow> metadata \<Rightarrow> metadata" where
  "setdefault k v md = (case md k of None \<Rightarrow> md(k \<mapsto> v) | Some _ \<Rightarrow> md)"

definition ensure_restorable_checkpoint :: "storage_env \<Rightarrow> store \<Rightarrow> checkpoint_job \<Rightarrow> checkpoint_job res" where
  "ensure_restorable_checkpoint env st job =
     (if job_checkpoint_process job \<or> \<not> job_checkpoint_filesystem job then Inr job
      else case has_process_ancestor env st (job_sandbox_id job) of
        Inl e \<Rightarrow> Inl e
      | Inr True \<Rightarrow> Inr job
      | Inr False \<Rightarrow> Inr (job\<lparr>job_checkpoint_process := True,
          job_metadata := setdefault ''promoted_process_checkpoint_reason'' (PStr ''missing_process_ancestor'')
            (setdefault ''promoted_process_checkpoint'' (PBool True) (job_metadata job))\<rparr>))"

text \<open>The steps in the scope of the job.\<close>

definition run_both ::
  "('w, 'a) act \<Rightarrow> ('w, 'b) act \<Rightarrow> ('w, 'a \<times> 'b) act" where
  "run_both p f w =
     (case p w of (rp, w1) \<Rightarrow>
        (case f w1 of (rf, w2) \<Rightarrow>
           (case (rp, rf) of (Inl e, _) \<Rightarrow> (Inl e, w2) | (Inr _, Inl e) \<Rightarrow> (Inl e, w2) | (Inr x, Inr y) \<Rightarrow> (Inr (x, y), w2))))"

definition run_steps ::
  "'r step_workers \<Rightarrow> checkpoint_job \<Rightarrow> checkpoint_id
     \<Rightarrow> ('r cr_world, worker_step_result option \<times> worker_step_result option) act" where
  "run_steps sw job cid =
     (if job_checkpoint_process job \<and> job_checkpoint_filesystem job
      then act_bind (run_both (on_runtime (sw_process_checkpoint sw job cid))
                              (on_runtime (sw_filesystem_checkpoint sw job cid)))
             (\<lambda>(p, f). act_return (Some p, Some f))
      else if job_checkpoint_process job
      then act_bind (on_runtime (sw_process_checkpoint sw job cid)) (\<lambda>p. act_return (Some p, None))
      else if job_checkpoint_filesystem job
      then act_bind (on_runtime (sw_filesystem_checkpoint sw job cid)) (\<lambda>f. act_return (None, Some f))
      else act_return (None, None))"

definition failed_step :: "worker_step_result option \<times> worker_step_result option \<Rightarrow> worker_step_result option" where
  "failed_step steps = (case steps of (p, f) \<Rightarrow>
     (case p of
        Some x \<Rightarrow> if \<not> step_success x then Some x
                  else (case f of Some y \<Rightarrow> if \<not> step_success y then Some y else None | None \<Rightarrow> None)
      | None \<Rightarrow> (case f of Some y \<Rightarrow> if \<not> step_success y then Some y else None | None \<Rightarrow> None)))"

definition steps_list :: "'a option \<times> 'a option \<Rightarrow> 'a list" where
  "steps_list steps = List.map_filter id [fst steps, snd steps]"

definition step_number :: "worker_step_result option \<Rightarrow> string \<Rightarrow> int option" where
  "step_number s key = (case s of None \<Rightarrow> None | Some x \<Rightarrow> safe_int (op_metadata (step_operation_status x) key))"

fun put_artifacts ::
  "storage_env \<Rightarrow> sandbox_id \<Rightarrow> checkpoint_id \<Rightarrow> artifact_payload list \<Rightarrow> (store, artifact_reference list) act" where
  "put_artifacts env sid cid [] st = (Inr [], st)"
| "put_artifacts env sid cid (a # as) st =
     (case put_artifact env sid cid a st of
        Inl e \<Rightarrow> (Inl e, st)
      | Inr (ref, st1) \<Rightarrow>
          (case put_artifacts env sid cid as st1 of
             (Inl e, st2) \<Rightarrow> (Inl e, st2)
           | (Inr refs, st2) \<Rightarrow> (Inr (ref # refs), st2)))"

definition opt_int :: "int option \<Rightarrow> pyval" where
  "opt_int x = (case x of None \<Rightarrow> PNone | Some i \<Rightarrow> PInt i)"

definition checkpoint_metadata ::
  "checkpoint_job \<Rightarrow> worker_step_result option \<times> worker_step_result option \<Rightarrow> metadata" where
  "checkpoint_metadata job steps =
     (let size = step_number (fst steps) ''process_checkpoint_size_bytes'';
          written = step_number (snd steps) ''filesystem_checkpoint_written_bytes''
      in (job_metadata job)(
           ''job_id'' \<mapsto> PStr (job_id job), ''reason'' \<mapsto> PStr (job_reason job),
           ''leave_running'' \<mapsto> PBool (job_leave_running job), ''checkpoint_scope'' \<mapsto> PStr (checkpoint_scope job),
           ''process_checkpoint_size_bytes'' \<mapsto> opt_int size,
           ''process_checkpoint_file_count'' \<mapsto> opt_int (step_number (fst steps) ''process_checkpoint_file_count''),
           ''filesystem_checkpoint_written_bytes'' \<mapsto> opt_int written,
           ''filesystem_checkpoint_used_bytes'' \<mapsto> opt_int (step_number (snd steps) ''filesystem_checkpoint_used_bytes''),
           ''checkpoint_estimated_io_bytes'' \<mapsto> opt_int (checkpoint_estimated_io_bytes size written)))"

definition is_chain_node :: "'r worker_env \<Rightarrow> checkpoint_job \<Rightarrow> bool" where
  "is_chain_node we job =
     (job_is_incremental_process job \<and> job_parent_process_checkpoint_id job \<noteq> None
      \<and> supports_incremental_process (rt_capabilities (we_runtime we)))"

definition build_manifest ::
  "'r worker_env \<Rightarrow> checkpoint_job \<Rightarrow> checkpoint_id \<Rightarrow> instant \<Rightarrow> artifact_reference list
     \<Rightarrow> worker_step_result option \<times> worker_step_result option \<Rightarrow> checkpoint_manifest" where
  "build_manifest we job cid now refs steps =
     with_integrity (manifest_digest (we_storage we)) \<lparr>
       mf_schema_version = ''v1'', mf_checkpoint_id = cid, mf_sandbox_id = job_sandbox_id job, mf_created_at = now,
       mf_runtime_name = rt_name (we_runtime we), mf_runtime_version = rt_version (we_runtime we),
       mf_process_artifacts = filter (\<lambda>r. ref_kind r = PROCESS) refs,
       mf_filesystem_artifacts = filter (\<lambda>r. ref_kind r = FILESYSTEM) refs,
       mf_metadata = checkpoint_metadata job steps, mf_integrity = Map.empty,
       mf_parent_checkpoint_id = (if is_chain_node we job then job_parent_process_checkpoint_id job else None),
       mf_process_kind = (if is_chain_node we job then ''incremental'' else ''full'')\<rparr>"

text \<open>Best-effort clean-up: \<open>try: ... except Exception: log\<close>.\<close>

definition best_effort :: "('w, unit) act \<Rightarrow> ('w, unit) act" where
  "best_effort m = act_catch m (\<lambda>_. act_return ())"

definition discard_partial :: "'r worker_env \<Rightarrow> sandbox_id \<Rightarrow> checkpoint_id \<Rightarrow> ('r cr_world, unit) act" where
  "discard_partial we sid cid = best_effort (on_runtime (rt_discard_partial_checkpoint (we_runtime we) sid cid))"

text \<open>Writing the manifest and telling the retention policy; the result is \<open>None\<close> or the error.  Only when the
  manifest was not written are the artifacts removed.\<close>

definition persist_manifest ::
  "'r worker_env \<Rightarrow> sandbox_id \<Rightarrow> checkpoint_id \<Rightarrow> checkpoint_manifest \<Rightarrow> ('r cr_world, py_error option) act" where
  "persist_manifest we sid cid m =
     act_catch
       (act_bind (on_store (act_update (put_manifest (we_storage we) m))) (\<lambda>_.
          act_catch (act_bind (on_store (we_checkpoint_complete we m)) (\<lambda>_. act_return None))
                    (\<lambda>e. act_return (Some e))))
       (\<lambda>e. act_bind (best_effort (on_store (delete_checkpoint (we_storage we) sid cid False))) (\<lambda>_.
            act_bind (discard_partial we sid cid) (\<lambda>_. act_return (Some e))))"

definition checkpoint_failed ::
  "checkpoint_job \<Rightarrow> checkpoint_id \<Rightarrow> instant \<Rightarrow> instant \<Rightarrow> failure_code \<Rightarrow> string option
     \<Rightarrow> runtime_operation_status list \<Rightarrow> checkpoint_result" where
  "checkpoint_failed job cid started finished code msg ops = \<lparr>cres_job_id = job_id job,
     cres_sandbox_id = job_sandbox_id job, cres_checkpoint_id = cid, cres_status = FAILED, cres_started_at = started,
     cres_finished_at = finished, cres_manifest = None, cres_failure_code = code, cres_message = msg,
     cres_operation_statuses = ops\<rparr>"

definition checkpoint_succeeded ::
  "checkpoint_job \<Rightarrow> checkpoint_id \<Rightarrow> instant \<Rightarrow> instant \<Rightarrow> checkpoint_manifest
     \<Rightarrow> runtime_operation_status list \<Rightarrow> checkpoint_result" where
  "checkpoint_succeeded job cid started finished m ops = \<lparr>cres_job_id = job_id job,
     cres_sandbox_id = job_sandbox_id job, cres_checkpoint_id = cid, cres_status = SUCCEEDED, cres_started_at = started,
     cres_finished_at = finished, cres_manifest = Some m, cres_failure_code = NO_FAILURE, cres_message = None,
     cres_operation_statuses = ops\<rparr>"

text \<open>\<open>utc_now()\<close> at the start, at the manifest and at the end.\<close>

record clock = t_started :: instant  t_created :: instant  t_finished :: instant

text \<open>After the guard: the steps, the artifacts, the manifest.\<close>

definition checkpoint_body ::
  "'r worker_env \<Rightarrow> 'r step_workers \<Rightarrow> clock \<Rightarrow> checkpoint_job \<Rightarrow> checkpoint_id \<Rightarrow> ('r cr_world, checkpoint_result) act" where
  "checkpoint_body we sw ck job cid =
     (let sid = job_sandbox_id job in
      act_bind (run_steps sw job cid) (\<lambda>steps.
        let ops = map step_operation_status (steps_list steps) in
        case failed_step steps of
          Some s \<Rightarrow> act_bind (discard_partial we sid cid) (\<lambda>_.
            act_return (checkpoint_failed job cid (t_started ck) (t_finished ck) (step_failure_code s) (step_message s) ops))
        | None \<Rightarrow>
            act_bind (on_store (put_artifacts (we_storage we) sid cid (concat (map step_artifacts (steps_list steps))))) (\<lambda>refs.
            let m = build_manifest we job cid (t_created ck) refs steps in
            act_bind (persist_manifest we sid cid m) (\<lambda>err.
              case err of
                Some e \<Rightarrow> act_return (checkpoint_failed job cid (t_started ck) (t_finished ck) STORAGE_ERROR
                            (Some (we_exc_str we e)) ops)
              | None \<Rightarrow> act_return (checkpoint_succeeded job cid (t_started ck) (t_finished ck) m ops)))))"

definition job_checkpoint_id :: "checkpoint_id \<Rightarrow> checkpoint_job \<Rightarrow> checkpoint_id res" where
  "job_checkpoint_id fresh job =
     checkpoint_id_of (case job_metadata job ''checkpoint_id'' of None \<Rightarrow> PStr fresh | Some v \<Rightarrow> v)"

definition composite_checkpoint ::
  "'r worker_env \<Rightarrow> 'r step_workers \<Rightarrow> clock \<Rightarrow> checkpoint_id \<Rightarrow> checkpoint_job \<Rightarrow> ('r cr_world, checkpoint_result) act" where
  "composite_checkpoint we sw ck fresh job0 =
     act_bind (act_read (\<lambda>w. ensure_restorable_checkpoint (we_storage we) (cr_store w) job0)) (\<lambda>job.
     act_bind (act_read (\<lambda>_. job_checkpoint_id fresh job)) (\<lambda>cid.
     act_bind (act_read (\<lambda>w. case we_checkpoint_guard we of None \<Rightarrow> Inr (True, None) | Some guard \<Rightarrow> guard job w)) (\<lambda>(allowed, msg).
       if \<not> allowed
       then act_return (checkpoint_failed job cid (t_started ck) (t_finished ck) VALIDATION_ERROR
              (Some (case msg of None \<Rightarrow> ''checkpoint_rejected'' | Some m \<Rightarrow> if m = [] then ''checkpoint_rejected'' else m)) [])
       else checkpoint_body we sw ck job cid)))"

section \<open>The composite restore worker\<close>

definition restore_failed ::
  "restore_job \<Rightarrow> clock \<Rightarrow> failure_code \<Rightarrow> string option \<Rightarrow> runtime_operation_status list \<Rightarrow> restore_result" where
  "restore_failed job ck code msg ops = \<lparr>rres_job_id = rjob_id job, rres_sandbox_id = rjob_sandbox_id job,
     rres_checkpoint_id = rjob_checkpoint_id job, rres_status = FAILED, rres_started_at = t_started ck,
     rres_finished_at = t_finished ck, rres_failure_code = code, rres_message = msg, rres_operation_statuses = ops\<rparr>"

definition restore_succeeded :: "restore_job \<Rightarrow> clock \<Rightarrow> runtime_operation_status list \<Rightarrow> restore_result" where
  "restore_succeeded job ck ops = \<lparr>rres_job_id = rjob_id job, rres_sandbox_id = rjob_sandbox_id job,
     rres_checkpoint_id = rjob_checkpoint_id job, rres_status = SUCCEEDED, rres_started_at = t_started ck,
     rres_finished_at = t_finished ck, rres_failure_code = NO_FAILURE, rres_message = None,
     rres_operation_statuses = ops\<rparr>"

definition load_restore_manifest :: "storage_env \<Rightarrow> store \<Rightarrow> restore_job \<Rightarrow> checkpoint_manifest res" where
  "load_restore_manifest env st job =
     (case get_manifest env st (rjob_sandbox_id job) (rjob_checkpoint_id job) of
        Inl e \<Rightarrow> Inl e
      | Inr m \<Rightarrow> resolve_restore_manifest env st m None)"

text \<open>A half is restored when the manifest has artifacts for it.\<close>

definition half_step :: "bool \<Rightarrow> ('w, worker_step_result) act \<Rightarrow> ('w, worker_step_result option) act" where
  "half_step present m = (if present then act_bind m (\<lambda>s. act_return (Some s)) else act_return None)"

definition restore_process_half ::
  "'r step_workers \<Rightarrow> clock \<Rightarrow> restore_job \<Rightarrow> checkpoint_manifest \<Rightarrow> runtime_operation_status list
     \<Rightarrow> ('r cr_world, restore_result) act" where
  "restore_process_half sw ck job m ops =
     act_bind (half_step (mf_process_artifacts m \<noteq> []) (on_runtime (sw_process_restore sw job m))) (\<lambda>ps.
       case ps of
         Some p \<Rightarrow>
           if \<not> step_success p
           then act_return (restore_failed job ck (step_failure_code p) (step_message p) (ops @ [step_operation_status p]))
           else act_return (restore_succeeded job ck (ops @ [step_operation_status p]))
       | None \<Rightarrow> act_return (restore_succeeded job ck ops))"

definition restore_steps ::
  "'r step_workers \<Rightarrow> clock \<Rightarrow> restore_job \<Rightarrow> checkpoint_manifest \<Rightarrow> ('r cr_world, restore_result) act" where
  "restore_steps sw ck job m =
     act_bind (half_step (mf_filesystem_artifacts m \<noteq> []) (on_runtime (sw_filesystem_restore sw job m))) (\<lambda>fs.
       case fs of
         Some f \<Rightarrow>
           if \<not> step_success f
           then act_return (restore_failed job ck (step_failure_code f) (step_message f) [step_operation_status f])
           else restore_process_half sw ck job m [step_operation_status f]
       | None \<Rightarrow> restore_process_half sw ck job m [])"

text \<open>The runtime of a restore worker is optional; without it the chain is not checked.  The check's
  \<open>FileNotFoundError\<close> and \<open>RuntimeError\<close> become a failed result, any other error is raised.\<close>

definition composite_restore ::
  "'r worker_env \<Rightarrow> bool \<Rightarrow> 'r step_workers \<Rightarrow> clock \<Rightarrow> restore_job \<Rightarrow> ('r cr_world, restore_result) act" where
  "composite_restore we with_runtime sw ck job w =
     (case load_restore_manifest (we_storage we) (cr_store w) job of
        Inl e \<Rightarrow> (Inr (restore_failed job ck STORAGE_ERROR (Some (we_exc_str we e)) []), w)
      | Inr m \<Rightarrow>
          (case (if with_runtime
                 then validate_incremental_chain (we_storage we) (cr_store w) (rt_capabilities (we_runtime we))
                        (rt_pre_dump_location (we_runtime we) (cr_runtime w) (mf_sandbox_id m))
                        (we_path_exists we (cr_runtime w)) m
                 else Inr ()) of
             Inl e \<Rightarrow>
               if e = FileNotFoundError \<or> e = RuntimeError
               then (Inr (restore_failed job ck STORAGE_ERROR (Some (we_exc_str we e)) []), w)
               else (Inl e, w)
           | Inr _ \<Rightarrow> restore_steps sw ck job m w))"

section \<open>Lemmas\<close>

lemma act_bind_Inr:
  "act_bind m f w = (Inr y, w') \<longleftrightarrow> (\<exists>x w1. m w = (Inr x, w1) \<and> f x w1 = (Inr y, w'))"
  by (auto simp: act_bind_def split: prod.splits sum.splits)

lemma act_catch_Inr:
  "act_catch m h w = (Inr y, w') \<longleftrightarrow>
     m w = (Inr y, w') \<or> (\<exists>e w1. m w = (Inl e, w1) \<and> h e w1 = (Inr y, w'))"
  by (auto simp: act_catch_def split: prod.splits sum.splits)

lemma on_store_Inr: "on_store m w = (r, w') \<longleftrightarrow> (\<exists>st. m (cr_store w) = (r, st) \<and> w' = w\<lparr>cr_store := st\<rparr>)"
  by (auto simp: on_store_def split: prod.splits)

lemma on_runtime_Inr: "on_runtime m w = (r, w') \<longleftrightarrow> (\<exists>rt. m (cr_runtime w) = (r, rt) \<and> w' = w\<lparr>cr_runtime := rt\<rparr>)"
  by (auto simp: on_runtime_def split: prod.splits)

lemma run_both_Inr:
  "run_both p f w = (Inr xy, w') \<longleftrightarrow> (\<exists>x y w1. xy = (x, y) \<and> p w = (Inr x, w1) \<and> f w1 = (Inr y, w'))"
  by (auto simp: run_both_def split: prod.splits sum.splits)

lemmas act_results = act_bind_Inr act_catch_Inr on_store_Inr on_runtime_Inr run_both_Inr

text \<open>The artifacts of one checkpoint, of different kinds, are all readable after the last is written.\<close>

lemma get_artifact_bytes:
  "map_of (art_files st) (ref_relative_path r) = Some (Bytes d) \<Longrightarrow> ref_sha256 r = bytes_digest env d
     \<Longrightarrow> ref_size_bytes r = int (length d) \<Longrightarrow> get_artifact env st r = Inr d"
  by (simp add: get_artifact_def read_path_def follow.simps)

lemma put_artifact_effect:
  assumes "put_artifact env sid cid a st = Inr (r, st')"
  shows "man_files st' = man_files st" "ref_kind r = pay_kind a"
    and "map_of (art_files st') (ref_relative_path r) = Some (Bytes (pay_data a))"
    and "ref_sha256 r = bytes_digest env (pay_data a)" "ref_size_bytes r = int (length (pay_data a))"
    and "fst (snd (snd (ref_relative_path r))) = pay_kind a"
    and "fst (snd (snd q)) \<noteq> pay_kind a \<Longrightarrow> map_of (art_files st') q = map_of (art_files st) q"
  using assms by (auto simp: put_artifact_def Let_def update_conv' split: sum.splits)

lemma put_artifacts_effect:
  assumes "put_artifacts env sid cid as st = (Inr refs, st')" and "distinct (map pay_kind as)"
  shows "man_files st' = man_files st \<and> map ref_kind refs = map pay_kind as
    \<and> (\<forall>r \<in> set refs. \<exists>a \<in> set as. get_artifact env st' r = Inr (pay_data a))
    \<and> (\<forall>q. fst (snd (snd q)) \<notin> pay_kind ` set as \<longrightarrow> map_of (art_files st') q = map_of (art_files st) q)"
  using assms
proof (induction as arbitrary: st refs)
  case (Cons a as)
  obtain r st1 rs where p: "put_artifact env sid cid a st = Inr (r, st1)"
    and q: "put_artifacts env sid cid as st1 = (Inr rs, st')" "refs = r # rs"
    using Cons.prems(1) by (auto split: sum.splits prod.splits)
  note eff = put_artifact_effect [OF p] and IH = Cons.IH [OF q(1)]
  have kind: "pay_kind a \<notin> pay_kind ` set as" using Cons.prems(2) by simp
  have "map_of (art_files st') (ref_relative_path r) = Some (Bytes (pay_data a))"
    using IH Cons.prems(2) eff(3,6) kind by (simp del: split_paired_All)
  then have "get_artifact env st' r = Inr (pay_data a)" using eff(4,5) by (intro get_artifact_bytes)
  then show ?case using IH Cons.prems(2) q(2) eff(1,2,7) by auto
qed auto

lemma adapter_process_artifacts:
  assumes "adapter_process_checkpoint we job cid r = (Inr s, r')"
  shows "map pay_kind (step_artifacts s) = [PROCESS] \<and> step_success s"
  using assms by (auto simp: adapter_process_checkpoint_def act_results Let_def step_ok_def process_metadata_artifact_def
      split: if_splits)

lemma adapter_filesystem_artifacts:
  assumes "adapter_filesystem_checkpoint we job cid r = (Inr s, r')"
  shows "map pay_kind (step_artifacts s) = [FILESYSTEM] \<and> step_success s"
  using assms by (auto simp: adapter_filesystem_checkpoint_def act_results Let_def step_ok_def)

lemma adapter_steps:
  assumes "run_steps (adapter_workers we) job cid w = (Inr steps, w')"
  shows "cr_store w' = cr_store w" and "failed_step steps = None"
    and "map pay_kind (concat (map step_artifacts (steps_list steps)))
       = (if job_checkpoint_process job then [PROCESS] else []) @ (if job_checkpoint_filesystem job then [FILESYSTEM] else [])"
proof -
  have "cr_store w' = cr_store w \<and> failed_step steps = None \<and> map pay_kind (concat (map step_artifacts (steps_list steps)))
     = (if job_checkpoint_process job then [PROCESS] else []) @ (if job_checkpoint_filesystem job then [FILESYSTEM] else [])"
    using assms
    by (auto simp: run_steps_def act_results adapter_workers_def failed_step_def steps_list_def map_filter_simps
        dest!: adapter_process_artifacts adapter_filesystem_artifacts split: if_splits)
  then show "cr_store w' = cr_store w" "failed_step steps = None"
    "map pay_kind (concat (map step_artifacts (steps_list steps)))
       = (if job_checkpoint_process job then [PROCESS] else []) @ (if job_checkpoint_filesystem job then [FILESYSTEM] else [])"
    by blast+
qed

lemma persist_manifest_stored:
  assumes "persist_manifest we sid cid m w = (Inr None, w')"
    and "\<And>m. act_keeps man_files (we_checkpoint_complete we m)" and "\<And>m. act_keeps art_files (we_checkpoint_complete we m)"
  shows "man_files (cr_store w') = AList.update (mf_sandbox_id m, mf_checkpoint_id m) (Readable m) (man_files (cr_store w))"
    and "art_files (cr_store w') = art_files (cr_store w)"
    and "validate_manifest (manifest_digest (we_storage we)) m = Inr ()"
proof -
  obtain st1 where st1: "put_manifest (we_storage we) m (cr_store w) = Inr st1"
    and hook: "we_checkpoint_complete we m st1 = (Inr (), cr_store w')"
    using assms(1) by (auto simp: persist_manifest_def act_results act_update_def split: sum.splits)
  have "man_files (cr_store w') = man_files st1" "art_files (cr_store w') = art_files st1"
    using act_keepsD [OF assms(2) hook] act_keepsD [OF assms(3) hook] .
  then show "man_files (cr_store w') = AList.update (mf_sandbox_id m, mf_checkpoint_id m) (Readable m) (man_files (cr_store w))"
    "art_files (cr_store w') = art_files (cr_store w)" "validate_manifest (manifest_digest (we_storage we)) m = Inr ()"
    using st1 by (auto simp: put_manifest_def split: sum.splits)
qed

text \<open>A successful checkpoint taken apart.\<close>

lemma checkpoint_body_succeeded:
  assumes "checkpoint_body we (adapter_workers we) ck job cid w = (Inr res, w')" and "cres_status res = SUCCEEDED"
    and "\<And>m. act_keeps man_files (we_checkpoint_complete we m)" and "\<And>m. act_keeps art_files (we_checkpoint_complete we m)"
  obtains m where "cres_manifest res = Some m" "cres_checkpoint_id res = cid"
    "mf_checkpoint_id m = cid" "mf_sandbox_id m = job_sandbox_id job"
    "man_files (cr_store w') = AList.update (job_sandbox_id job, cid) (Readable m) (man_files (cr_store w))"
    "validate_manifest (manifest_digest (we_storage we)) m = Inr ()"
    "job_checkpoint_process job \<longleftrightarrow> mf_process_artifacts m \<noteq> []"
    "job_checkpoint_filesystem job \<longleftrightarrow> mf_filesystem_artifacts m \<noteq> []"
    "\<forall>r \<in> set (mf_process_artifacts m) \<union> set (mf_filesystem_artifacts m). is_ok (get_artifact (we_storage we) (cr_store w') r)"
proof -
  let ?sid = "job_sandbox_id job"
  obtain steps w1 where steps: "run_steps (adapter_workers we) job cid w = (Inr steps, w1)"
    using assms(1) by (auto simp: checkpoint_body_def act_results Let_def)
  note ad = adapter_steps [OF steps]
  let ?as = "concat (map step_artifacts (steps_list steps))"
  obtain refs st2 where put: "put_artifacts (we_storage we) ?sid cid ?as (cr_store w1) = (Inr refs, st2)"
    and rest: "act_bind (persist_manifest we ?sid cid (build_manifest we job cid (t_created ck) refs steps)) (\<lambda>err.
        case err of Some e \<Rightarrow> act_return (checkpoint_failed job cid (t_started ck) (t_finished ck) STORAGE_ERROR
            (Some (we_exc_str we e)) (map step_operation_status (steps_list steps)))
        | None \<Rightarrow> act_return (checkpoint_succeeded job cid (t_started ck) (t_finished ck)
            (build_manifest we job cid (t_created ck) refs steps) (map step_operation_status (steps_list steps))))
        (w1\<lparr>cr_store := st2\<rparr>) = (Inr res, w')"
    using assms(1) steps ad(2) by (auto simp: checkpoint_body_def act_results Let_def)
  let ?m = "build_manifest we job cid (t_created ck) refs steps"
  have per: "persist_manifest we ?sid cid ?m (w1\<lparr>cr_store := st2\<rparr>) = (Inr None, w')"
    and res: "res = checkpoint_succeeded job cid (t_started ck) (t_finished ck) ?m (map step_operation_status (steps_list steps))"
  proof -
    obtain err where err: "persist_manifest we ?sid cid ?m (w1\<lparr>cr_store := st2\<rparr>) = (Inr err, w')"
      and out: "res = (case err of
         Some e \<Rightarrow> checkpoint_failed job cid (t_started ck) (t_finished ck) STORAGE_ERROR
            (Some (we_exc_str we e)) (map step_operation_status (steps_list steps))
       | None \<Rightarrow> checkpoint_succeeded job cid (t_started ck) (t_finished ck) ?m (map step_operation_status (steps_list steps)))"
      using rest by (auto simp: act_bind_Inr split: option.splits)
    have "err = None" using out assms(2) by (cases err) (simp_all add: checkpoint_failed_def)
    then show "persist_manifest we ?sid cid ?m (w1\<lparr>cr_store := st2\<rparr>) = (Inr None, w')"
      "res = checkpoint_succeeded job cid (t_started ck) (t_finished ck) ?m (map step_operation_status (steps_list steps))"
      using err out by simp_all
  qed
  have "distinct (map pay_kind ?as)" unfolding ad(3) by simp
  note eff = put_artifacts_effect [OF put this]
  note st = persist_manifest_stored [OF per assms(3,4)]
  have ids: "mf_checkpoint_id ?m = cid" "mf_sandbox_id ?m = ?sid" by (simp_all add: build_manifest_def with_integrity_def)
  have kinds: "mf_process_artifacts ?m = filter (\<lambda>r. ref_kind r = PROCESS) refs"
    "mf_filesystem_artifacts ?m = filter (\<lambda>r. ref_kind r = FILESYSTEM) refs"
    by (simp_all add: build_manifest_def with_integrity_def)
  have km: "ref_kind ` set refs = set ((if job_checkpoint_process job then [PROCESS] else [])
      @ (if job_checkpoint_filesystem job then [FILESYSTEM] else []))"
    using eff ad(3) by (metis set_map)
  have halves: "job_checkpoint_process job \<longleftrightarrow> mf_process_artifacts ?m \<noteq> []"
    "job_checkpoint_filesystem job \<longleftrightarrow> mf_filesystem_artifacts ?m \<noteq> []"
  proof -
    have "filter (\<lambda>r. ref_kind r = k) refs \<noteq> [] \<longleftrightarrow> k \<in> ref_kind ` set refs" for k
      by (auto simp: filter_empty_conv)
    then show "job_checkpoint_process job \<longleftrightarrow> mf_process_artifacts ?m \<noteq> []"
      "job_checkpoint_filesystem job \<longleftrightarrow> mf_filesystem_artifacts ?m \<noteq> []" unfolding kinds km by auto
  qed
  have "is_ok (get_artifact (we_storage we) (cr_store w') r)" if "r \<in> set refs" for r
  proof -
    have "get_artifact (we_storage we) (cr_store w') r = get_artifact (we_storage we) st2 r"
      using st(2) by (simp add: get_artifact_def)
    then show ?thesis using eff that by auto
  qed
  then have ok: "\<forall>r \<in> set (mf_process_artifacts ?m) \<union> set (mf_filesystem_artifacts ?m).
      is_ok (get_artifact (we_storage we) (cr_store w') r)" unfolding kinds by auto
  have man: "man_files (cr_store w') = AList.update (?sid, cid) (Readable ?m) (man_files (cr_store w))"
    using st(1) eff ad(1) ids by simp
  show thesis using that [of ?m] res ids man st(3) halves ok by (simp add: checkpoint_succeeded_def)
qed

lemma process_ancestor_found:
  "process_ancestor_loop env st sid cs = Inr True \<Longrightarrow>
     \<exists>c m. get_manifest env st sid c = Inr m \<and> mf_process_artifacts m \<noteq> []"
proof (induction cs)
  case (Cons c cs)
  then show ?case
    by (cases "get_manifest env st sid c") (auto split: py_error.splits if_splits)
qed simp

lemma ensure_effect:
  assumes "ensure_restorable_checkpoint env st job = Inr job'"
  shows "job_sandbox_id job' = job_sandbox_id job"
    and "job_checkpoint_filesystem job' = job_checkpoint_filesystem job"
    and "job_checkpoint_process job \<Longrightarrow> job_checkpoint_process job'"
    and "job_checkpoint_process job' \<or> \<not> job_checkpoint_filesystem job
      \<or> (\<exists>c m. get_manifest env st (job_sandbox_id job) c = Inr m \<and> mf_process_artifacts m \<noteq> [])"
  using assms process_ancestor_found [of env st "job_sandbox_id job"]
  by (auto simp: ensure_restorable_checkpoint_def has_process_ancestor_def split: if_splits sum.splits bool.splits)

lemma in_update_other: "y \<in> set fs \<Longrightarrow> fst y \<noteq> k \<Longrightarrow> y \<in> set (AList.update k v fs)"
  by (induction fs) auto

lemma get_manifest_file: "get_manifest env st sid c = Inr m \<Longrightarrow> ((sid, c), Readable m) \<in> set (man_files st)"
  by (auto simp: get_manifest_def dest: map_of_SomeD split: option.splits manifest_file.splits sum.splits)

lemma halves_artifacts:
  assumes "restore_halves env st current cs = Inr (pm, fm)"
  shows "pm = Some p \<Longrightarrow> mf_process_artifacts p \<noteq> []" and "fm = Some f \<Longrightarrow> mf_filesystem_artifacts f \<noteq> []"
proof -
  have "(\<forall>p. pm = Some p \<longrightarrow> mf_process_artifacts p \<noteq> []) \<and> (\<forall>f. fm = Some f \<longrightarrow> mf_filesystem_artifacts f \<noteq> [])"
  proof (cases "meta_flag (mf_metadata current) ''logical_checkpoint''")
    case True
    then show ?thesis
      using assms by (auto simp: restore_halves_def dest!: named_source_half split: option.splits sum.splits)
  next
    case False
    then have "fm = find (\<lambda>c. mf_filesystem_artifacts c \<noteq> []) (rev cs)" "latest_process_manifest_for_restore cs fm = pm"
      using assms by (auto simp: restore_halves_def latest_manifest_with_artifacts_def Let_def)
    then show ?thesis
      by (auto simp: latest_process_eq Let_def not_ahead_def has_process_def dest!: find_Some_set split: option.splits)
  qed
  then show "pm = Some p \<Longrightarrow> mf_process_artifacts p \<noteq> []" "fm = Some f \<Longrightarrow> mf_filesystem_artifacts f \<noteq> []" by blast+
qed

lemma resolved_with_artifacts:
  "mf_process_artifacts (resolved_with env m pm fm) = (case pm of None \<Rightarrow> [] | Some p \<Rightarrow> mf_process_artifacts p)"
  "mf_filesystem_artifacts (resolved_with env m pm fm) = (case fm of None \<Rightarrow> [] | Some f \<Rightarrow> mf_filesystem_artifacts f)"
  by (simp_all add: resolved_with_def with_integrity_def)

lemma half_step_Inr:
  "half_step b m w = (Inr x, w') \<longleftrightarrow> (if b then \<exists>s. m w = (Inr s, w') \<and> x = Some s else x = None \<and> w' = w)"
  by (auto simp: half_step_def act_bind_Inr)

text \<open>What a successful run of the two restore steps has done.\<close>

lemma restore_steps_succeeded:
  assumes "restore_steps sw ck job m w = (Inr res, w')" and "rres_status res = SUCCEEDED"
  shows "\<exists>w1 f p. half_step (mf_filesystem_artifacts m \<noteq> []) (on_runtime (sw_filesystem_restore sw job m)) w = (Inr f, w1)
     \<and> half_step (mf_process_artifacts m \<noteq> []) (on_runtime (sw_process_restore sw job m)) w1 = (Inr p, w')"
proof -
  obtain f w1 where f: "half_step (mf_filesystem_artifacts m \<noteq> []) (on_runtime (sw_filesystem_restore sw job m)) w = (Inr f, w1)"
    and rest: "(case f of
         Some f \<Rightarrow> if \<not> step_success f
           then act_return (restore_failed job ck (step_failure_code f) (step_message f) [step_operation_status f])
           else restore_process_half sw ck job m [step_operation_status f]
       | None \<Rightarrow> restore_process_half sw ck job m []) w1 = (Inr res, w')"
    using assms(1) by (auto simp: restore_steps_def act_bind_Inr)
  then obtain ops where "restore_process_half sw ck job m ops w1 = (Inr res, w')"
    using assms(2) by (auto simp: restore_failed_def split: option.splits if_splits)
  then obtain p w2 where p: "half_step (mf_process_artifacts m \<noteq> []) (on_runtime (sw_process_restore sw job m)) w1 = (Inr p, w2)"
    and "w2 = w'" by (auto simp: restore_process_half_def act_bind_Inr split: option.splits if_splits)
  then show ?thesis using f by blast
qed

lemma restore_id_source:
  assumes "meta_get (mf_metadata m) key = Some (PStr c)" and "restore_checkpoint_id m key d = Inr x"
  shows "x = c"
  using assms by (auto simp: restore_checkpoint_id_def checkpoint_id_of_def pystr_def split: if_splits)

lemma filesystem_adapter_source:
  assumes "adapter_filesystem_restore we job (resolved_with env cur pm (Some f)) r = (Inr s, r')"
  shows "\<exists>t. rt_restore_filesystem (we_runtime we) (rjob_sandbox_id job) (mf_checkpoint_id f) r = (Inr t, r')"
  using assms restore_id_source [OF resolved_sources(2) [OF refl]]
  by (auto simp: adapter_filesystem_restore_def act_bind_Inr Let_def)

lemma process_adapter_source:
  assumes "adapter_process_restore we job (resolved_with env cur (Some p) fm) r = (Inr s, r')"
  shows "\<exists>t lazy. rt_restore_process (we_runtime we) (rjob_sandbox_id job) (mf_checkpoint_id p) lazy r = (Inr t, r')"
  using assms restore_id_source [OF resolved_sources(1) [OF refl]]
  by (auto simp: adapter_process_restore_def act_bind_Inr Let_def split: option.splits if_splits) blast+

lemma validate_chain_error:
  "validate_chain env st pd pe sid visited m = Inl e \<Longrightarrow> e = FileNotFoundError \<or> e = RuntimeError \<or> e = ValueError"
proof (induction env st pd pe sid visited m rule: validate_chain.induct)
  case (1 env st pd pe sid visited m)
  from 1(2) show ?case
    by (subst (asm) validate_chain.simps)
      (auto dest: get_manifest_error 1(1) split: option.splits if_splits sum.splits)
qed

lemma validate_incremental_error:
  "validate_incremental_chain env st caps pd pe m = Inl e \<Longrightarrow> e = FileNotFoundError \<or> e = RuntimeError \<or> e = ValueError"
  by (auto simp: validate_incremental_chain_def dest: validate_chain_error split: if_splits)

lemma act_bind_Inl:
  "act_bind m f w = (Inl e, w') \<longleftrightarrow> m w = (Inl e, w') \<or> (\<exists>x w1. m w = (Inr x, w1) \<and> f x w1 = (Inl e, w'))"
  by (auto simp: act_bind_def split: prod.splits sum.splits)

lemma half_step_Inl: "half_step b m w = (Inl e, w') \<longleftrightarrow> b \<and> m w = (Inl e, w')"
  by (auto simp: half_step_def act_bind_Inl)

lemma half_step_store: "half_step b (on_runtime m) w = (r, w') \<Longrightarrow> cr_store w' = cr_store w"
  by (auto simp: half_step_def act_bind_def on_runtime_def split: prod.splits sum.splits if_splits)

lemma restore_process_half_raised:
  "restore_process_half sw ck job m ops w = (Inl e, w') \<Longrightarrow>
     cr_store w' = cr_store w \<and> (\<exists>r r'. sw_process_restore sw job m r = (Inl e, r'))"
  by (auto simp: restore_process_half_def act_bind_Inl half_step_Inl on_runtime_Inr split: option.splits if_splits)

lemma restore_steps_raised:
  assumes "restore_steps sw ck job m w = (Inl e, w')"
  shows "cr_store w' = cr_store w
     \<and> (\<exists>r r'. sw_filesystem_restore sw job m r = (Inl e, r') \<or> sw_process_restore sw job m r = (Inl e, r'))"
  using assms unfolding restore_steps_def act_bind_Inl
proof (elim disjE exE conjE)
  assume "half_step (mf_filesystem_artifacts m \<noteq> []) (on_runtime (sw_filesystem_restore sw job m)) w = (Inl e, w')"
  then show ?thesis by (auto simp: half_step_Inl on_runtime_Inr)
next
  fix f w1
  assume f: "half_step (mf_filesystem_artifacts m \<noteq> []) (on_runtime (sw_filesystem_restore sw job m)) w = (Inr f, w1)"
    and rest: "(case f of
         Some f \<Rightarrow> if \<not> step_success f
           then act_return (restore_failed job ck (step_failure_code f) (step_message f) [step_operation_status f])
           else restore_process_half sw ck job m [step_operation_status f]
       | None \<Rightarrow> restore_process_half sw ck job m []) w1 = (Inl e, w')"
  then obtain ops where "restore_process_half sw ck job m ops w1 = (Inl e, w')"
    by (auto split: option.splits if_splits)
  then show ?thesis using restore_process_half_raised half_step_store [OF f] by metis
qed

section \<open>Properties\<close>

text \<open>C1. A successful checkpoint can be restored from.  When \<open>DefaultCWorker.checkpoint\<close> with the shipped
  adapters reports success for a new checkpoint id, its manifest is stored and loads with a valid hash, it has
  artifacts for exactly the halves in the (possibly promoted) scope, every artifact reads back, every other
  checkpoint is untouched, and some stored checkpoint of the sandbox has a process image, so that a
  filesystem-only checkpoint is never the only one.  The retention hook is assumed to leave the stored files
  alone, as the local manager and the scheduling of a background prune do.\<close>

theorem successful_checkpoint_restorable:
  assumes "composite_checkpoint we (adapter_workers we) ck fresh job w = (Inr res, w')"
    and "cres_status res = SUCCEEDED"
    and "job_checkpoint_process job \<or> job_checkpoint_filesystem job"
    and "\<not> has_manifest (cr_store w) (job_sandbox_id job) (cres_checkpoint_id res)"
    and "\<And>m. act_keeps man_files (we_checkpoint_complete we m)"
    and "\<And>m. act_keeps art_files (we_checkpoint_complete we m)"
  shows "\<exists>m. cres_manifest res = Some m
     \<and> get_manifest (we_storage we) (cr_store w') (job_sandbox_id job) (cres_checkpoint_id res) = Inr m
     \<and> (job_checkpoint_process job \<longrightarrow> mf_process_artifacts m \<noteq> [])
     \<and> (job_checkpoint_filesystem job \<longleftrightarrow> mf_filesystem_artifacts m \<noteq> [])
     \<and> (\<forall>r \<in> set (mf_process_artifacts m) \<union> set (mf_filesystem_artifacts m).
           is_ok (get_artifact (we_storage we) (cr_store w') r))
     \<and> (\<forall>s c. (s, c) \<noteq> (job_sandbox_id job, cres_checkpoint_id res) \<longrightarrow>
           get_manifest (we_storage we) (cr_store w') s c = get_manifest (we_storage we) (cr_store w) s c)
     \<and> (\<exists>x \<in> set (manifests_of (cr_store w') (job_sandbox_id job)). mf_process_artifacts x \<noteq> [])"
proof -
  let ?sid = "job_sandbox_id job" and ?env = "we_storage we"
  obtain job' cid where ens: "ensure_restorable_checkpoint ?env (cr_store w) job = Inr job'"
    and body: "checkpoint_body we (adapter_workers we) ck job' cid w = (Inr res, w')"
    using assms(1,2)
    by (auto simp: composite_checkpoint_def act_bind_Inr checkpoint_failed_def split: if_splits option.splits)
  note e = ensure_effect [OF ens]
  obtain m where m: "cres_manifest res = Some m" "cres_checkpoint_id res = cid"
    "mf_checkpoint_id m = cid" "mf_sandbox_id m = ?sid"
    "man_files (cr_store w') = AList.update (?sid, cid) (Readable m) (man_files (cr_store w))"
    "validate_manifest (manifest_digest ?env) m = Inr ()"
    "job_checkpoint_process job' \<longleftrightarrow> mf_process_artifacts m \<noteq> []"
    "job_checkpoint_filesystem job' \<longleftrightarrow> mf_filesystem_artifacts m \<noteq> []"
    "\<forall>r \<in> set (mf_process_artifacts m) \<union> set (mf_filesystem_artifacts m). is_ok (get_artifact ?env (cr_store w') r)"
    using checkpoint_body_succeeded [OF body assms(2,5,6)] e(1) by metis
  have files: "map_of (man_files (cr_store w')) = (map_of (man_files (cr_store w)))((?sid, cid) \<mapsto> Readable m)"
    using m(5) by (simp add: update_conv')
  have new: "((?sid, cid), Readable m) \<in> set (man_files (cr_store w'))" using files by (simp add: map_of_SomeD)
  have "\<exists>x \<in> set (manifests_of (cr_store w') ?sid). mf_process_artifacts x \<noteq> []"
  proof (cases "job_checkpoint_process job'")
    case True
    then show ?thesis using new m(7) by (auto simp: set_readable)
  next
    case False
    then obtain c x where x: "get_manifest ?env (cr_store w) ?sid c = Inr x" "mf_process_artifacts x \<noteq> []"
      using e(3,4) assms(3) by blast
    then have "c \<noteq> cid" using assms(4) m(2) by (auto simp: has_manifest_def get_manifest_def split: option.splits)
    then have "((?sid, c), Readable x) \<in> set (man_files (cr_store w'))"
      using get_manifest_file [OF x(1)] unfolding m(5) by (intro in_update_other) auto
    then show ?thesis using x(2) by (auto simp: set_readable)
  qed
  then show ?thesis
    using m(1,2,6-9) files e(2,3) by (intro exI [of _ m]) (auto simp: get_manifest_def)
qed

text \<open>A step that raises leaves its output behind: when both halves are captured, the process step has
  produced its image and the filesystem step then raises, the composite checkpoint raises the same error with
  nothing stored and without \<open>discard_partial_checkpoint\<close>, in the very runtime state the two steps left.\<close>

theorem raising_step_not_discarded:
  assumes "job_checkpoint_process job" and "job_checkpoint_filesystem job"
    and "we_checkpoint_guard we = None" and "job_checkpoint_id fresh job = Inr cid"
    and "adapter_process_checkpoint we job cid (cr_runtime w) = (Inr s, r1)"
    and "rt_checkpoint_filesystem (we_runtime we) (job_sandbox_id job) cid r1 = (Inl e, r2)"
  shows "composite_checkpoint we (adapter_workers we) ck fresh job w = (Inl e, w\<lparr>cr_runtime := r2\<rparr>)"
  using assms
  by (simp add: composite_checkpoint_def ensure_restorable_checkpoint_def act_bind_def checkpoint_body_def
      run_steps_def run_both_def on_runtime_def adapter_workers_def adapter_filesystem_checkpoint_def Let_def)

text \<open>C2. A successful restore restores what was resolved, in order.  It changes nothing in the store; the
  sources are the ones \<open>restore_halves\<close> picks and the incremental chain of the process source was complete; the
  filesystem of the filesystem source is restored first, and then, in the runtime state this left, the process
  image of the process source.\<close>

theorem restore_follows_resolution:
  assumes "composite_restore we True (adapter_workers we) ck job w = (Inr res, w')"
    and "rres_status res = SUCCEEDED"
  shows "cr_store w' = cr_store w \<and> (\<exists>m cs pm fm current r1.
       get_manifest (we_storage we) (cr_store w) (rjob_sandbox_id job) (rjob_checkpoint_id job) = Inr m
     \<and> restore_candidates (we_storage we) (cr_store w) m None = Inr cs
     \<and> current = (if cs = [] then m else last cs)
     \<and> restore_halves (we_storage we) (cr_store w) current cs = Inr (pm, fm)
     \<and> validate_incremental_chain (we_storage we) (cr_store w) (rt_capabilities (we_runtime we))
         (rt_pre_dump_location (we_runtime we) (cr_runtime w) (mf_sandbox_id current))
         (we_path_exists we (cr_runtime w)) (resolved_with (we_storage we) current pm fm) = Inr ()
     \<and> (case fm of
          None \<Rightarrow> r1 = cr_runtime w
        | Some f \<Rightarrow> \<exists>s. rt_restore_filesystem (we_runtime we) (rjob_sandbox_id job) (mf_checkpoint_id f) (cr_runtime w) = (Inr s, r1))
     \<and> (case pm of
          None \<Rightarrow> cr_runtime w' = r1
        | Some p \<Rightarrow> \<exists>s lazy. rt_restore_process (we_runtime we) (rjob_sandbox_id job) (mf_checkpoint_id p) lazy r1
                        = (Inr s, cr_runtime w')))"
proof -
  let ?env = "we_storage we" and ?st = "cr_store w"
  obtain m0 res_m where m0: "get_manifest ?env ?st (rjob_sandbox_id job) (rjob_checkpoint_id job) = Inr m0"
    and resolve: "resolve_restore_manifest ?env ?st m0 None = Inr res_m"
    and valid: "validate_incremental_chain ?env ?st (rt_capabilities (we_runtime we))
         (rt_pre_dump_location (we_runtime we) (cr_runtime w) (mf_sandbox_id res_m)) (we_path_exists we (cr_runtime w)) res_m = Inr ()"
    and steps: "restore_steps (adapter_workers we) ck job res_m w = (Inr res, w')"
    using assms by (auto simp: composite_restore_def load_restore_manifest_def restore_failed_def split: sum.splits if_splits)
  obtain cs where cs: "restore_candidates ?env ?st m0 None = Inr cs"
    using resolve by (cases "restore_candidates ?env ?st m0 None") (simp_all add: resolve_with)
  let ?cur = "if cs = [] then m0 else last cs"
  obtain pm fm where h: "restore_halves ?env ?st ?cur cs = Inr (pm, fm)" and rm: "res_m = resolved_with ?env ?cur pm fm"
    using resolve cs by (auto simp: resolve_with Let_def split: sum.splits)
  note arts = halves_artifacts [OF h] resolved_with_artifacts
  obtain w1 f p where fs: "half_step (mf_filesystem_artifacts res_m \<noteq> []) (on_runtime (adapter_filesystem_restore we job res_m)) w = (Inr f, w1)"
    and pr: "half_step (mf_process_artifacts res_m \<noteq> []) (on_runtime (adapter_process_restore we job res_m)) w1 = (Inr p, w')"
    using restore_steps_succeeded [OF steps assms(2)] by (auto simp: adapter_workers_def)
  have 1: "case fm of None \<Rightarrow> cr_runtime w1 = cr_runtime w
      | Some f \<Rightarrow> \<exists>s. rt_restore_filesystem (we_runtime we) (rjob_sandbox_id job) (mf_checkpoint_id f) (cr_runtime w) = (Inr s, cr_runtime w1)"
    and s1: "cr_store w1 = cr_store w"
    using fs arts filesystem_adapter_source unfolding rm
    by (auto simp: half_step_Inr on_runtime_Inr split: option.splits if_splits)
  have 2: "case pm of None \<Rightarrow> cr_runtime w' = cr_runtime w1
      | Some p \<Rightarrow> \<exists>s lazy. rt_restore_process (we_runtime we) (rjob_sandbox_id job) (mf_checkpoint_id p) lazy (cr_runtime w1) = (Inr s, cr_runtime w')"
    and s2: "cr_store w' = cr_store w1"
    using pr arts process_adapter_source unfolding rm
    by (auto simp: half_step_Inr on_runtime_Inr split: option.splits if_splits)
  show ?thesis using m0 cs h valid 1 2 s1 s2 unfolding rm resolved_with_fields by (intro conjI) (blast | simp)+
qed

text \<open>C30. A restore raises in two cases only.  Everything that goes wrong with loading or resolving the manifest
  becomes a failed result; an exception leaves the worker either because the chain check met a damaged ancestor
  manifest (\<open>ValueError\<close>, with nothing touched), which the handler around it does not cover, or because a step
  raised it.\<close>

theorem restore_raises_only:
  assumes "composite_restore we True sw ck job w = (Inl e, w')"
  shows "cr_store w' = cr_store w
     \<and> ((e = ValueError \<and> w' = w \<and> (\<exists>m. load_restore_manifest (we_storage we) (cr_store w) job = Inr m
            \<and> validate_incremental_chain (we_storage we) (cr_store w) (rt_capabilities (we_runtime we))
                (rt_pre_dump_location (we_runtime we) (cr_runtime w) (mf_sandbox_id m)) (we_path_exists we (cr_runtime w)) m
              = Inl ValueError))
        \<or> (\<exists>m r r'. load_restore_manifest (we_storage we) (cr_store w) job = Inr m
            \<and> (sw_filesystem_restore sw job m r = (Inl e, r') \<or> sw_process_restore sw job m r = (Inl e, r'))))"
proof (cases "load_restore_manifest (we_storage we) (cr_store w) job")
  case (Inl err)
  then show ?thesis using assms by (simp add: composite_restore_def)
next
  case (Inr m)
  let ?v = "validate_incremental_chain (we_storage we) (cr_store w) (rt_capabilities (we_runtime we))
    (rt_pre_dump_location (we_runtime we) (cr_runtime w) (mf_sandbox_id m)) (we_path_exists we (cr_runtime w)) m"
  show ?thesis
  proof (cases ?v)
    case (Inl err)
    then have "e = err \<and> w' = w \<and> err \<noteq> FileNotFoundError \<and> err \<noteq> RuntimeError"
      using assms Inr by (auto simp: composite_restore_def split: if_splits)
    moreover have "err = FileNotFoundError \<or> err = RuntimeError \<or> err = ValueError"
      using validate_incremental_error [OF Inl] .
    ultimately show ?thesis using Inl Inr by auto
  next
    case (Inr u)
    then have "restore_steps sw ck job m w = (Inl e, w')"
      using assms \<open>load_restore_manifest (we_storage we) (cr_store w) job = Inr m\<close> by (simp add: composite_restore_def)
    from restore_steps_raised [OF this] show ?thesis
      using \<open>load_restore_manifest (we_storage we) (cr_store w) job = Inr m\<close> by blast
  qed
qed

section \<open>The in-memory runtime as an instance\<close>

definition mem_ops :: "mem_runtime \<Rightarrow> mem_runtime runtime_ops" where
  "mem_ops r0 = \<lparr>rt_name = mem_name r0, rt_version = mem_version r0, rt_capabilities = mem_capabilities r0,
     rt_pre_dump_process = (\<lambda>sid cid parent r. (Inr (mem_pre_dump_process r sid cid parent), r)),
     rt_pre_dump_location = (\<lambda>_ _ _. None),
     rt_checkpoint_process = (\<lambda>sid cid lv parent r. (Inr (mem_checkpoint_process r sid cid lv parent), r)),
     rt_process_checkpoint_location = (\<lambda>_ _ _. None),
     rt_checkpoint_filesystem = (\<lambda>sid cid r. (Inr (mem_checkpoint_filesystem r sid cid), r)),
     rt_filesystem_checkpoint_metadata = (\<lambda>sid cid r. (Inr (mem_filesystem_checkpoint_metadata r sid cid), r)),
     rt_restore_process = (\<lambda>sid cid _ r. (Inr (mem_restore_process r sid cid), r)),
     rt_restore_filesystem = (\<lambda>sid cid r. (Inr (mem_restore_filesystem r sid cid), r)),
     rt_discard_partial_checkpoint = (\<lambda>_ _. act_return ())\<rparr>"

definition demo_runtime :: mem_runtime where
  "demo_runtime = \<lparr>mem_name = ''mem'', mem_version = None, mem_items = Map.empty\<rparr>"

definition demo_worker_env :: "mem_runtime worker_env" where
  "demo_worker_env = \<lparr>we_storage = demo_env, we_runtime = mem_ops demo_runtime, we_json_dumps = (\<lambda>_. ''{}''),
     we_path_exists = (\<lambda>_ _. True), we_exc_str = (\<lambda>_. ''error''), we_checkpoint_guard = None,
     we_checkpoint_complete = (\<lambda>_. act_return ())\<rparr>"

definition demo_clock :: clock where
  "demo_clock = \<lparr>t_started = 0, t_created = 1, t_finished = 2\<rparr>"

definition demo_job :: checkpoint_job where
  "demo_job = \<lparr>job_id = ''j'', job_sandbox_id = ''sb1'', job_requested_at = 0, job_reason = ''manual'',
     job_checkpoint_process = False, job_checkpoint_filesystem = True, job_leave_running = False,
     job_is_incremental_process = False, job_parent_process_checkpoint_id = None, job_produce_pre_dump = False,
     job_metadata = Map.empty\<rparr>"

definition demo_world :: "store \<Rightarrow> mem_runtime cr_world" where
  "demo_world st = \<lparr>cr_store = st, cr_runtime = demo_runtime\<rparr>"

lemma demo_worker_env_fields [simp]:
  "we_storage demo_worker_env = demo_env" "we_runtime demo_worker_env = mem_ops demo_runtime"
  "we_checkpoint_guard demo_worker_env = None" "we_checkpoint_complete demo_worker_env m = act_return ()"
  by (simp_all add: demo_worker_env_def)

lemma build_manifest_valid:
  "manifest_digest (we_storage we) = (\<lambda>_. h) \<Longrightarrow> h \<noteq> [] \<Longrightarrow>
     validate_manifest (manifest_digest (we_storage we)) (build_manifest we job cid now refs steps) = Inr ()"
  by (simp add: validate_manifest_def validate_schema_def validate_integrity_def build_manifest_def with_integrity_def
      compute_manifest_hash_def manifest_schema_version_def)

lemma persist_demo:
  "\<exists>w'. persist_manifest demo_worker_env sid cid (build_manifest demo_worker_env job c now refs steps) w = (Inr None, w')"
proof -
  have "validate_manifest (manifest_digest demo_env) (build_manifest demo_worker_env job c now refs steps) = Inr ()"
    using build_manifest_valid [of demo_worker_env "''h''" job c now refs steps] by (simp add: demo_env_def)
  then show ?thesis by (simp add: persist_manifest_def act_results act_update_def put_manifest_def)
qed

lemma put_artifacts_named:
  "\<forall>a \<in> set as. pay_name a \<noteq> [] \<Longrightarrow> \<exists>refs st'. put_artifacts env sid cid as st = (Inr refs, st')"
proof (induction as arbitrary: st)
  case (Cons a as)
  obtain r st1 where p: "put_artifact env sid cid a st = Inr (r, st1)"
    using Cons.prems by (simp add: put_artifact_def safe_name_def Let_def)
  obtain refs st' where "put_artifacts env sid cid as st1 = (Inr refs, st')" using Cons by fastforce
  then show ?case using p by simp
qed simp

lemma mem_process_step:
  "\<exists>s. adapter_process_checkpoint demo_worker_env job c r = (Inr s, r) \<and> step_success s
     \<and> (\<forall>a \<in> set (step_artifacts s). pay_name a \<noteq> [])"
  by (simp add: adapter_process_checkpoint_def act_bind_def mem_ops_def Let_def step_ok_def process_metadata_artifact_def)

lemma mem_filesystem_step:
  "\<exists>s. adapter_filesystem_checkpoint demo_worker_env job c r = (Inr s, r) \<and> step_success s
     \<and> (\<forall>a \<in> set (step_artifacts s). pay_name a \<noteq> [])"
  by (simp add: adapter_filesystem_checkpoint_def act_bind_def mem_ops_def Let_def step_ok_def)

text \<open>A filesystem-only request on a sandbox without checkpoints is promoted and succeeds.\<close>

lemma demo_checkpoint:
  "\<exists>res w'. composite_checkpoint demo_worker_env (adapter_workers demo_worker_env) demo_clock ''ck'' demo_job
      (demo_world empty_store) = (Inr res, w') \<and> cres_status res = SUCCEEDED \<and> cres_checkpoint_id res = ''ck''"
proof -
  let ?we = demo_worker_env and ?w = "demo_world empty_store"
  obtain job where job: "ensure_restorable_checkpoint demo_env empty_store demo_job = Inr job"
    "job_checkpoint_process job" "job_checkpoint_filesystem job" "job_metadata job ''checkpoint_id'' = None"
    by (simp add: ensure_restorable_checkpoint_def has_process_ancestor_def list_checkpoints_def demo_job_def
        empty_store_def setdefault_def)
  obtain s1 where s1: "adapter_process_checkpoint ?we job ''ck'' demo_runtime = (Inr s1, demo_runtime)" "step_success s1"
    "\<forall>a \<in> set (step_artifacts s1). pay_name a \<noteq> []" using mem_process_step by blast
  obtain s2 where s2: "adapter_filesystem_checkpoint ?we job ''ck'' demo_runtime = (Inr s2, demo_runtime)" "step_success s2"
    "\<forall>a \<in> set (step_artifacts s2). pay_name a \<noteq> []" using mem_filesystem_step by blast
  have steps: "run_steps (adapter_workers ?we) job ''ck'' ?w = (Inr (Some s1, Some s2), ?w)"
    using s1 s2 job by (simp add: run_steps_def act_bind_def run_both_def on_runtime_def adapter_workers_def demo_world_def)
  have fine: "failed_step (Some s1, Some s2) = None" "steps_list (Some s1, Some s2) = [s1, s2]"
    using s1(2) s2(2) by (simp_all add: failed_step_def steps_list_def map_filter_simps)
  have named: "\<forall>a \<in> set (step_artifacts s1 @ step_artifacts s2). pay_name a \<noteq> []" using s1(3) s2(3) by auto
  obtain refs st where put: "put_artifacts demo_env (job_sandbox_id job) ''ck'' (step_artifacts s1 @ step_artifacts s2) empty_store
      = (Inr refs, st)"
    using put_artifacts_named [OF named] by blast
  obtain w' where per: "persist_manifest ?we (job_sandbox_id job) ''ck''
      (build_manifest ?we job ''ck'' (t_created demo_clock) refs (Some s1, Some s2)) (?w\<lparr>cr_store := st\<rparr>) = (Inr None, w')"
    using persist_demo by blast
  have "checkpoint_body ?we (adapter_workers ?we) demo_clock job ''ck'' ?w =
      (Inr (checkpoint_succeeded job ''ck'' (t_started demo_clock) (t_finished demo_clock)
        (build_manifest ?we job ''ck'' (t_created demo_clock) refs (Some s1, Some s2))
        [step_operation_status s1, step_operation_status s2]), w')"
    using steps fine put per by (simp add: checkpoint_body_def act_bind_def Let_def on_store_def demo_world_def)
  moreover have "cr_store ?w = empty_store" by (simp add: demo_world_def)
  ultimately show ?thesis
    using job by (simp add: composite_checkpoint_def act_bind_def job_checkpoint_id_def checkpoint_id_of_def pystr_def
        checkpoint_succeeded_def)
qed

theorem successful_checkpoint_restorable_witness:
  "\<exists>res w' m. composite_checkpoint demo_worker_env (adapter_workers demo_worker_env) demo_clock ''ck'' demo_job
      (demo_world empty_store) = (Inr res, w') \<and> get_manifest demo_env (cr_store w') ''sb1'' ''ck'' = Inr m
      \<and> mf_filesystem_artifacts m \<noteq> []"
proof -
  obtain res w' where c: "composite_checkpoint demo_worker_env (adapter_workers demo_worker_env) demo_clock ''ck'' demo_job
      (demo_world empty_store) = (Inr res, w')" "cres_status res = SUCCEEDED" "cres_checkpoint_id res = ''ck''"
    using demo_checkpoint by blast
  have "act_keeps f (we_checkpoint_complete demo_worker_env m)" for f :: "store \<Rightarrow> 'x" and m
    by (simp add: demo_worker_env_def act_keeps_intros)
  note keeps = this
  have "we_storage demo_worker_env = demo_env" "job_sandbox_id demo_job = ''sb1''" "job_checkpoint_filesystem demo_job"
    "\<not> has_manifest (cr_store (demo_world empty_store)) (job_sandbox_id demo_job) (cres_checkpoint_id res)"
    by (simp_all add: demo_worker_env_def demo_job_def demo_world_def has_manifest_def empty_store_def)
  then show ?thesis using successful_checkpoint_restorable [OF c(1,2) _ _ keeps keeps] c by auto
qed

text \<open>A runtime whose filesystem snapshot times out.\<close>

theorem raising_step_not_discarded_witness:
  "fst (composite_checkpoint (demo_worker_env\<lparr>we_runtime := (mem_ops demo_runtime)\<lparr>rt_checkpoint_filesystem := \<lambda>_ _ r. (Inl RuntimeError, r)\<rparr>\<rparr>)
     (adapter_workers (demo_worker_env\<lparr>we_runtime := (mem_ops demo_runtime)\<lparr>rt_checkpoint_filesystem := \<lambda>_ _ r. (Inl RuntimeError, r)\<rparr>\<rparr>))
     demo_clock ''ck'' (demo_job\<lparr>job_checkpoint_process := True\<rparr>) (demo_world empty_store)) = Inl RuntimeError"
proof -
  let ?we = "demo_worker_env\<lparr>we_runtime := (mem_ops demo_runtime)\<lparr>rt_checkpoint_filesystem := \<lambda>_ _ r. (Inl RuntimeError, r)\<rparr>\<rparr>"
  let ?job = "demo_job\<lparr>job_checkpoint_process := True\<rparr>"
  obtain s where "adapter_process_checkpoint ?we ?job ''ck'' demo_runtime = (Inr s, demo_runtime)"
    by (simp add: adapter_process_checkpoint_def act_bind_def mem_ops_def Let_def demo_job_def)
  then show ?thesis
    using raising_step_not_discarded [of ?job ?we "''ck''" "''ck''" "demo_world empty_store" s demo_runtime RuntimeError demo_runtime demo_clock]
    by (simp add: demo_job_def demo_worker_env_def job_checkpoint_id_def checkpoint_id_of_def pystr_def demo_world_def)
qed

definition demo_restore_job :: "checkpoint_id \<Rightarrow> restore_job" where
  "demo_restore_job cid = \<lparr>rjob_id = ''r'', rjob_sandbox_id = ''sb1'', rjob_checkpoint_id = cid, rjob_requested_at = 0,
     rjob_reason = ''manual'', rjob_metadata = Map.empty\<rparr>"

text \<open>One full checkpoint: the restore takes both halves from it.\<close>

definition demo_full_store :: store where
  "demo_full_store = empty_store\<lparr>man_files := [((''sb1'', ''a''), Readable (demo_full ''a'' 0))]\<rparr>"

lemma demo_restore:
  "\<exists>res. composite_restore demo_worker_env True (adapter_workers demo_worker_env) demo_clock (demo_restore_job ''a'')
      (demo_world demo_full_store) = (Inr res, demo_world demo_full_store) \<and> rres_status res = SUCCEEDED"
proof -
  let ?m = "demo_full ''a'' 0" and ?we = demo_worker_env and ?w = "demo_world demo_full_store"
  let ?r = "resolved_with demo_env ?m (Some ?m) (Some ?m)"
  have get: "get_manifest demo_env demo_full_store ''sb1'' ''a'' = Inr ?m"
    by (simp add: demo_full_store_def empty_store_def get_manifest_def validate_manifest_def validate_schema_def
        validate_integrity_def compute_manifest_hash_def manifest_schema_version_def demo_env_def)
  have "restore_candidates demo_env demo_full_store ?m None = Inr [?m]"
    using get by (simp add: restore_candidates_def list_checkpoints_def demo_full_store_def empty_store_def)
  moreover have "restore_halves demo_env demo_full_store ?m [?m] = Inr (Some ?m, Some ?m)"
    by (simp add: restore_halves_def Let_def latest_manifest_with_artifacts_def latest_process_manifest_for_restore_def)
  ultimately have load: "load_restore_manifest demo_env demo_full_store (demo_restore_job ''a'') = Inr ?r"
    using get by (simp add: load_restore_manifest_def demo_restore_job_def resolve_with Let_def)
  have fs: "\<exists>s. adapter_filesystem_restore ?we (demo_restore_job ''a'') ?r r = (Inr s, r) \<and> step_success s" for r
    using resolved_sources(2) [OF refl, of demo_env ?m "Some ?m" ?m]
    by (simp add: adapter_filesystem_restore_def act_bind_def mem_ops_def Let_def step_ok_def restore_checkpoint_id_def
        checkpoint_id_of_def pystr_def)
  have pr: "\<exists>s. adapter_process_restore ?we (demo_restore_job ''a'') ?r r = (Inr s, r) \<and> step_success s" for r
    using resolved_sources(1) [OF refl, of demo_env ?m ?m "Some ?m"]
    by (simp add: adapter_process_restore_def act_bind_def mem_ops_def mem_capabilities_def Let_def step_ok_def
        restore_checkpoint_id_def checkpoint_id_of_def pystr_def demo_restore_job_def)
  obtain f p where f: "adapter_filesystem_restore ?we (demo_restore_job ''a'') ?r demo_runtime = (Inr f, demo_runtime)" "step_success f"
    and p: "adapter_process_restore ?we (demo_restore_job ''a'') ?r demo_runtime = (Inr p, demo_runtime)" "step_success p"
    using fs pr by blast
  have st: "cr_store ?w = demo_full_store" "cr_runtime ?w = demo_runtime" "?w\<lparr>cr_runtime := demo_runtime\<rparr> = ?w"
    by (simp_all add: demo_world_def)
  have "restore_steps (adapter_workers ?we) demo_clock (demo_restore_job ''a'') ?r ?w =
      (Inr (restore_succeeded (demo_restore_job ''a'') demo_clock [step_operation_status f, step_operation_status p]), ?w)"
    using f p st by (simp add: restore_steps_def act_bind_def half_step_def on_runtime_def adapter_workers_def
        restore_process_half_def resolved_with_artifacts)
  then show ?thesis
    using load st by (simp add: composite_restore_def validate_incremental_chain_def mem_ops_def mem_capabilities_def
        restore_succeeded_def)
qed

theorem restore_follows_resolution_witness:
  "\<exists>res w'. composite_restore demo_worker_env True (adapter_workers demo_worker_env) demo_clock (demo_restore_job ''a'')
      (demo_world demo_full_store) = (Inr res, w') \<and> cr_store w' = demo_full_store"
proof -
  obtain res where r: "composite_restore demo_worker_env True (adapter_workers demo_worker_env) demo_clock (demo_restore_job ''a'')
      (demo_world demo_full_store) = (Inr res, demo_world demo_full_store)" "rres_status res = SUCCEEDED"
    using demo_restore by blast
  show ?thesis using restore_follows_resolution [OF r] r(1) by (auto simp: demo_world_def)
qed

text \<open>A runtime with incremental chains and a damaged ancestor manifest.\<close>

definition damaged_env :: "mem_runtime worker_env" where
  "damaged_env = demo_worker_env\<lparr>we_runtime := (mem_ops demo_runtime)\<lparr>
     rt_capabilities := (mem_capabilities demo_runtime)\<lparr>supports_incremental_process := True\<rparr>,
     rt_pre_dump_location := (\<lambda>_ _ _. Some ''p'')\<rparr>\<rparr>"

definition damaged_store :: store where
  "damaged_store = empty_store\<lparr>man_files :=
     [((''sb1'', ''a''), Unreadable), ((''sb1'', ''b''), Readable (demo_manifest ''b'' 0 (Some ''a'')))]\<rparr>"

lemma damaged_restore:
  "composite_restore damaged_env True (adapter_workers damaged_env) demo_clock (demo_restore_job ''b'') (demo_world damaged_store)
     = (Inl ValueError, demo_world damaged_store)"
proof -
  let ?m = "demo_manifest ''b'' 0 (Some ''a'')"
  have env: "we_storage damaged_env = demo_env" by (simp add: damaged_env_def)
  have get: "get_manifest demo_env damaged_store ''sb1'' ''b'' = Inr ?m"
    "get_manifest demo_env damaged_store ''sb1'' ''a'' = Inl ValueError"
    by (simp_all add: damaged_store_def empty_store_def get_manifest_def validate_manifest_def validate_schema_def
        validate_integrity_def compute_manifest_hash_def manifest_schema_version_def demo_env_def demo_manifest_def)
  have ids: "mf_sandbox_id ?m = ''sb1''" "mf_checkpoint_id ?m = ''b''" "mf_process_artifacts ?m = []"
    "mf_filesystem_artifacts ?m = []" "mf_metadata ?m = Map.empty" "mf_parent_checkpoint_id ?m = Some ''a''"
    "mf_process_kind ?m = ''incremental''" by (simp_all add: demo_manifest_def)
  have "restore_candidates demo_env damaged_store ?m None = Inr [?m]"
    using get ids by (simp add: restore_candidates_def list_checkpoints_def damaged_store_def empty_store_def)
  moreover have "restore_halves demo_env damaged_store ?m [?m] = Inr (None, None)"
    using ids by (simp add: restore_halves_def Let_def latest_manifest_with_artifacts_def latest_process_manifest_for_restore_def)
  ultimately have load: "load_restore_manifest demo_env damaged_store (demo_restore_job ''b'') = Inr (resolved_with demo_env ?m None None)"
    using get by (simp add: load_restore_manifest_def demo_restore_job_def resolve_with Let_def)
  have "mf_process_kind (resolved_with demo_env ?m None None) = ''incremental''"
    using ids by (simp add: resolved_with_def with_integrity_def)
  then show ?thesis
    using load get ids env
    by (simp add: composite_restore_def demo_world_def validate_incremental_chain_def)
      (subst validate_chain.simps, simp add: damaged_env_def demo_worker_env_def)
qed

theorem restore_raises_only_witness:
  "\<exists>m. load_restore_manifest demo_env damaged_store (demo_restore_job ''b'') = Inr m"
  using restore_raises_only [OF damaged_restore] by (auto simp: damaged_env_def demo_world_def)

end
