(* ===== verification/Digits.thy ===== *)
theory Digits
  imports Crab_Prelude
begin

text \<open>
  Numbers as text: the decimal and hexadecimal digits the code prints, and that reading them back gives the number.
\<close>

definition digit_char :: "nat \<Rightarrow> char" where
  "digit_char d = (if d < 10 then char_of (48 + d) else char_of (87 + d))"

text \<open>\<open>format(n, "x")\<close>, as a client writes a chunk size.\<close>

fun hex_digits :: "nat \<Rightarrow> string" where
  "hex_digits n = (if n < 16 then [digit_char n] else hex_digits (n div 16) @ [digit_char (n mod 16)])"

declare hex_digits.simps [simp del]

lemma code_char: "n < 256 \<Longrightarrow> of_char (char_of n :: char) = (n :: nat)"
  by simp

lemma code_digit: "d < 16 \<Longrightarrow> of_char (digit_char d) = (if d < 10 then 48 + d else 87 + d)"
  by (simp add: digit_char_def)

lemma digit_char_value:
  "d < 16 \<Longrightarrow> digit_value 16 (digit_char d) = Some d"
  "d < 10 \<Longrightarrow> digit_value 10 (digit_char d) = Some d"
  by (auto simp: digit_value_def code_digit Let_def)

lemma digit_char_not: "d < 16 \<Longrightarrow> of_char c < (48 :: nat) \<or> of_char c > (102 :: nat) \<or> of_char c \<in> {58..<97 :: nat}
    \<Longrightarrow> digit_char d \<noteq> c"
  using code_digit [of d] by (auto split: if_splits)

lemma digits_value_snoc:
  "digits_value b acc p xs = Some n \<Longrightarrow> digit_value b c = Some d \<Longrightarrow> c \<noteq> CHR ''_''
     \<Longrightarrow> digits_value b acc p (xs @ [c]) = Some (n * b + d)"
  by (induction xs arbitrary: acc p) (auto split: if_splits option.splits)

lemma hex_digits_value: "digits_value 16 0 False (hex_digits n) = Some n"
proof (induction n rule: hex_digits.induct)
  case (1 n)
  have u: "digit_char (n mod 16) \<noteq> CHR ''_''" "n < 16 \<Longrightarrow> digit_char n \<noteq> CHR ''_''"
    by (rule digit_char_not; simp)+
  show ?case
  proof (cases "n < 16")
    case True
    then show ?thesis using u(2) digit_char_value(1) by (subst hex_digits.simps) simp
  next
    case False
    have "digits_value 16 0 False (hex_digits (n div 16) @ [digit_char (n mod 16)]) = Some (n div 16 * 16 + n mod 16)"
      by (rule digits_value_snoc [OF 1 [OF False]]) (use u(1) in \<open>simp_all add: digit_char_value\<close>)
    then show ?thesis using False by (subst hex_digits.simps) simp
  qed
qed

lemma nat_digits_value: "digits_value 10 0 False (nat_digits n) = Some n"
proof (induction n rule: nat_digits.induct)
  case (1 n)
  have c: "char_of (48 + d) = digit_char d" if "d < 10" for d :: nat using that by (simp add: digit_char_def)
  have u: "digit_char (n mod 10) \<noteq> CHR ''_''" "n < 10 \<Longrightarrow> digit_char n \<noteq> CHR ''_''"
    by (rule digit_char_not; simp)+
  show ?case
  proof (cases "n < 10")
    case True
    then show ?thesis using u(2) digit_char_value(2) c by (subst nat_digits.simps) simp
  next
    case False
    have "digits_value 10 0 False (nat_digits (n div 10) @ [digit_char (n mod 10)]) = Some (n div 10 * 10 + n mod 10)"
      by (rule digits_value_snoc [OF 1 [OF False]]) (use u(1) in \<open>simp_all add: digit_char_value\<close>)
    then show ?thesis using False c [of "n mod 10"] by (subst nat_digits.simps) simp
  qed
qed

lemma hex_digits_chars: "set (hex_digits n) \<subseteq> {c. \<exists>d < 16. c = digit_char d}" and hex_digits_nonempty: "hex_digits n \<noteq> []"
proof -
  show "set (hex_digits n) \<subseteq> {c. \<exists>d < 16. c = digit_char d}"
  proof (induction n rule: hex_digits.induct)
    case (1 n)
    then show ?case by (subst hex_digits.simps) (auto intro: exI [of _ "n mod 16"])
  qed
  show "hex_digits n \<noteq> []" by (subst hex_digits.simps) simp
qed

lemma nat_digits_chars: "set (nat_digits n) \<subseteq> {c. \<exists>d < 16. c = digit_char d}" and nat_digits_nonempty: "nat_digits n \<noteq> []"
proof -
  show "set (nat_digits n) \<subseteq> {c. \<exists>d < 16. c = digit_char d}"
  proof (induction n rule: nat_digits.induct)
    case (1 n)
    have "\<exists>e < 16. char_of (48 + d) = digit_char e" if "d < 10" for d :: nat
      using that by (intro exI [of _ d]) (simp add: digit_char_def)
    then show ?case using 1 by (subst nat_digits.simps) auto
  qed
  show "nat_digits n \<noteq> []" by (subst nat_digits.simps) simp
qed

lemma strip_plain: "\<forall>c \<in> set s. \<not> sp c \<Longrightarrow> strip_by sp s = s"
proof -
  assume a: "\<forall>c \<in> set s. \<not> sp c"
  have d: "dropWhile sp xs = xs" if "\<forall>c \<in> set xs. \<not> sp c" for xs using that by (cases xs) auto
  show ?thesis using d [of s] d [of "rev s"] a by (simp add: strip_by_def)
qed

lemma int_text_digits:
  assumes "set s \<subseteq> {c. \<exists>d < 16. c = digit_char d}" and "\<And>c. c \<in> set s \<Longrightarrow> \<not> sp c" and "s \<noteq> []"
    and "digits_value 10 0 False s = Some n"
  shows "int_text sp 10 s = Inr (int n)"
proof -
  obtain c cs where s: "s = c # cs" using assms(3) by (cases s) auto
  then obtain d where "d < 16" "c = digit_char d" using assms(1) by auto
  then have "c \<noteq> CHR ''-''" "c \<noteq> CHR ''+''" using digit_char_not [of d] by auto
  then have "split_sign s = (1, s)" using s by (simp add: split_sign_def)
  then show ?thesis using assms(2,4) strip_plain [of s sp] by (simp add: int_text_def)
qed

end
