(* ===== verification/Http_Wire.thy ===== *)
theory Http_Wire
  imports Digits
begin

text \<open>
  \<^verbatim>\<open>crab/http_wire.py\<close>: the HTTP/1.x parsing and printing the egress recorder uses.  Bytes and the latin-1 text
  decoded from them are lists of characters; positions are Python's integers, with the wrap-around of a
  negative index written out in \<open>py_slice\<close> and \<open>py_find\<close>.  The chunk loop may not end, so it is a partial
  function whose value \<open>None\<close> is not returning.
\<close>

section \<open>Bytes\<close>

abbreviation crlf :: string where
  "crlf \<equiv> [CHR 0x0D, CHR 0x0A]"

text \<open>The index a Python slice bound stands for in a sequence of length \<open>n\<close>.\<close>

definition py_index :: "nat \<Rightarrow> int \<Rightarrow> nat" where
  "py_index n i = (if i < 0 then nat (i + int n) else min n (nat i))"

definition py_slice :: "'a list \<Rightarrow> int \<Rightarrow> int \<Rightarrow> 'a list" where
  "py_slice xs i j = take (py_index (length xs) j - py_index (length xs) i) (drop (py_index (length xs) i) xs)"

fun find_at :: "string \<Rightarrow> string \<Rightarrow> nat option" where
  "find_at sub [] = (if sub = [] then Some 0 else None)"
| "find_at sub (x # xs) = (if prefix sub (x # xs) then Some 0 else map_option Suc (find_at sub xs))"

text \<open>\<open>data.find(sub, start)\<close> for a non-empty \<open>sub\<close>, with \<open>None\<close> for \<open>-1\<close>.\<close>

definition py_find :: "string \<Rightarrow> string \<Rightarrow> int \<Rightarrow> int option" where
  "py_find data sub start =
     (let s = py_index (length data) start in map_option (\<lambda>n. int (s + n)) (find_at sub (drop s data)))"

text \<open>\<open>str.strip\<close> and \<open>str.lower\<close> on latin-1 text.\<close>

definition latin1_space :: "char \<Rightarrow> bool" where
  "latin1_space c = (str_space c \<or> c = CHR 0x85 \<or> c = CHR 0xA0)"

definition latin1_lower :: "char \<Rightarrow> char" where
  "latin1_lower c = (let n = (of_char c :: nat) in
     if (65 \<le> n \<and> n \<le> 90) \<or> (192 \<le> n \<and> n \<le> 222 \<and> n \<noteq> 215) then char_of (n + 32) else c)"

fun split_crlf :: "string \<Rightarrow> string list" where
  "split_crlf [] = [[]]"
| "split_crlf (a # xs) =
     (if prefix crlf (a # xs) then [] # split_crlf (drop 1 xs)
      else case split_crlf xs of [] \<Rightarrow> [[a]] | l # ls \<Rightarrow> (a # l) # ls)"

section \<open>Heads\<close>

record http_head =
  start_line :: string
  headers :: "(string \<times> string) list"
  rest :: string

definition max_head_bytes :: nat where
  "max_head_bytes = 64 * 1024"

definition head_get :: "http_head \<Rightarrow> string \<Rightarrow> string" where
  "head_get h name =
     (case find (\<lambda>(k, _). map latin1_lower k = map latin1_lower name) (headers h) of
        None \<Rightarrow> [] | Some (_, v) \<Rightarrow> v)"

definition content_length :: "http_head \<Rightarrow> int option" where
  "content_length h =
     (let raw = head_get h ''content-length'' in
      if raw = [] then None
      else case int_text latin1_space 10 (strip_by latin1_space raw) of Inl _ \<Rightarrow> None | Inr n \<Rightarrow> Some n)"

definition is_chunked :: "http_head \<Rightarrow> bool" where
  "is_chunked h = sublist ''chunked'' (map latin1_lower (head_get h ''transfer-encoding''))"

fun parse_headers :: "string list \<Rightarrow> (string \<times> string) list option" where
  "parse_headers [] = Some []"
| "parse_headers (l # ls) =
     (if CHR '':'' \<notin> set l then None
      else case parse_headers ls of
             None \<Rightarrow> None
           | Some hs \<Rightarrow> Some ((strip_by latin1_space (takeWhile (\<lambda>c. c \<noteq> CHR '':'') l),
                              strip_by latin1_space (drop 1 (dropWhile (\<lambda>c. c \<noteq> CHR '':'') l))) # hs))"

definition parse_head :: "string \<Rightarrow> http_head option" where
  "parse_head raw =
     (let data = (if length raw > max_head_bytes then take max_head_bytes raw else raw) in
      case find_at (crlf @ crlf) data of
        None \<Rightarrow> None
      | Some t \<Rightarrow>
          (case split_crlf (take t data) of
             [] \<Rightarrow> None
           | l # ls \<Rightarrow>
               if l = [] then None
               else case parse_headers ls of
                      None \<Rightarrow> None
                    | Some hs \<Rightarrow> Some \<lparr>start_line = l, headers = hs, rest = drop (t + 4) data\<rparr>))"

text \<open>\<open>s.split(" ", 2)\<close>.\<close>

definition split_space :: "string \<Rightarrow> string \<times> string option" where
  "split_space s =
     (let r = dropWhile (\<lambda>c. c \<noteq> CHR '' '') s in
      (takeWhile (\<lambda>c. c \<noteq> CHR '' '') s, if r = [] then None else Some (drop 1 r)))"

definition parse_status_line :: "string \<Rightarrow> (int \<times> string) option" where
  "parse_status_line l =
     (case split_space l of
        (_, None) \<Rightarrow> None
      | (p0, Some r) \<Rightarrow>
          if \<not> prefix ''HTTP/'' (map char_upper p0) then None
          else case split_space r of (p1, p2) \<Rightarrow>
            (case int_text latin1_space 10 p1 of
               Inl _ \<Rightarrow> None
             | Inr status \<Rightarrow> Some (status, case p2 of None \<Rightarrow> [] | Some x \<Rightarrow> x)))"

section \<open>Chunked bodies\<close>

text \<open>The loop of \<open>dechunk\<close>: \<open>Some None\<close> is the return value \<open>None\<close>.\<close>

partial_function (option) dechunk_loop :: "string \<Rightarrow> int \<Rightarrow> string \<Rightarrow> string option option" where
  "dechunk_loop data position out =
     (case py_find data crlf position of
        None \<Rightarrow> Some None
      | Some line_end \<Rightarrow>
          (case int_text bytes_space 16
                  (strip_by bytes_space (takeWhile (\<lambda>c. c \<noteq> CHR '';'') (py_slice data position line_end))) of
             Inl _ \<Rightarrow> Some None
           | Inr sz \<Rightarrow>
               let position1 = line_end + 2 in
               if sz = 0 then Some (Some out)
               else if position1 + sz > int (length data) then Some None
               else dechunk_loop data (position1 + (sz + 2)) (out @ py_slice data position1 (position1 + sz))))"

definition dechunk :: "string \<Rightarrow> string option option" where
  "dechunk data = dechunk_loop data 0 []"

section \<open>Assembling a response\<close>

record response_assembler =
  asm_limit :: int
  asm_buffer :: string
  asm_truncated :: bool
  asm_total :: int

definition new_assembler :: "int \<Rightarrow> response_assembler" where
  "new_assembler limit = \<lparr>asm_limit = limit, asm_buffer = [], asm_truncated = False, asm_total = 0\<rparr>"

definition feed :: "string \<Rightarrow> response_assembler \<Rightarrow> response_assembler" where
  "feed chunk a0 =
     (let a = a0\<lparr>asm_total := asm_total a0 + int (length chunk)\<rparr> in
      if asm_limit a \<le> int (length (asm_buffer a)) then a\<lparr>asm_truncated := True\<rparr>
      else
        let room = asm_limit a - int (length (asm_buffer a)) in
        if int (length chunk) > room
        then a\<lparr>asm_buffer := asm_buffer a @ py_slice chunk 0 room, asm_truncated := True\<rparr>
        else a\<lparr>asm_buffer := asm_buffer a @ chunk\<rparr>)"

text \<open>\<open>result\<close>: the outer option is \<open>None\<close> when the chunk loop does not return.\<close>

definition response_body :: "http_head \<Rightarrow> string option option" where
  "response_body h =
     (if is_chunked h then dechunk (rest h)
      else case content_length h of
             None \<Rightarrow> Some (Some (rest h))
           | Some n \<Rightarrow> if int (length (rest h)) < n then Some None else Some (Some (py_slice (rest h) 0 n)))"

definition assembler_result :: "response_assembler \<Rightarrow> (http_head \<times> int \<times> string \<times> string) option option" where
  "assembler_result a =
     (if asm_truncated a then Some None
      else case parse_head (asm_buffer a) of
        None \<Rightarrow> Some None
      | Some h \<Rightarrow>
          (case parse_status_line (start_line h) of
             None \<Rightarrow> Some None
           | Some (status, reason) \<Rightarrow>
               map_option (map_option (\<lambda>body. (h, status, reason, body))) (response_body h)))"

section \<open>Printing a response\<close>

definition dropped_headers :: "string list" where
  "dropped_headers = [''transfer-encoding'', ''content-length'', ''connection'', ''keep-alive'']"

definition header_line :: "string \<times> string \<Rightarrow> string" where
  "header_line nv = fst nv @ '': '' @ snd nv"

definition serialize_response :: "int \<Rightarrow> string \<Rightarrow> (string \<times> string) list \<Rightarrow> string \<Rightarrow> string" where
  "serialize_response status reason hs body =
     (let first = rev (dropWhile latin1_space (rev (''HTTP/1.1 '' @ int_str status @ '' '' @ reason)));
          kept = filter (\<lambda>(n, _). map latin1_lower n \<notin> set dropped_headers) hs;
          lines = first # map header_line kept
                  @ [''Content-Length: '' @ int_str (int (length body)), ''Connection: close'']
      in concat (map (\<lambda>l. l @ crlf) lines) @ crlf @ body)"

section \<open>Numbers as text\<close>

lemma digit_not_space:
  "d < 16 \<Longrightarrow> \<not> latin1_space (digit_char d)" "d < 16 \<Longrightarrow> \<not> bytes_space (digit_char d)"
  "\<not> latin1_space (CHR ''-'')"
proof -
  show "\<not> latin1_space (digit_char d)" if "d < 16"
  proof -
    have "digit_char d \<noteq> CHR 0x85" "digit_char d \<noteq> CHR 0xA0" 
      using digit_char_not [OF that, of "CHR 0x85"] digit_char_not [OF that, of "CHR 0xA0"] by simp_all
    then show ?thesis using that by (simp add: latin1_space_def str_space_def Let_def code_digit)
  qed
  show "\<not> bytes_space (digit_char d)" if "d < 16" using that by (simp add: bytes_space_def Let_def code_digit)
  show "\<not> latin1_space (CHR ''-'')" by (simp add: latin1_space_def str_space_def)
qed

lemma int_text_length: "int_text latin1_space 10 (int_str (int n)) = Inr (int n)"
proof -
  have "\<not> latin1_space c" if "c \<in> set (nat_digits n)" for c
    using nat_digits_chars [of n] that digit_not_space(1) by auto
  then have "int_text latin1_space 10 (nat_digits n) = Inr (int n)"
    using int_text_digits [OF nat_digits_chars _ nat_digits_nonempty nat_digits_value, where sp = latin1_space] by blast
  then show ?thesis by (simp add: int_str_def)
qed

section \<open>Searching and splitting\<close>

lemma find_at_skip:
  assumes "sub \<noteq> []" and "hd sub \<notin> set l"
  shows "find_at sub (l @ xs) = map_option (\<lambda>n. length l + n) (find_at sub xs)"
  using assms(2)
proof (induction l)
  case Nil
  then show ?case by (cases "find_at sub xs") simp_all
next
  case (Cons a l)
  then have "\<not> prefix sub (a # l @ xs)" using assms(1) by (cases sub) auto
  then show ?case using Cons by (cases "find_at sub xs") simp_all
qed

lemma find_at_take:
  "find_at sub (take n xs) = Some t \<Longrightarrow> find_at sub xs = Some t \<and> t + length sub \<le> n"
proof (induction xs arbitrary: n t)
  case Nil
  then show ?case by (simp split: if_splits)
next
  case (Cons x xs)
  show ?case
  proof (cases n)
    case 0
    then show ?thesis using Cons.prems by (simp split: if_splits)
  next
    case (Suc k)
    show ?thesis
    proof (cases "prefix sub (x # take k xs)")
      case True
      then have "prefix sub (x # xs)" by (metis Suc append_take_drop_id prefix_append prefix_order.trans take_Suc_Cons append_prefixD prefixI)
      then show ?thesis using Cons.prems Suc True prefix_length_le [OF True] by auto
    next
      case False
      then obtain u where u: "find_at sub (take k xs) = Some u" "t = Suc u" using Cons.prems Suc by auto
      have "\<not> prefix sub (x # xs)"
      proof
        assume p: "prefix sub (x # xs)"
        have "u + length sub \<le> k" using Cons.IH [OF u(1)] by blast
        then have "prefix sub (take (Suc k) (x # xs))" using p
          by (metis Suc_leD le_add2 le_trans less_eq_Suc_le not_less_eq_eq prefix_def take_append take_all append_take_drop_id nat_le_linear prefix_length_prefix take_is_prefix length_take min.absorb2)
        then show False using False by simp
      qed
      then show ?thesis using Cons.IH [OF u(1)] u(2) Suc by simp
    qed
  qed
qed

text \<open>The head of a printed message: lines without a carriage return, none of them empty.\<close>

definition plain_line :: "string \<Rightarrow> bool" where
  "plain_line l = (l \<noteq> [] \<and> CHR 0x0D \<notin> set l)"

definition join_lines :: "string list \<Rightarrow> string" where
  "join_lines ls = concat (map (\<lambda>l. l @ crlf) ls)"

lemma find_at_crlf:
  "y \<noteq> [] \<and> hd y \<noteq> CHR 0x0D \<Longrightarrow>
     find_at (crlf @ crlf) (crlf @ y) = map_option (\<lambda>n. 2 + n) (find_at (crlf @ crlf) y)"
  by (cases y) (simp_all add: option.map_comp comp_def)

lemma find_terminator:
  assumes "ls \<noteq> []" and "\<forall>l \<in> set ls. plain_line l"
  shows "find_at (crlf @ crlf) (join_lines ls @ crlf @ body) = Some (length (join_lines ls) - 2)"
  using assms
proof (induction ls)
  case (Cons l ls)
  have skip: "find_at (crlf @ crlf) (l @ xs) = map_option (\<lambda>n. length l + n) (find_at (crlf @ crlf) xs)" for xs
    using Cons.prems(2) by (intro find_at_skip) (simp_all add: plain_line_def)
  show ?case
  proof (cases ls)
    case Nil
    then show ?thesis using skip [of "crlf @ crlf @ body"] by (simp add: join_lines_def)
  next
    case (Cons k ks)
    have "plain_line k" using Cons.prems(2) \<open>ls = k # ks\<close> by simp
    then obtain c cs where k: "k = c # cs" "c \<noteq> CHR 0x0D" by (cases k) (auto simp: plain_line_def)
    have IH: "find_at (crlf @ crlf) (join_lines ls @ crlf @ body) = Some (length (join_lines ls) - 2)"
      using Cons.IH Cons.prems \<open>ls = k # ks\<close> by simp
    have len: "2 \<le> length (join_lines ls)" using \<open>ls = k # ks\<close> by (simp add: join_lines_def)
    have "find_at (crlf @ crlf) (crlf @ join_lines ls @ crlf @ body) = map_option (\<lambda>n. 2 + n) (find_at (crlf @ crlf) (join_lines ls @ crlf @ body))"
      using k \<open>ls = k # ks\<close> by (intro find_at_crlf) (simp add: join_lines_def)
    then show ?thesis using skip [of "crlf @ join_lines ls @ crlf @ body"] IH len by (simp add: join_lines_def)
  qed
qed simp

lemma split_crlf_plain: "CHR 0x0D \<notin> set l \<Longrightarrow> split_crlf l = [l]"
  by (induction l) auto

lemma split_crlf_line: "CHR 0x0D \<notin> set l \<Longrightarrow> split_crlf (l @ crlf @ xs) = l # split_crlf xs"
  by (induction l) auto

lemma split_join:
  assumes "\<forall>l \<in> set ls. plain_line l" and "ls \<noteq> []"
  shows "split_crlf (take (length (join_lines ls) - 2) (join_lines ls)) = ls"
  using assms
proof (induction ls)
  case (Cons l ls)
  have l: "CHR 0x0D \<notin> set l" using Cons.prems(1) by (simp add: plain_line_def)
  show ?case
  proof (cases "ls = []")
    case True
    then show ?thesis using l by (simp add: join_lines_def split_crlf_plain)
  next
    case False
    then have len: "2 \<le> length (join_lines ls)" by (cases ls) (simp_all add: join_lines_def)
    have "join_lines (l # ls) = l @ crlf @ join_lines ls" by (simp add: join_lines_def)
    then have "take (length (join_lines (l # ls)) - 2) (join_lines (l # ls))
        = l @ crlf @ take (length (join_lines ls) - 2) (join_lines ls)"
      using len by (auto simp: take_Cons' Suc_diff_le numeral_2_eq_2)
    then show ?thesis using Cons False l split_crlf_line [of l] by simp
  qed
qed simp

section \<open>Printed heads parse back\<close>

definition stripped :: "string \<Rightarrow> bool" where
  "stripped s = (strip_by latin1_space s = s)"

text \<open>A header a replay can carry: no carriage return, no colon in the name, no outer white space.\<close>

definition header_ok :: "string \<times> string \<Rightarrow> bool" where
  "header_ok nv = (CHR 0x0D \<notin> set (fst nv) \<and> CHR 0x0D \<notin> set (snd nv) \<and> CHR '':'' \<notin> set (fst nv)
     \<and> stripped (fst nv) \<and> stripped (snd nv))"

definition reason_ok :: "string \<Rightarrow> bool" where
  "reason_ok r = (CHR 0x0D \<notin> set r \<and> (r \<noteq> [] \<longrightarrow> \<not> latin1_space (last r)))"

lemma space_is_space: "latin1_space (CHR '' '')"
  by (simp add: latin1_space_def str_space_def)

lemma strip_space: "strip_by latin1_space (CHR '' '' # v) = strip_by latin1_space v"
  using space_is_space by (simp add: strip_by_def)

lemma parse_header_lines:
  "\<forall>h \<in> set hs. header_ok h \<Longrightarrow> parse_headers (map header_line hs) = Some hs"
proof (induction hs)
  case (Cons h hs)
  obtain n v where h: "h = (n, v)" by (cases h)
  have colon: "\<forall>c \<in> set n. c \<noteq> CHR '':''" using Cons.prems h by (auto simp: header_ok_def)
  have "takeWhile (\<lambda>c. c \<noteq> CHR '':'') (n @ '': '' @ v) = n" "dropWhile (\<lambda>c. c \<noteq> CHR '':'') (n @ '': '' @ v) = '': '' @ v"
    using colon by (simp_all add: takeWhile_append2 dropWhile_append2)
  then show ?case using Cons h strip_space by (simp add: header_line_def header_ok_def stripped_def)
qed simp

lemma header_line_plain: "header_ok h \<Longrightarrow> plain_line (header_line h)"
  by (auto simp: header_ok_def plain_line_def header_line_def)

lemma status_text_plain: "c \<in> set (int_str (int n)) \<Longrightarrow> \<not> latin1_space c \<and> c \<noteq> CHR '' ''"
  using nat_digits_chars [of n] digit_not_space(1) space_is_space by (auto simp: int_str_def)

text \<open>The status line: trailing white space is stripped, which only an empty reason leaves.\<close>

lemma rstrip_last: "\<not> sp (last xs) \<Longrightarrow> xs \<noteq> [] \<Longrightarrow> rev (dropWhile sp (rev xs)) = xs"
  by (cases xs rule: rev_cases) simp_all

lemma first_line:
  assumes "reason_ok reason"
  shows "rev (dropWhile latin1_space (rev (''HTTP/1.1 '' @ int_str (int n) @ '' '' @ reason)))
     = ''HTTP/1.1 '' @ int_str (int n) @ (if reason = [] then [] else '' '' @ reason)"
proof (cases "reason = []")
  case True
  have ne: "int_str (int n) \<noteq> []" using nat_digits_nonempty by (simp add: int_str_def)
  have "\<not> latin1_space (last (''HTTP/1.1 '' @ int_str (int n)))"
    using ne status_text_plain [of "last (int_str (int n))" n] by simp
  from rstrip_last [of latin1_space, OF this] show ?thesis using True space_is_space by simp
next
  case False
  have "\<not> latin1_space (last (''HTTP/1.1 '' @ int_str (int n) @ '' '' @ reason))"
    using assms False by (simp add: reason_ok_def)
  from rstrip_last [of latin1_space, OF this] show ?thesis using False by simp
qed

lemma parse_status_printed:
  "parse_status_line (''HTTP/1.1 '' @ int_str (int n) @ (if reason = [] then [] else '' '' @ reason)) = Some (int n, reason)"
proof -
  let ?d = "int_str (int n)" and ?r = "if reason = [] then [] else '' '' @ reason"
  have sp: "\<forall>c \<in> set ?d. c \<noteq> CHR '' ''" using status_text_plain by blast
  have 1: "split_space (''HTTP/1.1 '' @ ?d @ ?r) = (''HTTP/1.1'', Some (?d @ ?r))"
    by (simp add: split_space_def)
  have 2: "split_space (?d @ ?r) = (?d, if reason = [] then None else Some reason)"
    using sp by (simp add: split_space_def Let_def takeWhile_append2 dropWhile_append2 takeWhile_eq_all_conv dropWhile_eq_Nil_conv)
  have "prefix ''HTTP/'' (map char_upper ''HTTP/1.1'')" by (simp add: char_upper_def)
  then show ?thesis unfolding parse_status_line_def 1 using 2 int_text_length [of n] by simp
qed

definition kept_headers :: "(string \<times> string) list \<Rightarrow> (string \<times> string) list" where
  "kept_headers hs = filter (\<lambda>(n, _). map latin1_lower n \<notin> set dropped_headers) hs"

definition printed_headers :: "(string \<times> string) list \<Rightarrow> string \<Rightarrow> (string \<times> string) list" where
  "printed_headers hs body =
     kept_headers hs @ [(''Content-Length'', int_str (int (length body))), (''Connection'', ''close'')]"

lemma serialize_lines:
  "serialize_response (int n) reason hs body =
     join_lines (rev (dropWhile latin1_space (rev (''HTTP/1.1 '' @ int_str (int n) @ '' '' @ reason)))
       # map header_line (printed_headers hs body)) @ crlf @ body"
  by (simp add: serialize_response_def join_lines_def printed_headers_def kept_headers_def header_line_def Let_def)

lemma printed_headers_ok:
  assumes "\<forall>h \<in> set hs. header_ok h"
  shows "\<forall>h \<in> set (printed_headers hs body). header_ok h"
proof -
  have d: "\<not> latin1_space c" "c \<noteq> CHR 0x0D" if "c \<in> set (int_str (int (length body)))" for c
    using status_text_plain [OF that] by (auto simp: latin1_space_def str_space_def)
  have "header_ok (''Content-Length'', int_str (int (length body)))"
    using d strip_plain [of "int_str (int (length body))" latin1_space]
    by (auto simp: header_ok_def stripped_def) (simp add: strip_by_def latin1_space_def str_space_def)
  moreover have "header_ok (''Connection'', ''close'')"
    by (simp add: header_ok_def stripped_def strip_by_def latin1_space_def str_space_def)
  ultimately show ?thesis using assms by (auto simp: printed_headers_def kept_headers_def)
qed

lemma drop_head: "2 \<le> length J \<Longrightarrow> drop (length J - 2 + 4) (J @ crlf @ body) = body"
proof -
  assume "2 \<le> length J"
  then have "length J - 2 + 4 = length J + 2" by arith
  then show ?thesis by simp
qed

lemma parse_printed:
  assumes "reason_ok reason" and "\<forall>h \<in> set hs. header_ok h"
    and "length (serialize_response (int n) reason hs body) \<le> max_head_bytes"
  shows "parse_head (serialize_response (int n) reason hs body) =
     Some \<lparr>start_line = ''HTTP/1.1 '' @ int_str (int n) @ (if reason = [] then [] else '' '' @ reason),
           headers = printed_headers hs body, rest = body\<rparr>"
proof -
  let ?first = "''HTTP/1.1 '' @ int_str (int n) @ (if reason = [] then [] else '' '' @ reason)"
  let ?ls = "?first # map header_line (printed_headers hs body)"
  have data: "serialize_response (int n) reason hs body = join_lines ?ls @ crlf @ body"
    unfolding serialize_lines first_line [OF assms(1)] ..
  have "CHR 0x0D \<notin> set (int_str (int n))" using status_text_plain [of "CHR 0x0D" n] by (auto simp: latin1_space_def str_space_def)
  then have "plain_line ?first" using assms(1) by (auto simp: plain_line_def reason_ok_def)
  then have plain: "\<forall>l \<in> set ?ls. plain_line l"
    using printed_headers_ok [OF assms(2)] header_line_plain by auto
  have len: "2 \<le> length (join_lines ?ls)" by (simp add: join_lines_def)
  have found: "find_at (crlf @ crlf) (join_lines ?ls @ crlf @ body) = Some (length (join_lines ?ls) - 2)"
    using find_terminator [OF _ plain] by blast
  have "take (length (join_lines ?ls) - 2) (join_lines ?ls @ crlf @ body)
      = take (length (join_lines ?ls) - 2) (join_lines ?ls)" by simp
  then have split: "split_crlf (take (length (join_lines ?ls) - 2) (join_lines ?ls @ crlf @ body)) = ?ls"
    using split_join [OF plain] by simp
  have "drop (length (join_lines ?ls) - 2 + 4) (join_lines ?ls @ crlf @ body) = body"
    by (rule drop_head [OF len])
  then show ?thesis
    using assms(3) found split parse_header_lines [OF printed_headers_ok [OF assms(2)]]
    unfolding parse_head_def data Let_def by (simp add: not_less [symmetric])
qed

lemma find_other_header:
  assumes "map latin1_lower name \<in> set dropped_headers"
  shows "find (\<lambda>(k, _). map latin1_lower k = map latin1_lower name) (kept_headers hs) = None"
  using assms by (auto simp: find_None_iff kept_headers_def)

lemma find_append: "find P (xs @ ys) = (case find P xs of None \<Rightarrow> find P ys | Some x \<Rightarrow> Some x)"
  by (induction xs) auto

lemma lower_names:
  "map latin1_lower ''Content-Length'' = ''content-length''" "map latin1_lower ''content-length'' = ''content-length''"
  "map latin1_lower ''Connection'' = ''connection''" "map latin1_lower ''transfer-encoding'' = ''transfer-encoding''"
  by code_simp+

lemma printed_framing:
  assumes "headers h = printed_headers hs body"
  shows "content_length h = Some (int (length body))" and "\<not> is_chunked h"
proof -
  have k: "find (\<lambda>(k, _). map latin1_lower k = map latin1_lower ''content-length'') (kept_headers hs) = None"
    "find (\<lambda>(k, _). map latin1_lower k = map latin1_lower ''transfer-encoding'') (kept_headers hs) = None"
    using find_other_header [of "''content-length''" hs] find_other_header [of "''transfer-encoding''" hs]
    unfolding lower_names by (simp_all add: dropped_headers_def)
  have "head_get h ''content-length'' = int_str (int (length body))"
    using k(1) unfolding head_get_def assms printed_headers_def find_append find.simps lower_names prod.case by simp
  moreover have "strip_by latin1_space (int_str (int (length body))) = int_str (int (length body))"
    using status_text_plain by (intro strip_plain) blast
  moreover have "int_str (int (length body)) \<noteq> []" using nat_digits_nonempty by (simp add: int_str_def)
  ultimately show "content_length h = Some (int (length body))"
    using int_text_length by (simp add: content_length_def)
  have "head_get h ''transfer-encoding'' = []"
    using k(2) unfolding head_get_def assms printed_headers_def find_append find.simps lower_names prod.case by simp
  then show "\<not> is_chunked h" by (simp add: is_chunked_def)
qed

lemma feed_fits:
  "\<not> asm_truncated a \<Longrightarrow> int (length (asm_buffer a)) + int (length (concat cs)) < asm_limit a \<Longrightarrow>
     \<not> asm_truncated (fold feed cs a) \<and> asm_buffer (fold feed cs a) = asm_buffer a @ concat cs"
proof (induction cs arbitrary: a)
  case (Cons c cs)
  have f: "feed c a = a\<lparr>asm_total := asm_total a + int (length c), asm_buffer := asm_buffer a @ c\<rparr>"
    using Cons.prems(2) by (simp add: feed_def Let_def)
  show ?case using Cons.IH [of "feed c a"] Cons.prems by (simp add: f)
qed simp

section \<open>Chunked bodies that a sender writes\<close>

text \<open>A chunked body as a sender frames it.\<close>

fun encode_chunks :: "string list \<Rightarrow> string" where
  "encode_chunks [] = ''0'' @ crlf @ crlf"
| "encode_chunks (c # cs) = hex_digits (length c) @ crlf @ c @ crlf @ encode_chunks cs"

lemma hex_digit_chars:
  assumes "c \<in> set (hex_digits n)"
  shows "c \<noteq> CHR 0x0D" "c \<noteq> CHR '';''" "c \<noteq> CHR ''x''" "c \<noteq> CHR ''X''" "c \<noteq> CHR ''-''" "c \<noteq> CHR ''+''" "\<not> bytes_space c"
proof -
  obtain d where d: "d < 16" "c = digit_char d" using hex_digits_chars [of n] assms by auto
  show "c \<noteq> CHR 0x0D" "c \<noteq> CHR '';''" "c \<noteq> CHR ''x''" "c \<noteq> CHR ''X''" "c \<noteq> CHR ''-''" "c \<noteq> CHR ''+''"
    unfolding d(2) by (rule digit_char_not [OF d(1)], simp)+
  show "\<not> bytes_space c" using digit_not_space(2) d by simp
qed

lemma int_text_hex: "int_text bytes_space 16 (hex_digits n) = Inr (int n)"
proof -
  let ?s = "hex_digits n"
  obtain c cs where s: "?s = c # cs" using hex_digits_nonempty by (cases ?s) auto
  then have "split_sign ?s = (1, ?s)" using hex_digit_chars [of c n] by (simp add: split_sign_def)
  moreover have "strip_by bytes_space ?s = ?s" using hex_digit_chars(7) by (intro strip_plain) blast
  moreover have "drop_hex_prefix ?s = ?s"
  proof (cases cs)
    case Nil
    then show ?thesis using s by (simp add: drop_hex_prefix_def)
  next
    case (Cons e es)
    then have "e \<noteq> CHR ''x''" "e \<noteq> CHR ''X''" using hex_digit_chars(3,4) [of e n] s by simp_all
    then show ?thesis using s Cons by (simp add: drop_hex_prefix_def)
  qed
  ultimately show ?thesis using hex_digits_value by (simp add: int_text_def)
qed

lemma py_slice_middle: "py_slice (a @ b @ c) (int (length a)) (int (length a) + int (length b)) = b"
proof -
  have "nat (int (length a) + int (length b)) = length a + length b" by simp
  then show ?thesis by (simp add: py_slice_def py_index_def)
qed

lemma py_find_line:
  assumes "CHR 0x0D \<notin> set l"
  shows "py_find (a @ l @ crlf @ c) crlf (int (length a)) = Some (int (length a) + int (length l))"
  using find_at_skip [of crlf l "crlf @ c"] assms by (simp add: py_find_def py_index_def Let_def)

lemma takeWhile_line: "CHR '';'' \<notin> set l \<Longrightarrow> takeWhile (\<lambda>c. c \<noteq> CHR '';'') l = l"
  by (auto simp: takeWhile_eq_all_conv)

lemma dechunk_loop_line:
  assumes "CHR 0x0D \<notin> set l" and "CHR '';'' \<notin> set l" and "strip_by bytes_space l = l"
    and "int_text bytes_space 16 l = Inr sz"
  shows "dechunk_loop (a @ l @ crlf @ c) (int (length a)) out =
    (let position1 = int (length a) + int (length l) + 2 in
     if sz = 0 then Some (Some out)
     else if position1 + sz > int (length (a @ l @ crlf @ c)) then Some None
     else dechunk_loop (a @ l @ crlf @ c) (position1 + (sz + 2)) (out @ py_slice (a @ l @ crlf @ c) position1 (position1 + sz)))"
  using py_find_line [OF assms(1), of a c] py_slice_middle [of a l "crlf @ c"] takeWhile_line [OF assms(2)] assms(3,4)
  by (subst dechunk_loop.simps) (simp del: takeWhile_eq_all_conv)

lemma dechunk_loop_encoded:
  "\<forall>c \<in> set cs. c \<noteq> [] \<Longrightarrow>
     dechunk_loop (a @ encode_chunks cs @ tail) (int (length a)) out = Some (Some (out @ concat cs))"
proof (induction cs arbitrary: a out)
  case Nil
  have h: "''0'' = hex_digits 0" by code_simp
  have "int_text bytes_space 16 ''0'' = Inr 0" using int_text_hex [of 0] h by simp
  then show ?case
    using dechunk_loop_line [of "''0''" 0 a "crlf @ tail" out] strip_plain [of "''0''" bytes_space]
    by (simp add: bytes_space_def)
next
  case (Cons c cs)
  let ?l = "hex_digits (length c)" and ?rest = "encode_chunks cs @ tail"
  let ?data = "a @ ?l @ crlf @ c @ crlf @ ?rest" and ?a = "a @ ?l @ crlf @ c @ crlf"
  have strip: "strip_by bytes_space ?l = ?l" using hex_digit_chars(7) by (intro strip_plain) blast
  have nz: "int (length c) \<noteq> 0" using Cons.prems by simp
  have sl: "py_slice ?data (int (length a) + int (length ?l) + 2) (int (length a) + int (length ?l) + 2 + int (length c)) = c"
    using py_slice_middle [of "a @ ?l @ crlf" c "crlf @ ?rest"] by (simp add: ac_simps)
  have pos: "int (length a) + int (length ?l) + 2 + (int (length c) + 2) = int (length ?a)" by simp
  have "dechunk_loop ?data (int (length a)) out = dechunk_loop ?data (int (length ?a)) (out @ c)"
    using dechunk_loop_line [OF _ _ strip int_text_hex, of a "c @ crlf @ ?rest" out] hex_digit_chars(1,2) nz
    unfolding Let_def append.assoc sl pos by auto
  also have "\<dots> = Some (Some ((out @ c) @ concat cs))"
    using Cons.IH [of ?a "out @ c"] Cons.prems by simp
  finally show ?case by simp
qed

text \<open>A size line with a negative number moves the position back onto itself.\<close>

lemma dechunk_loop_back:
  assumes "dechunk_loop data position out = Some y"
  shows "\<not> (data = ''-6'' @ crlf \<and> position = 0)"
proof (rule dechunk_loop.raw_induct [where P = "\<lambda>data position out y. \<not> (data = ''-6'' @ crlf \<and> position = 0)", OF _ assms])
  fix f data position out y
  assume IH: "\<And>data position out y. f data position out = Some y \<Longrightarrow> \<not> (data = ''-6'' @ crlf \<and> position = 0)"
    and step: "(case py_find data crlf position of
        None \<Rightarrow> Some None
      | Some line_end \<Rightarrow>
          (case int_text bytes_space 16
                  (strip_by bytes_space (takeWhile (\<lambda>c. c \<noteq> CHR '';'') (py_slice data position line_end))) of
             Inl _ \<Rightarrow> Some None
           | Inr sz \<Rightarrow>
               let position1 = line_end + 2 in
               if sz = 0 then Some (Some out)
               else if position1 + sz > int (length data) then Some None
               else f data (position1 + (sz + 2)) (out @ py_slice data position1 (position1 + sz)))) = Some y"
  show "\<not> (data = ''-6'' @ crlf \<and> position = 0)"
  proof
    assume d: "data = ''-6'' @ crlf \<and> position = 0"
    have "int_text bytes_space 16 ''-6'' = Inr (- 6)" "strip_by bytes_space ''-6'' = ''-6''" by code_simp+
    moreover have "py_find (''-6'' @ crlf) crlf 0 = Some 2" "py_slice (''-6'' @ crlf) 0 2 = ''-6''"
      by (simp_all add: py_find_def py_slice_def py_index_def)
    ultimately have "f (''-6'' @ crlf) 0 (out @ py_slice (''-6'' @ crlf) 4 (- 2)) = Some y"
      using step d by (simp add: Let_def)
    then show False using IH by blast
  qed
qed

section \<open>Properties\<close>

text \<open>C40. What is fed is what is buffered: after any sequence of chunks the buffer holds exactly the first
  \<open>limit\<close> bytes of the stream, never more than the limit, the byte count is exact, and as long as the
  assembler is not marked truncated nothing has been dropped.\<close>

theorem assembler_buffer:
  assumes "0 \<le> limit"
  shows "let a = fold feed chunks (new_assembler limit) in
     asm_buffer a = take (nat limit) (concat chunks) \<and> int (length (asm_buffer a)) \<le> limit
     \<and> asm_total a = int (length (concat chunks))
     \<and> (\<not> asm_truncated a \<longrightarrow> asm_buffer a = concat chunks)"
proof -
  define inv where "inv = (\<lambda>(a :: response_assembler) (s :: string). asm_limit a = limit \<and> asm_buffer a = take (nat limit) s
      \<and> asm_total a = int (length s) \<and> (\<not> asm_truncated a \<longrightarrow> int (length s) \<le> limit))"
  have step: "inv (feed c a) (s @ c)" if i: "inv a s" for a s c
  proof (cases "limit \<le> int (length (asm_buffer a))")
    case True
    then have "nat limit \<le> length s" using i assms by (simp add: inv_def)
    then show ?thesis using i True by (simp add: inv_def feed_def Let_def)
  next
    case False
    then have "length s < nat limit" using i assms by (simp add: inv_def min_def split: if_splits)
    then show ?thesis using i False assms by (auto simp: inv_def feed_def Let_def py_slice_def py_index_def nat_diff_distrib)
  qed
  have "inv (fold feed cs a) (s @ concat cs)" if "inv a s" for cs a s
    using that
  proof (induction cs arbitrary: a s)
    case (Cons c cs)
    from Cons.IH [OF step [OF Cons.prems]] show ?case by simp
  qed simp
  from this [of "new_assembler limit" "[]" chunks] show ?thesis
    using assms by (auto simp: inv_def new_assembler_def Let_def)
qed

theorem assembler_buffer_witness:
  "asm_buffer (fold feed [''ab'', ''cd''] (new_assembler 3)) = ''abc''"
  using assembler_buffer [of 3 "[''ab'', ''cd'']"] by (simp add: Let_def)



text \<open>C39. Chunked bodies decode to what was sent: for every sequence of non-empty chunks, framed with their
  hexadecimal sizes and the final empty chunk, \<open>dechunk\<close> returns their concatenation, whatever follows.\<close>

theorem dechunk_roundtrip:
  assumes "\<forall>c \<in> set cs. c \<noteq> []"
  shows "dechunk (encode_chunks cs @ trailing) = Some (Some (concat cs))"
  using dechunk_loop_encoded [OF assms, of "[]" trailing "[]"] by (simp add: dechunk_def)

theorem dechunk_roundtrip_witness: "dechunk (encode_chunks [''ab'', ''c''] @ ''x'') = Some (Some ''abc'')"
  using dechunk_roundtrip [of "[''ab'', ''c'']" "''x''"] by simp

text \<open>A negative chunk size makes the decoder loop for ever: on the four bytes of one size line it does not
  return at all.\<close>

theorem dechunk_negative_size_hangs: "dechunk (''-6'' @ crlf) = None"
  using dechunk_loop_back [of "''-6'' @ crlf" 0 "[]"] by (cases "dechunk (''-6'' @ crlf)") (auto simp: dechunk_def)

text \<open>Responses longer than the limit on heads are cut.  \<open>parse_head\<close> truncates head and body together, so
  for a response of more than 64 KiB that fits the recording limit, an unframed body is reported as complete
  although its end is missing, and a response with the exact Content-Length is not reported at all.\<close>

theorem long_response_cut:
  assumes "concat chunks = data" and "max_head_bytes < length data" and "int (length data) < limit"
    and "parse_head data = Some h" and "parse_status_line (start_line h) = Some (status, reason)"
    and "\<not> is_chunked h"
  shows "\<exists>t. find_at (crlf @ crlf) data = Some t
     \<and> (content_length h = None \<longrightarrow>
          (\<exists>b. assembler_result (fold feed chunks (new_assembler limit)) = Some (Some (h, status, reason, b))
             \<and> strict_prefix b (drop (t + 4) data)))
     \<and> (content_length h = Some (int (length (drop (t + 4) data))) \<longrightarrow>
          assembler_result (fold feed chunks (new_assembler limit)) = Some None)"
proof -
  let ?a = "fold feed chunks (new_assembler limit)" and ?M = max_head_bytes
  have a: "\<not> asm_truncated ?a" "asm_buffer ?a = data"
    using feed_fits [of "new_assembler limit" chunks] assms(1,3) by (simp_all add: new_assembler_def)
  obtain t where t: "find_at (crlf @ crlf) (take ?M data) = Some t" "rest h = drop (t + 4) (take ?M data)"
    using assms(2,4) by (auto simp: parse_head_def Let_def split: option.splits list.splits if_splits)
  have found: "find_at (crlf @ crlf) data = Some t" "t + 4 \<le> ?M" using find_at_take [OF t(1)] by simp_all
  have rest: "rest h = take (?M - (t + 4)) (drop (t + 4) data)" using t(2) by (simp add: drop_take)
  have short: "length (rest h) < length (drop (t + 4) data)" using rest assms(2) found(2) by simp
  have "prefix (rest h) (drop (t + 4) data)" unfolding rest by (rule take_is_prefix)
  then have "strict_prefix (rest h) (drop (t + 4) data)" using short by (auto simp: strict_prefix_def)
  then show ?thesis
    using found(1) a assms(4-6) short by (auto simp: assembler_result_def response_body_def)
qed

theorem long_response_cut_witness:
  "\<exists>h b. assembler_result (fold feed [''HTTP/1.1 200 OK'' @ crlf @ crlf @ replicate 70000 (CHR ''x'')] (new_assembler 1048576))
      = Some (Some (h, 200, ''OK'', b)) \<and> length b < 70000"
proof -
  let ?d = "''HTTP/1.1 200 OK'' @ crlf @ crlf @ replicate 70000 (CHR ''x'')"
  let ?h = "\<lparr>start_line = ''HTTP/1.1 200 OK'', headers = [], rest = replicate 65517 (CHR ''x'')\<rparr>"
  have tk: "take max_head_bytes ?d = ''HTTP/1.1 200 OK'' @ crlf @ crlf @ replicate 65517 (CHR ''x'')"
    by (simp add: max_head_bytes_def)
  have found: "find_at (crlf @ crlf) (''HTTP/1.1 200 OK'' @ crlf @ crlf @ xs) = Some 15" for xs
    using find_terminator [of "[''HTTP/1.1 200 OK'']" xs] by (simp add: join_lines_def plain_line_def)
  have p: "parse_head ?d = Some ?h"
    using found [of "replicate 65517 (CHR ''x'')"] tk split_crlf_plain [of "''HTTP/1.1 200 OK''"]
    by (simp add: parse_head_def Let_def) (simp add: max_head_bytes_def)
  have st: "parse_status_line ''HTTP/1.1 200 OK'' = Some (200, ''OK'')" by code_simp
  have fr: "\<not> is_chunked ?h" "content_length ?h = None" by (simp_all add: is_chunked_def content_length_def head_get_def)
  obtain t where t: "find_at (crlf @ crlf) ?d = Some t"
    "\<exists>b. assembler_result (fold feed [?d] (new_assembler 1048576)) = Some (Some (?h, 200, ''OK'', b)) \<and> strict_prefix b (drop (t + 4) ?d)"
    using long_response_cut [of "[?d]" ?d 1048576 ?h 200 "''OK''"] p st fr by (auto simp: max_head_bytes_def)
  have "t = 15" using t(1) found by simp
  then have "length b < 70000" if "strict_prefix b (drop (t + 4) ?d)" for b
    using that prefix_length_less [OF that] by simp
  then show ?thesis using t(2) by blast
qed

end
