(* ===== verification/Simulation.thy ===== *)
theory Simulation
  imports Main
begin

text \<open>
  Forward simulation between two step relations, shared by the refinement proofs of the development: the
  detailed system keeps an invariant, and each of its steps is a step of the abstract system or leaves the
  abstract state as it is.
\<close>

locale simulation =
  fixes cinit :: 'c and cstep :: "'c \<Rightarrow> 'c \<Rightarrow> bool" and ainit :: 'a and astep :: "'a \<Rightarrow> 'a \<Rightarrow> bool"
    and inv :: "'c \<Rightarrow> bool" and abst :: "'c \<Rightarrow> 'a"
  assumes inv_init: "inv cinit"
    and inv_step: "inv s \<Longrightarrow> cstep s s' \<Longrightarrow> inv s'"
    and abs_init: "abst cinit = ainit"
    and abs_step: "inv s \<Longrightarrow> cstep s s' \<Longrightarrow> abst s' = abst s \<or> astep (abst s) (abst s')"
begin

lemma reachable_inv: "cstep\<^sup>*\<^sup>* cinit s \<Longrightarrow> inv s"
  by (induction rule: rtranclp_induct) (auto intro: inv_init inv_step)

lemma reachable_refines: "cstep\<^sup>*\<^sup>* cinit s \<Longrightarrow> astep\<^sup>*\<^sup>* ainit (abst s)"
proof (induction rule: rtranclp_induct)
  case base
  show ?case by (simp add: abs_init)
next
  case (step s s')
  then show ?case
    using abs_step [OF reachable_inv] by (metis rtranclp.rtrancl_into_rtrancl)
qed

end

end
