(* ===== verification/Executor.thy ===== *)
theory Executor
  imports Composite Simulation
begin

text \<open>
  The job executor of \<^verbatim>\<open>crab/executor.py\<close>: \<open>CRExecutor\<close> with its two checkpoint queues (normal and
  urgent), the slot semaphore, the table of job records, the worker loop, the promotion of jobs whose live
  response is waiting, and the retry loops of checkpoint and restore jobs.  Queue items are shared objects
  (the queues, the table of items and the promotion all reach the same one), so they live in a store indexed
  by addresses.  The threads run at the granularity of the critical sections of the code: a submission
  reserves a slot and enqueues in two steps, and anything may happen in between.  Telemetry, logging and the
  pauses between retries are left out.
\<close>

section \<open>Configuration\<close>

record executor_config =
  max_workers :: int
  checkpoint_workers :: "int option"
  restore_workers :: "int option"
  coordination_workers :: "int option"
  composite_step_workers :: "int option"
  max_checkpoint_queue_size :: int
  checkpoint_scheduling_policy :: string
  reactive_checkpoint_urgent_quota :: int
  max_retries :: int
  retry_backoff_seconds :: rat

definition below_one :: "int option \<Rightarrow> bool" where
  "below_one n = (case n of None \<Rightarrow> False | Some k \<Rightarrow> k < 1)"

definition executor_config_post_init :: "executor_config \<Rightarrow> unit res" where
  "executor_config_post_init c =
     (if max_workers c < 1 then Inl ValueError
      else if below_one (checkpoint_workers c) then Inl ValueError
      else if below_one (restore_workers c) then Inl ValueError
      else if below_one (coordination_workers c) then Inl ValueError
      else if below_one (composite_step_workers c) then Inl ValueError
      else if max_checkpoint_queue_size c < 1 then Inl ValueError
      else if checkpoint_scheduling_policy c \<notin> {''fifo'', ''reactive''} then Inl ValueError
      else if reactive_checkpoint_urgent_quota c < 1 then Inl ValueError
      else if max_retries c < 0 then Inl ValueError
      else if retry_backoff_seconds c < 0 then Inl ValueError
      else Inr ())"

definition resolved_checkpoint_workers :: "executor_config \<Rightarrow> int" where
  "resolved_checkpoint_workers c = (case checkpoint_workers c of None \<Rightarrow> max_workers c | Some n \<Rightarrow> n)"

definition resolved_restore_workers :: "executor_config \<Rightarrow> int" where
  "resolved_restore_workers c = (case restore_workers c of None \<Rightarrow> max_workers c | Some n \<Rightarrow> n)"

definition resolved_coordination_workers :: "executor_config \<Rightarrow> int" where
  "resolved_coordination_workers c =
     (case coordination_workers c of Some n \<Rightarrow> n | None \<Rightarrow> min 8 (resolved_checkpoint_workers c))"

definition resolved_composite_step_workers :: "executor_config \<Rightarrow> int" where
  "resolved_composite_step_workers c =
     (case composite_step_workers c of
        Some n \<Rightarrow> n
      | None \<Rightarrow> max 2 (min (2 * resolved_checkpoint_workers c) 16))"

text \<open>The initial value of the semaphore.\<close>

definition slot_capacity :: "executor_config \<Rightarrow> int" where
  "slot_capacity c = resolved_checkpoint_workers c + max_checkpoint_queue_size c"

section \<open>Job records\<close>

datatype job_type = CHECKPOINT_JOB | RESTORE_JOB

record job_record =
  rec_job_id :: job_id
  rec_job_type :: job_type
  rec_sandbox_id :: sandbox_id
  rec_checkpoint_id :: "checkpoint_id option"
  rec_status :: job_status
  rec_created_at :: instant
  rec_started_at :: "instant option"
  rec_finished_at :: "instant option"
  rec_failure_code :: failure_code
  rec_message :: "string option"

definition pending_record :: "job_type \<Rightarrow> job_id \<Rightarrow> sandbox_id \<Rightarrow> checkpoint_id option \<Rightarrow> instant \<Rightarrow> job_record" where
  "pending_record ty jid sid cid now = \<lparr>rec_job_id = jid, rec_job_type = ty, rec_sandbox_id = sid,
     rec_checkpoint_id = cid, rec_status = PENDING, rec_created_at = now, rec_started_at = None,
     rec_finished_at = None, rec_failure_code = NO_FAILURE, rec_message = None\<rparr>"

definition rejected_record :: "checkpoint_job \<Rightarrow> instant \<Rightarrow> job_record" where
  "rejected_record job now = (pending_record CHECKPOINT_JOB (job_id job) (job_sandbox_id job) None now)
     \<lparr>rec_status := FAILED, rec_finished_at := Some now, rec_failure_code := RUNTIME_ERROR,
      rec_message := Some ''checkpoint queue is full''\<rparr>"

definition running_record :: "job_type \<Rightarrow> job_id \<Rightarrow> sandbox_id \<Rightarrow> checkpoint_id option \<Rightarrow> instant \<Rightarrow> job_record" where
  "running_record ty jid sid cid started = (pending_record ty jid sid cid started)
     \<lparr>rec_status := RUNNING, rec_started_at := Some started\<rparr>"

definition checkpoint_record :: "checkpoint_job \<Rightarrow> instant \<Rightarrow> checkpoint_result \<Rightarrow> job_record" where
  "checkpoint_record job started res = \<lparr>rec_job_id = job_id job, rec_job_type = CHECKPOINT_JOB,
     rec_sandbox_id = job_sandbox_id job, rec_checkpoint_id = Some (cres_checkpoint_id res),
     rec_status = cres_status res, rec_created_at = started, rec_started_at = Some started,
     rec_finished_at = Some (cres_finished_at res), rec_failure_code = cres_failure_code res,
     rec_message = cres_message res\<rparr>"

definition restore_record :: "restore_job \<Rightarrow> instant \<Rightarrow> restore_result \<Rightarrow> job_record" where
  "restore_record job started res = \<lparr>rec_job_id = rjob_id job, rec_job_type = RESTORE_JOB,
     rec_sandbox_id = rjob_sandbox_id job, rec_checkpoint_id = Some (rjob_checkpoint_id job),
     rec_status = rres_status res, rec_created_at = started, rec_started_at = Some started,
     rec_finished_at = Some (rres_finished_at res), rec_failure_code = rres_failure_code res,
     rec_message = rres_message res\<rparr>"

type_synonym records = "(job_id \<times> job_record) list"

definition set_record :: "job_record \<Rightarrow> records \<Rightarrow> records" where
  "set_record r rs = AList.update (rec_job_id r) r rs"

definition get_job_record :: "records \<Rightarrow> job_id \<Rightarrow> job_record option" where
  "get_job_record rs jid = map_of rs jid"

definition has_active_checkpoint :: "records \<Rightarrow> sandbox_id \<Rightarrow> bool" where
  "has_active_checkpoint rs sid =
     list_ex (\<lambda>(_, r). rec_job_type r = CHECKPOINT_JOB \<and> rec_sandbox_id r = sid
                 \<and> rec_status r \<in> {PENDING, RUNNING}) rs"

definition has_active_job :: "records \<Rightarrow> sandbox_id \<Rightarrow> bool" where
  "has_active_job rs sid =
     list_ex (\<lambda>(_, r). rec_sandbox_id r = sid \<and> rec_status r \<in> {PENDING, RUNNING}) rs"

section \<open>The executor's state\<close>

text \<open>The states of a \<open>concurrent.futures.Future\<close>.\<close>

datatype future_state = FutPending | FutRunning | FutCancelled | FutCancelledAndNotified | FutFinished

definition future_done :: "future_state \<Rightarrow> bool" where
  "future_done f = (f \<in> {FutCancelled, FutCancelledAndNotified, FutFinished})"

type_synonym request_key = "sandbox_id \<times> string"
type_synonym addr = nat

record queue_item =
  qi_job :: checkpoint_job
  qi_future :: future_state
  qi_class :: string
  qi_key :: "request_key option"

record executor =
  ex_heap :: "addr \<rightharpoonup> queue_item"
  ex_next :: addr
  ex_slots :: int
  ex_records :: records
  ex_shutdown :: bool
  ex_queue :: "addr list"
  ex_urgent :: "addr list"
  ex_items :: "job_id \<rightharpoonup> addr"
  ex_requests :: "request_key \<rightharpoonup> job_id list"
  ex_exposed :: "request_key list"
  ex_streak :: int

definition new_executor :: "executor_config \<Rightarrow> executor" where
  "new_executor c = \<lparr>ex_heap = Map.empty, ex_next = 0, ex_slots = slot_capacity c, ex_records = [],
     ex_shutdown = False, ex_queue = [], ex_urgent = [], ex_items = Map.empty, ex_requests = Map.empty,
     ex_exposed = [], ex_streak = 0\<rparr>"

definition record_job :: "job_record \<Rightarrow> executor \<Rightarrow> executor" where
  "record_job r s = s\<lparr>ex_records := set_record r (ex_records s)\<rparr>"

text \<open>\<open>BoundedSemaphore.release\<close> raises above the initial value and leaves the counter alone; as a done
  callback of a future that error is only logged.\<close>

definition release_slot :: "executor_config \<Rightarrow> executor \<Rightarrow> executor" where
  "release_slot c s = (if ex_slots s \<ge> slot_capacity c then s else s\<lparr>ex_slots := ex_slots s + 1\<rparr>)"

definition set_item :: "addr \<Rightarrow> queue_item \<Rightarrow> executor \<Rightarrow> executor" where
  "set_item a it s = s\<lparr>ex_heap := (ex_heap s)(a \<mapsto> it)\<rparr>"

text \<open>The exposed requests are a set of the code, kept here as a list without duplicates.\<close>

definition discard_exposed :: "request_key \<Rightarrow> executor \<Rightarrow> executor" where
  "discard_exposed k s = s\<lparr>ex_exposed := filter (\<lambda>x. x \<noteq> k) (ex_exposed s)\<rparr>"

definition shutdown :: "executor \<Rightarrow> executor" where
  "shutdown s = s\<lparr>ex_shutdown := True\<rparr>"

section \<open>Requests\<close>

definition checkpoint_request_key :: "checkpoint_job \<Rightarrow> request_key option" where
  "checkpoint_request_key job =
     (case meta_get (job_metadata job) ''captured_request_id'' of
        None \<Rightarrow> None
      | Some v \<Rightarrow> (let r = str_strip (pystr v) in if r = [] then None else Some (job_sandbox_id job, r)))"

definition register_request :: "queue_item \<Rightarrow> executor \<Rightarrow> executor" where
  "register_request it s =
     (case qi_key it of
        None \<Rightarrow> s
      | Some k \<Rightarrow>
          let js = (case ex_requests s k of None \<Rightarrow> [] | Some js \<Rightarrow> js) in
          s\<lparr>ex_requests := (ex_requests s)(k \<mapsto>
              (if job_id (qi_job it) \<in> set js then js else js @ [job_id (qi_job it)]))\<rparr>)"

definition unregister_request :: "queue_item \<Rightarrow> executor \<Rightarrow> executor" where
  "unregister_request it s =
     (case qi_key it of
        None \<Rightarrow> s
      | Some k \<Rightarrow>
          (case ex_requests s k of
             None \<Rightarrow> s
           | Some js \<Rightarrow>
               let js' = filter (\<lambda>j. j \<noteq> job_id (qi_job it)) js in
               s\<lparr>ex_requests := (ex_requests s)(k := if js' = [] then None else Some js')\<rparr>))"

definition finish_checkpoint_item :: "queue_item \<Rightarrow> executor \<Rightarrow> executor" where
  "finish_checkpoint_item it s =
     unregister_request it (s\<lparr>ex_items := (ex_items s)(job_id (qi_job it) := None)\<rparr>)"

fun promote_jobs :: "request_key \<Rightarrow> job_id list \<Rightarrow> executor \<Rightarrow> (addr option \<times> bool) \<times> executor" where
  "promote_jobs k [] s = ((None, False), s)"
| "promote_jobs k (j # js) s =
     (case ex_items s j of
        None \<Rightarrow> promote_jobs k js s
      | Some a \<Rightarrow>
          (case ex_heap s a of
             None \<Rightarrow> promote_jobs k js s
           | Some it \<Rightarrow>
               if future_done (qi_future it) then promote_jobs k js s
               else if qi_class it = ''urgent'' then ((Some a, False), discard_exposed k s)
               else if a \<notin> set (ex_queue s) then promote_jobs k js s
               else ((Some a, True),
                     discard_exposed k (set_item a (it\<lparr>qi_class := ''urgent''\<rparr>)
                       (s\<lparr>ex_queue := remove1 a (ex_queue s), ex_urgent := ex_urgent s @ [a]\<rparr>)))))"

definition promote_checkpoint_request :: "request_key \<Rightarrow> executor \<Rightarrow> (addr option \<times> bool) \<times> executor" where
  "promote_checkpoint_request k s =
     promote_jobs k (case ex_requests s k of None \<Rightarrow> [] | Some js \<Rightarrow> js) s"

definition notify_live_response_ready :: "executor_config \<Rightarrow> sandbox_id \<Rightarrow> string \<Rightarrow> executor \<Rightarrow> bool \<times> executor" where
  "notify_live_response_ready c sid request_id s =
     (if checkpoint_scheduling_policy c \<noteq> ''reactive'' then (False, s)
      else let r = str_strip request_id in
        if r = [] then (False, s)
        else case promote_checkpoint_request (sid, r) s of
               ((Some a, _), s1) \<Rightarrow> (True, s1)
             | ((None, _), s1) \<Rightarrow>
                 (False, s1\<lparr>ex_exposed := List.insert (sid, r) (ex_exposed s1)\<rparr>))"

definition clear_live_response_ready ::
  "executor_config \<Rightarrow> sandbox_id \<Rightarrow> string option \<Rightarrow> executor \<Rightarrow> executor" where
  "clear_live_response_ready c sid request_id s =
     (if checkpoint_scheduling_policy c \<noteq> ''reactive'' then s
      else case request_id of
             None \<Rightarrow> s\<lparr>ex_exposed := filter (\<lambda>k. fst k \<noteq> sid) (ex_exposed s)\<rparr>
           | Some r \<Rightarrow> discard_exposed (sid, r) s)"

section \<open>Submission\<close>

text \<open>The two critical sections of \<open>submit_checkpoint\<close>: the checks, the record and the slot; then the item
  and the queues.  A raise in the second takes the item back and returns the slot.\<close>

definition submit_reserve :: "instant \<Rightarrow> checkpoint_job \<Rightarrow> (executor, unit) act" where
  "submit_reserve now job s =
     (if ex_shutdown s then (Inl RuntimeError, s)
      else
        let s1 = record_job (pending_record CHECKPOINT_JOB (job_id job) (job_sandbox_id job) None now) s in
        if ex_slots s1 > 0 then (Inr (), s1\<lparr>ex_slots := ex_slots s1 - 1\<rparr>)
        else (Inl RuntimeError, record_job (rejected_record job now) s1))"

definition new_item :: "executor_config \<Rightarrow> checkpoint_job \<Rightarrow> queue_item" where
  "new_item c job = \<lparr>qi_job = job, qi_future = FutPending,
     qi_class = (if checkpoint_scheduling_policy c = ''fifo'' then ''fifo'' else ''normal''),
     qi_key = checkpoint_request_key job\<rparr>"

definition is_exposed :: "executor_config \<Rightarrow> queue_item \<Rightarrow> executor \<Rightarrow> bool" where
  "is_exposed c it s =
     (checkpoint_scheduling_policy c = ''reactive''
        \<and> (case qi_key it of None \<Rightarrow> False | Some k \<Rightarrow> k \<in> set (ex_exposed s)))"

definition submit_enqueue :: "executor_config \<Rightarrow> checkpoint_job \<Rightarrow> (executor, addr) act" where
  "submit_enqueue c job s =
     (let it = new_item c job; a = ex_next s in
      if ex_shutdown s
      then (Inl RuntimeError, release_slot c (finish_checkpoint_item it s))
      else
        let s1 = register_request it (s\<lparr>ex_items := (ex_items s)(job_id job \<mapsto> a), ex_next := a + 1\<rparr>) in
        if is_exposed c it s1
        then (Inr a, discard_exposed (the (qi_key it))
                (set_item a (it\<lparr>qi_class := ''urgent''\<rparr>) (s1\<lparr>ex_urgent := ex_urgent s1 @ [a]\<rparr>)))
        else (Inr a, set_item a it (s1\<lparr>ex_queue := ex_queue s1 @ [a]\<rparr>)))"

definition submit_checkpoint :: "executor_config \<Rightarrow> instant \<Rightarrow> checkpoint_job \<Rightarrow> (executor, addr) act" where
  "submit_checkpoint c now job = act_bind (submit_reserve now job) (\<lambda>_. submit_enqueue c job)"

definition submit_restore :: "instant \<Rightarrow> restore_job \<Rightarrow> records \<Rightarrow> records" where
  "submit_restore now job rs =
     set_record (pending_record RESTORE_JOB (rjob_id job) (rjob_sandbox_id job) (Some (rjob_checkpoint_id job)) now) rs"

text \<open>\<open>Future.cancel\<close>, which a caller may use while the job waits; the callback returns the slot.\<close>

definition cancel_future :: "executor_config \<Rightarrow> addr \<Rightarrow> executor \<Rightarrow> executor" where
  "cancel_future c a s =
     (case ex_heap s a of
        None \<Rightarrow> s
      | Some it \<Rightarrow>
          if qi_future it = FutPending
          then release_slot c (set_item a (it\<lparr>qi_future := FutCancelled\<rparr>) s) else s)"

section \<open>The worker loop\<close>

definition take_next :: "executor_config \<Rightarrow> executor \<Rightarrow> addr option \<times> executor" where
  "take_next c s =
     (if checkpoint_scheduling_policy c = ''fifo''
      then (case ex_queue s of [] \<Rightarrow> (None, s) | a # q \<Rightarrow> (Some a, s\<lparr>ex_queue := q\<rparr>))
      else
        case ex_urgent s of
          u # us \<Rightarrow>
            (case ex_queue s of
               a # q \<Rightarrow>
                 if ex_streak s \<ge> reactive_checkpoint_urgent_quota c
                 then (Some a, s\<lparr>ex_queue := q, ex_streak := 0\<rparr>)
                 else (Some u, s\<lparr>ex_urgent := us, ex_streak := ex_streak s + 1\<rparr>)
             | [] \<Rightarrow> (Some u, s\<lparr>ex_urgent := us, ex_streak := ex_streak s + 1\<rparr>))
        | [] \<Rightarrow>
            (case ex_queue s of
               [] \<Rightarrow> (None, s)
             | a # q \<Rightarrow> (Some a, s\<lparr>ex_queue := q, ex_streak := 0\<rparr>)))"

text \<open>\<open>None\<close> is a worker that leaves the loop or, when the executor is not shut down, waits.\<close>

definition dequeue_checkpoint_item :: "executor_config \<Rightarrow> executor \<Rightarrow> addr option \<times> executor" where
  "dequeue_checkpoint_item c s =
     (case take_next c s of
        (None, s1) \<Rightarrow> (None, s1)
      | (Some a, s1) \<Rightarrow>
          (Some a, case ex_heap s1 a of None \<Rightarrow> s1 | Some it \<Rightarrow> unregister_request it s1))"

text \<open>\<open>set_running_or_notify_cancel\<close>, and the branch of the loop for a cancelled item.  A job that runs
  starts with its record.\<close>

definition start_item :: "instant \<Rightarrow> addr \<Rightarrow> executor \<Rightarrow> bool \<times> executor" where
  "start_item now a s =
     (case ex_heap s a of
        None \<Rightarrow> (False, s)
      | Some it \<Rightarrow>
          if qi_future it = FutCancelled
          then (False, finish_checkpoint_item it (set_item a (it\<lparr>qi_future := FutCancelledAndNotified\<rparr>) s))
          else (True, record_job (running_record CHECKPOINT_JOB (job_id (qi_job it))
                        (job_sandbox_id (qi_job it)) None now)
                      (set_item a (it\<lparr>qi_future := FutRunning\<rparr>) s)))"

text \<open>The end of a run: the record of the result, the item, the future with its callback.\<close>

definition complete_item :: "executor_config \<Rightarrow> instant \<Rightarrow> checkpoint_result \<Rightarrow> addr \<Rightarrow> executor \<Rightarrow> executor" where
  "complete_item c started res a s =
     (case ex_heap s a of
        None \<Rightarrow> s
      | Some it \<Rightarrow>
          release_slot c (set_item a (it\<lparr>qi_future := FutFinished\<rparr>)
            (finish_checkpoint_item it (record_job (checkpoint_record (qi_job it) started res) s))))"

section \<open>Retries\<close>

text \<open>The loop over \<open>range(max_retries + 1)\<close>: a raise of attempt \<open>i\<close> becomes a failed result, \<open>stop\<close> is the
  condition of the \<open>break\<close>.  The first component counts the runs.\<close>

fun attempt_loop ::
  "('w, 'r) act \<Rightarrow> (nat \<Rightarrow> py_error \<Rightarrow> 'r) \<Rightarrow> ('r \<Rightarrow> bool) \<Rightarrow> nat \<Rightarrow> nat \<Rightarrow> 'r option \<Rightarrow> 'w
     \<Rightarrow> nat \<times> 'r option \<times> 'w" where
  "attempt_loop run fail stop i 0 res w = (0, res, w)"
| "attempt_loop run fail stop i (Suc n) res w =
     (case run w of
        (Inr r, w1) \<Rightarrow>
          if stop r then (1, Some r, w1)
          else (case attempt_loop run fail stop (Suc i) n (Some r) w1 of (k, out) \<Rightarrow> (Suc k, out))
      | (Inl e, w1) \<Rightarrow>
          (case attempt_loop run fail stop (Suc i) n (Some (fail i e)) w1 of (k, out) \<Rightarrow> (Suc k, out)))"

text \<open>The results made from an exception; \<open>fresh i\<close> and \<open>now i\<close> are the id and the time drawn after attempt \<open>i\<close>.\<close>

definition checkpoint_crashed ::
  "(py_error \<Rightarrow> string) \<Rightarrow> (nat \<Rightarrow> string) \<Rightarrow> instant \<Rightarrow> (nat \<Rightarrow> instant) \<Rightarrow> checkpoint_job \<Rightarrow> nat \<Rightarrow> py_error
     \<Rightarrow> checkpoint_result" where
  "checkpoint_crashed exc_str fresh started now job i e = \<lparr>cres_job_id = job_id job,
     cres_sandbox_id = job_sandbox_id job, cres_checkpoint_id = ''failed-'' @ fresh i, cres_status = FAILED,
     cres_started_at = started, cres_finished_at = now i, cres_manifest = None, cres_failure_code = RUNTIME_ERROR,
     cres_message = Some (exc_str e), cres_operation_statuses = []\<rparr>"

definition checkpoint_settled :: "checkpoint_result \<Rightarrow> bool" where
  "checkpoint_settled r = (cres_status r = SUCCEEDED \<or> cres_failure_code r = VALIDATION_ERROR)"

text \<open>\<open>_execute_checkpoint\<close> and \<open>_execute_restore\<close> on the job records and the world of the worker; \<open>None\<close> is the
  failed assertion that some attempt was made.\<close>

definition execute_checkpoint ::
  "executor_config \<Rightarrow> (checkpoint_job \<Rightarrow> ('w, checkpoint_result) act) \<Rightarrow> (py_error \<Rightarrow> string) \<Rightarrow> (nat \<Rightarrow> string)
     \<Rightarrow> instant \<Rightarrow> (nat \<Rightarrow> instant) \<Rightarrow> checkpoint_job \<Rightarrow> records \<times> 'w \<Rightarrow> nat \<times> checkpoint_result option \<times> (records \<times> 'w)" where
  "execute_checkpoint c worker exc_str fresh started now job rw =
     (let rs = set_record (running_record CHECKPOINT_JOB (job_id job) (job_sandbox_id job) None started) (fst rw) in
      case attempt_loop (worker job) (checkpoint_crashed exc_str fresh started now job) checkpoint_settled
             0 (nat (max_retries c + 1)) None (snd rw) of
        (k, None, w) \<Rightarrow> (k, None, (rs, w))
      | (k, Some r, w) \<Rightarrow> (k, Some r, (set_record (checkpoint_record job started r) rs, w)))"

definition restore_crashed ::
  "(py_error \<Rightarrow> string) \<Rightarrow> instant \<Rightarrow> (nat \<Rightarrow> instant) \<Rightarrow> restore_job \<Rightarrow> nat \<Rightarrow> py_error \<Rightarrow> restore_result" where
  "restore_crashed exc_str started now job i e = \<lparr>rres_job_id = rjob_id job, rres_sandbox_id = rjob_sandbox_id job,
     rres_checkpoint_id = rjob_checkpoint_id job, rres_status = FAILED, rres_started_at = started,
     rres_finished_at = now i, rres_failure_code = RUNTIME_ERROR, rres_message = Some (exc_str e),
     rres_operation_statuses = []\<rparr>"

definition execute_restore ::
  "executor_config \<Rightarrow> (restore_job \<Rightarrow> ('w, restore_result) act) \<Rightarrow> (py_error \<Rightarrow> string)
     \<Rightarrow> instant \<Rightarrow> (nat \<Rightarrow> instant) \<Rightarrow> restore_job \<Rightarrow> records \<times> 'w \<Rightarrow> nat \<times> restore_result option \<times> (records \<times> 'w)" where
  "execute_restore c worker exc_str started now job rw =
     (let rs = set_record (running_record RESTORE_JOB (rjob_id job) (rjob_sandbox_id job)
                 (Some (rjob_checkpoint_id job)) started) (fst rw) in
      case attempt_loop (worker job) (restore_crashed exc_str started now job) (\<lambda>r. rres_status r = SUCCEEDED)
             0 (nat (max_retries c + 1)) None (snd rw) of
        (k, None, w) \<Rightarrow> (k, None, (rs, w))
      | (k, Some r, w) \<Rightarrow> (k, Some r, (set_record (restore_record job started r) rs, w)))"

section \<open>Threads\<close>

datatype worker = Idle | Executing addr | Exited

record exec_world =
  xw_exec :: executor
  xw_submitting :: "checkpoint_job list"
  xw_workers :: "worker list"

definition init_world :: "executor_config \<Rightarrow> exec_world" where
  "init_world c = \<lparr>xw_exec = new_executor c, xw_submitting = [],
     xw_workers = replicate (nat (resolved_checkpoint_workers c)) Idle\<rparr>"

text \<open>One step of some thread: a caller of \<open>submit_checkpoint\<close> in its first or second section, a caller of the
  other methods, the holder of a future, or a worker of the loop.\<close>

inductive exec_step :: "executor_config \<Rightarrow> exec_world \<Rightarrow> exec_world \<Rightarrow> bool" for c where
  reserve: "submit_reserve now job (xw_exec w) = (Inr (), s) \<Longrightarrow>
     exec_step c w (w\<lparr>xw_exec := s, xw_submitting := job # xw_submitting w\<rparr>)"
| refuse: "submit_reserve now job (xw_exec w) = (Inl e, s) \<Longrightarrow> exec_step c w (w\<lparr>xw_exec := s\<rparr>)"
| enqueue: "job \<in> set (xw_submitting w) \<Longrightarrow> submit_enqueue c job (xw_exec w) = (r, s) \<Longrightarrow>
     exec_step c w (w\<lparr>xw_exec := s, xw_submitting := remove1 job (xw_submitting w)\<rparr>)"
| notify: "notify_live_response_ready c sid rid (xw_exec w) = (b, s) \<Longrightarrow> exec_step c w (w\<lparr>xw_exec := s\<rparr>)"
| clear: "exec_step c w (w\<lparr>xw_exec := clear_live_response_ready c sid rid (xw_exec w)\<rparr>)"
| cancel: "exec_step c w (w\<lparr>xw_exec := cancel_future c a (xw_exec w)\<rparr>)"
| shut: "exec_step c w (w\<lparr>xw_exec := shutdown (xw_exec w)\<rparr>)"
| run: "i < length (xw_workers w) \<Longrightarrow> xw_workers w ! i = Idle \<Longrightarrow>
     dequeue_checkpoint_item c (xw_exec w) = (Some a, s) \<Longrightarrow> start_item now a s = (True, s') \<Longrightarrow>
     exec_step c w (w\<lparr>xw_exec := s', xw_workers := (xw_workers w)[i := Executing a]\<rparr>)"
| skip: "i < length (xw_workers w) \<Longrightarrow> xw_workers w ! i = Idle \<Longrightarrow>
     dequeue_checkpoint_item c (xw_exec w) = (Some a, s) \<Longrightarrow> start_item now a s = (False, s') \<Longrightarrow>
     exec_step c w (w\<lparr>xw_exec := s'\<rparr>)"
| leave: "i < length (xw_workers w) \<Longrightarrow> xw_workers w ! i = Idle \<Longrightarrow>
     dequeue_checkpoint_item c (xw_exec w) = (None, s) \<Longrightarrow> ex_shutdown s \<Longrightarrow>
     exec_step c w (w\<lparr>xw_exec := s, xw_workers := (xw_workers w)[i := Exited]\<rparr>)"
| complete: "i < length (xw_workers w) \<Longrightarrow> xw_workers w ! i = Executing a \<Longrightarrow>
     exec_step c w (w\<lparr>xw_exec := complete_item c started res a (xw_exec w), xw_workers := (xw_workers w)[i := Idle]\<rparr>)"

section \<open>The pool of jobs\<close>

text \<open>
  What the threads do to the jobs, without records, requests and exposed responses: the state of each item's
  future and its queue class, the two queues, the slots, and the workers.  The executor refines this pool, the
  invariants are proved on it, and the pool refines the contract at the end.
\<close>

record job_pool =
  jp_items :: "addr \<rightharpoonup> future_state \<times> string"
  jp_next :: addr
  jp_slots :: int
  jp_reserved :: nat
  jp_closed :: bool
  jp_queue :: "addr list"
  jp_urgent :: "addr list"
  jp_streak :: int
  jp_workers :: "worker list"

definition pool_of :: "exec_world \<Rightarrow> job_pool" where
  "pool_of w = (let s = xw_exec w in
     \<lparr>jp_items = (\<lambda>a. map_option (\<lambda>it. (qi_future it, qi_class it)) (ex_heap s a)), jp_next = ex_next s,
      jp_slots = ex_slots s, jp_reserved = length (xw_submitting w), jp_closed = ex_shutdown s,
      jp_queue = ex_queue s, jp_urgent = ex_urgent s, jp_streak = ex_streak s, jp_workers = xw_workers w\<rparr>)"

text \<open>Which item a dequeue takes, and what it leaves of the queues and the streak.\<close>

inductive pool_take :: "executor_config \<Rightarrow> job_pool \<Rightarrow> addr \<Rightarrow> job_pool \<Rightarrow> bool" for c where
  take_fifo: "checkpoint_scheduling_policy c = ''fifo'' \<Longrightarrow> jp_queue p = a # q \<Longrightarrow> pool_take c p a (p\<lparr>jp_queue := q\<rparr>)"
| take_normal: "checkpoint_scheduling_policy c \<noteq> ''fifo'' \<Longrightarrow> jp_queue p = a # q \<Longrightarrow>
     jp_urgent p = [] \<or> jp_streak p \<ge> reactive_checkpoint_urgent_quota c \<Longrightarrow>
     pool_take c p a (p\<lparr>jp_queue := q, jp_streak := 0\<rparr>)"
| take_urgent: "checkpoint_scheduling_policy c \<noteq> ''fifo'' \<Longrightarrow> jp_urgent p = a # us \<Longrightarrow>
     jp_queue p = [] \<or> jp_streak p < reactive_checkpoint_urgent_quota c \<Longrightarrow>
     pool_take c p a (p\<lparr>jp_urgent := us, jp_streak := jp_streak p + 1\<rparr>)"

abbreviation set_future :: "addr \<Rightarrow> future_state \<Rightarrow> string \<Rightarrow> job_pool \<Rightarrow> job_pool" where
  "set_future a f cls p \<equiv> p\<lparr>jp_items := (jp_items p)(a \<mapsto> (f, cls))\<rparr>"

inductive pool_step :: "executor_config \<Rightarrow> job_pool \<Rightarrow> job_pool \<Rightarrow> bool" for c where
  p_reserve: "\<not> jp_closed p \<Longrightarrow> 0 < jp_slots p \<Longrightarrow>
     pool_step c p (p\<lparr>jp_slots := jp_slots p - 1, jp_reserved := Suc (jp_reserved p)\<rparr>)"
| p_abandon: "jp_closed p \<Longrightarrow> jp_reserved p = Suc n \<Longrightarrow>
     pool_step c p (p\<lparr>jp_slots := (if jp_slots p \<ge> slot_capacity c then jp_slots p else jp_slots p + 1), jp_reserved := n\<rparr>)"
| p_normal: "\<not> jp_closed p \<Longrightarrow> jp_reserved p = Suc n \<Longrightarrow> a = jp_next p \<Longrightarrow> cls \<noteq> ''urgent'' \<Longrightarrow>
     pool_step c p ((set_future a FutPending cls p)\<lparr>jp_next := Suc a, jp_reserved := n, jp_queue := jp_queue p @ [a]\<rparr>)"
| p_urgent: "\<not> jp_closed p \<Longrightarrow> jp_reserved p = Suc n \<Longrightarrow> a = jp_next p \<Longrightarrow> checkpoint_scheduling_policy c \<noteq> ''fifo'' \<Longrightarrow>
     pool_step c p ((set_future a FutPending ''urgent'' p)\<lparr>jp_next := Suc a, jp_reserved := n, jp_urgent := jp_urgent p @ [a]\<rparr>)"
| p_promote: "a \<in> set (jp_queue p) \<Longrightarrow> jp_items p a = Some (f, cls) \<Longrightarrow> checkpoint_scheduling_policy c \<noteq> ''fifo'' \<Longrightarrow>
     pool_step c p ((set_future a f ''urgent'' p)\<lparr>jp_queue := remove1 a (jp_queue p), jp_urgent := jp_urgent p @ [a]\<rparr>)"
| p_cancel: "jp_items p a = Some (FutPending, cls) \<Longrightarrow>
     pool_step c p ((set_future a FutCancelled cls p)\<lparr>jp_slots := (if jp_slots p \<ge> slot_capacity c then jp_slots p else jp_slots p + 1)\<rparr>)"
| p_close: "pool_step c p (p\<lparr>jp_closed := True\<rparr>)"
| p_run: "i < length (jp_workers p) \<Longrightarrow> jp_workers p ! i = Idle \<Longrightarrow> pool_take c p a q \<Longrightarrow>
     jp_items p a = Some (f, cls) \<Longrightarrow> f \<noteq> FutCancelled \<Longrightarrow>
     pool_step c p ((set_future a FutRunning cls q)\<lparr>jp_workers := (jp_workers p)[i := Executing a]\<rparr>)"
| p_skip: "i < length (jp_workers p) \<Longrightarrow> jp_workers p ! i = Idle \<Longrightarrow> pool_take c p a q \<Longrightarrow>
     jp_items p a = Some (FutCancelled, cls) \<Longrightarrow> pool_step c p (set_future a FutCancelledAndNotified cls q)"
| p_lost: "i < length (jp_workers p) \<Longrightarrow> jp_workers p ! i = Idle \<Longrightarrow> pool_take c p a q \<Longrightarrow>
     jp_items p a = None \<Longrightarrow> pool_step c p q"
| p_leave: "i < length (jp_workers p) \<Longrightarrow> jp_workers p ! i = Idle \<Longrightarrow> jp_closed p \<Longrightarrow> jp_queue p = [] \<Longrightarrow>
     (checkpoint_scheduling_policy c \<noteq> ''fifo'' \<longrightarrow> jp_urgent p = []) \<Longrightarrow>
     pool_step c p (p\<lparr>jp_workers := (jp_workers p)[i := Exited]\<rparr>)"
| p_complete: "i < length (jp_workers p) \<Longrightarrow> jp_workers p ! i = Executing a \<Longrightarrow> jp_items p a = Some (f, cls) \<Longrightarrow>
     pool_step c p ((set_future a FutFinished cls p)\<lparr>jp_workers := (jp_workers p)[i := Idle],
       jp_slots := (if jp_slots p \<ge> slot_capacity c then jp_slots p else jp_slots p + 1)\<rparr>)"
| p_vanish: "i < length (jp_workers p) \<Longrightarrow> jp_workers p ! i = Executing a \<Longrightarrow> jp_items p a = None \<Longrightarrow>
     pool_step c p (p\<lparr>jp_workers := (jp_workers p)[i := Idle]\<rparr>)"

inductive_cases pool_takeE: "pool_take c p a q"

subsection \<open>The executor refines the pool\<close>

lemma request_fields [simp]:
  "ex_heap (unregister_request it s) = ex_heap s" "ex_heap (register_request it s) = ex_heap s"
  "ex_next (unregister_request it s) = ex_next s" "ex_next (register_request it s) = ex_next s"
  "ex_slots (unregister_request it s) = ex_slots s" "ex_slots (register_request it s) = ex_slots s"
  "ex_shutdown (unregister_request it s) = ex_shutdown s" "ex_shutdown (register_request it s) = ex_shutdown s"
  "ex_queue (unregister_request it s) = ex_queue s" "ex_queue (register_request it s) = ex_queue s"
  "ex_urgent (unregister_request it s) = ex_urgent s" "ex_urgent (register_request it s) = ex_urgent s"
  "ex_streak (unregister_request it s) = ex_streak s" "ex_streak (register_request it s) = ex_streak s"
  by (simp_all add: unregister_request_def register_request_def Let_def split: option.split)

lemma pool_of_cong:
  assumes "ex_heap s = ex_heap (xw_exec w)" "ex_next s = ex_next (xw_exec w)" "ex_slots s = ex_slots (xw_exec w)"
    "ex_shutdown s = ex_shutdown (xw_exec w)" "ex_queue s = ex_queue (xw_exec w)" "ex_urgent s = ex_urgent (xw_exec w)"
    "ex_streak s = ex_streak (xw_exec w)"
  shows "pool_of (w\<lparr>xw_exec := s\<rparr>) = pool_of w"
  using assms by (simp add: pool_of_def Let_def)

lemma pool_of_fields [simp]:
  "jp_items (pool_of w) a = map_option (\<lambda>it. (qi_future it, qi_class it)) (ex_heap (xw_exec w) a)"
  "jp_next (pool_of w) = ex_next (xw_exec w)" "jp_slots (pool_of w) = ex_slots (xw_exec w)"
  "jp_reserved (pool_of w) = length (xw_submitting w)" "jp_closed (pool_of w) = ex_shutdown (xw_exec w)"
  "jp_queue (pool_of w) = ex_queue (xw_exec w)" "jp_urgent (pool_of w) = ex_urgent (xw_exec w)"
  "jp_streak (pool_of w) = ex_streak (xw_exec w)" "jp_workers (pool_of w) = xw_workers w"
  by (simp_all add: pool_of_def Let_def)

lemma pool_eqI:
  assumes "\<And>a. jp_items p a = jp_items q a" "jp_next p = jp_next q" "jp_slots p = jp_slots q"
    "jp_reserved p = jp_reserved q" "jp_closed p = jp_closed q" "jp_queue p = jp_queue q" "jp_urgent p = jp_urgent q"
    "jp_streak p = jp_streak q" "jp_workers p = jp_workers q"
  shows "p = (q :: job_pool)"
  using assms by (intro job_pool.equality) auto

lemma dequeue_take:
  assumes "dequeue_checkpoint_item c (xw_exec w) = (Some a, s)"
  shows "pool_take c (pool_of w) a (pool_of (w\<lparr>xw_exec := s\<rparr>))"
    and "ex_heap s = ex_heap (xw_exec w)" and "ex_shutdown s = ex_shutdown (xw_exec w)"
proof -
  let ?s = "xw_exec w" and ?p = "pool_of w"
  obtain s1 where t: "take_next c ?s = (Some a, s1)"
    and s: "s = (case ex_heap s1 a of None \<Rightarrow> s1 | Some it \<Rightarrow> unregister_request it s1)"
    using assms by (auto simp: dequeue_checkpoint_item_def split: prod.splits option.splits)
  have eq: "pool_of (w\<lparr>xw_exec := s\<rparr>) = pool_of (w\<lparr>xw_exec := s1\<rparr>)"
    by (rule pool_eqI) (simp_all add: s split: option.split)
  consider (fifo) q where "checkpoint_scheduling_policy c = ''fifo''" "ex_queue ?s = a # q" "s1 = ?s\<lparr>ex_queue := q\<rparr>"
    | (normal) q where "checkpoint_scheduling_policy c \<noteq> ''fifo''" "ex_queue ?s = a # q"
        "ex_urgent ?s = [] \<or> ex_streak ?s \<ge> reactive_checkpoint_urgent_quota c" "s1 = ?s\<lparr>ex_queue := q, ex_streak := 0\<rparr>"
    | (urgent) us where "checkpoint_scheduling_policy c \<noteq> ''fifo''" "ex_urgent ?s = a # us"
        "ex_queue ?s = [] \<or> ex_streak ?s < reactive_checkpoint_urgent_quota c"
        "s1 = ?s\<lparr>ex_urgent := us, ex_streak := ex_streak ?s + 1\<rparr>"
    using t by (auto simp: take_next_def split: if_splits list.splits)
  then have st: "pool_take c ?p a (pool_of (w\<lparr>xw_exec := s1\<rparr>)) \<and> ex_heap s1 = ex_heap ?s \<and> ex_shutdown s1 = ex_shutdown ?s"
  proof cases
    case fifo
    then have "pool_of (w\<lparr>xw_exec := s1\<rparr>) = ?p\<lparr>jp_queue := q\<rparr>" by (intro pool_eqI) simp_all
    then show ?thesis using fifo by (simp add: take_fifo)
  next
    case normal
    then have "pool_of (w\<lparr>xw_exec := s1\<rparr>) = ?p\<lparr>jp_queue := q, jp_streak := 0\<rparr>" by (intro pool_eqI) simp_all
    then show ?thesis using normal by (simp add: take_normal)
  next
    case urgent
    then have "pool_of (w\<lparr>xw_exec := s1\<rparr>) = ?p\<lparr>jp_urgent := us, jp_streak := jp_streak ?p + 1\<rparr>"
      by (intro pool_eqI) simp_all
    then show ?thesis using urgent take_urgent [of c ?p a us] by simp
  qed
  then show "pool_take c (pool_of w) a (pool_of (w\<lparr>xw_exec := s\<rparr>))" unfolding eq by simp
  from st show "ex_heap s = ex_heap (xw_exec w)" and "ex_shutdown s = ex_shutdown (xw_exec w)"
    by (simp_all add: s split: option.split)
qed

lemma dequeue_None:
  assumes "dequeue_checkpoint_item c s = (None, s')"
  shows "s' = s \<and> ex_queue s = [] \<and> (checkpoint_scheduling_policy c \<noteq> ''fifo'' \<longrightarrow> ex_urgent s = [])"
  using assms by (auto simp: dequeue_checkpoint_item_def take_next_def split: prod.splits option.splits if_splits list.splits)

lemma promote_jobs_pool:
  assumes "promote_jobs k js (xw_exec w) = (r, s)" and "checkpoint_scheduling_policy c \<noteq> ''fifo''"
  shows "pool_of (w\<lparr>xw_exec := s\<rparr>) = pool_of w \<or> pool_step c (pool_of w) (pool_of (w\<lparr>xw_exec := s\<rparr>))"
  using assms(1)
proof (induction js)
  case Nil
  then show ?case by (intro disjI1 pool_of_cong) auto
next
  case (Cons j js)
  show ?case
  proof (cases "\<exists>a it. ex_items (xw_exec w) j = Some a \<and> ex_heap (xw_exec w) a = Some it \<and> \<not> future_done (qi_future it)
                  \<and> (qi_class it = ''urgent'' \<or> a \<in> set (ex_queue (xw_exec w)))")
    case False
    then have "promote_jobs k js (xw_exec w) = (r, s)" using Cons.prems by (auto split: option.splits if_splits)
    then show ?thesis by (rule Cons.IH)
  next
    case True
    then obtain a it where a: "ex_items (xw_exec w) j = Some a" "ex_heap (xw_exec w) a = Some it"
      "\<not> future_done (qi_future it)" "qi_class it = ''urgent'' \<or> a \<in> set (ex_queue (xw_exec w))" by blast
    show ?thesis
    proof (cases "qi_class it = ''urgent''")
      case True
      then have "s = discard_exposed k (xw_exec w)" using Cons.prems a by simp
      then show ?thesis by (intro disjI1 pool_of_cong) (simp_all add: discard_exposed_def)
    next
      case False
      then have s: "s = discard_exposed k (set_item a (it\<lparr>qi_class := ''urgent''\<rparr>)
          ((xw_exec w)\<lparr>ex_queue := remove1 a (ex_queue (xw_exec w)), ex_urgent := ex_urgent (xw_exec w) @ [a]\<rparr>))"
        using Cons.prems a by simp
      have "pool_of (w\<lparr>xw_exec := s\<rparr>) = (set_future a (qi_future it) ''urgent'' (pool_of w))
          \<lparr>jp_queue := remove1 a (jp_queue (pool_of w)), jp_urgent := jp_urgent (pool_of w) @ [a]\<rparr>"
        by (rule pool_eqI) (simp_all add: s discard_exposed_def set_item_def)
      then show ?thesis
        using p_promote [of a "pool_of w" "qi_future it" "qi_class it" c] a False assms(2) by simp
    qed
  qed
qed

lemma notify_pool:
  assumes "notify_live_response_ready c sid rid (xw_exec w) = (b, s)"
  shows "pool_of (w\<lparr>xw_exec := s\<rparr>) = pool_of w \<or> pool_step c (pool_of w) (pool_of (w\<lparr>xw_exec := s\<rparr>))"
proof (cases "checkpoint_scheduling_policy c = ''reactive'' \<and> str_strip rid \<noteq> []")
  case False
  then show ?thesis using assms by (auto simp: notify_live_response_ready_def Let_def split: if_splits)
next
  case True
  obtain r s1 where p: "promote_checkpoint_request (sid, str_strip rid) (xw_exec w) = (r, s1)" by (metis surj_pair)
  have "pool_of (w\<lparr>xw_exec := s\<rparr>) = pool_of (w\<lparr>xw_exec := s1\<rparr>)"
    using assms True p by (intro pool_eqI) (auto simp: notify_live_response_ready_def Let_def split: prod.splits option.splits)
  then show ?thesis
    using promote_jobs_pool [of _ _ w r s1 c] p True by (simp add: promote_checkpoint_request_def)
qed

lemma reserve_pool:
  assumes "submit_reserve now job (xw_exec w) = (Inr (), s)"
  shows "pool_step c (pool_of w) (pool_of (w\<lparr>xw_exec := s, xw_submitting := job # xw_submitting w\<rparr>))"
proof -
  let ?p = "pool_of w"
  have "\<not> jp_closed ?p" "0 < jp_slots ?p"
    using assms by (auto simp: submit_reserve_def record_job_def Let_def split: if_splits)
  moreover have "pool_of (w\<lparr>xw_exec := s, xw_submitting := job # xw_submitting w\<rparr>)
      = ?p\<lparr>jp_slots := jp_slots ?p - 1, jp_reserved := Suc (jp_reserved ?p)\<rparr>"
    using assms by (intro pool_eqI) (auto simp: submit_reserve_def record_job_def Let_def split: if_splits)
  ultimately show ?thesis using p_reserve [of ?p c] by simp
qed

lemma enqueue_pool:
  assumes "job \<in> set (xw_submitting w)" and "submit_enqueue c job (xw_exec w) = (r, s)"
  shows "pool_step c (pool_of w) (pool_of (w\<lparr>xw_exec := s, xw_submitting := remove1 job (xw_submitting w)\<rparr>))"
proof -
  let ?p = "pool_of w" and ?w = "w\<lparr>xw_exec := s, xw_submitting := remove1 job (xw_submitting w)\<rparr>"
  let ?n = "length (xw_submitting w) - 1" and ?it = "new_item c job" and ?a = "ex_next (xw_exec w)"
  have n: "length (xw_submitting w) = Suc ?n" using assms(1) by (cases "xw_submitting w") auto
  have len: "length (remove1 job (xw_submitting w)) = ?n" using assms(1) by (simp add: length_remove1)
  show ?thesis
  proof (cases "ex_shutdown (xw_exec w)")
    case True
    then have "pool_of ?w = ?p\<lparr>jp_slots := (if jp_slots ?p \<ge> slot_capacity c then jp_slots ?p else jp_slots ?p + 1), jp_reserved := ?n\<rparr>"
      using assms(2) len
      by (intro pool_eqI) (auto simp: submit_enqueue_def release_slot_def finish_checkpoint_item_def Let_def split: if_splits)
    then show ?thesis using p_abandon [of ?p ?n c] True n by simp
  next
    case open_: False
    let ?s1 = "register_request ?it ((xw_exec w)\<lparr>ex_items := (ex_items (xw_exec w))(job_id job \<mapsto> ?a), ex_next := ?a + 1\<rparr>)"
    show ?thesis
    proof (cases "is_exposed c ?it ?s1")
      case True
      then have "pool_of ?w = (set_future ?a FutPending ''urgent'' ?p)\<lparr>jp_next := Suc ?a, jp_reserved := ?n, jp_urgent := jp_urgent ?p @ [?a]\<rparr>"
        using assms(2) len open_
        by (intro pool_eqI) (auto simp: submit_enqueue_def discard_exposed_def set_item_def new_item_def Let_def)
      moreover have "checkpoint_scheduling_policy c \<noteq> ''fifo''" using True by (simp add: is_exposed_def)
      ultimately show ?thesis using p_urgent [of ?p ?n ?a c] open_ n by simp
    next
      case False
      then have "pool_of ?w = (set_future ?a FutPending (qi_class ?it) ?p)\<lparr>jp_next := Suc ?a, jp_reserved := ?n, jp_queue := jp_queue ?p @ [?a]\<rparr>"
        using assms(2) len open_
        by (intro pool_eqI) (auto simp: submit_enqueue_def set_item_def new_item_def Let_def)
      moreover have "qi_class ?it \<noteq> ''urgent''" by (simp add: new_item_def)
      ultimately show ?thesis using p_normal [of ?p ?n ?a "qi_class ?it" c] open_ n by simp
    qed
  qed
qed

lemma cancel_pool:
  "pool_of (w\<lparr>xw_exec := cancel_future c a (xw_exec w)\<rparr>) = pool_of w
     \<or> pool_step c (pool_of w) (pool_of (w\<lparr>xw_exec := cancel_future c a (xw_exec w)\<rparr>))"
proof (cases "\<exists>it. ex_heap (xw_exec w) a = Some it \<and> qi_future it = FutPending")
  case False
  then have "cancel_future c a (xw_exec w) = xw_exec w" by (auto simp: cancel_future_def split: option.split)
  then show ?thesis by simp
next
  case True
  let ?p = "pool_of w"
  obtain it where it: "ex_heap (xw_exec w) a = Some it" "qi_future it = FutPending" using True by blast
  then have "pool_of (w\<lparr>xw_exec := cancel_future c a (xw_exec w)\<rparr>) = (set_future a FutCancelled (qi_class it) ?p)
      \<lparr>jp_slots := (if jp_slots ?p \<ge> slot_capacity c then jp_slots ?p else jp_slots ?p + 1)\<rparr>"
    by (intro pool_eqI) (simp_all add: cancel_future_def release_slot_def set_item_def)
  then show ?thesis using p_cancel [of ?p a "qi_class it" c] it by simp
qed

lemma start_pool:
  assumes "i < length (xw_workers w)" "xw_workers w ! i = Idle" "dequeue_checkpoint_item c (xw_exec w) = (Some a, s)"
    and "start_item now a s = (b, s')"
  shows "pool_step c (pool_of w) (pool_of (w\<lparr>xw_exec := s', xw_workers := (if b then (xw_workers w)[i := Executing a] else xw_workers w)\<rparr>))"
proof -
  let ?p = "pool_of w" and ?q = "pool_of (w\<lparr>xw_exec := s\<rparr>)"
  let ?w = "w\<lparr>xw_exec := s', xw_workers := (if b then (xw_workers w)[i := Executing a] else xw_workers w)\<rparr>"
  note t = dequeue_take [OF assms(3)]
  show ?thesis
  proof (cases "ex_heap s a")
    case None
    then have "b = False" "s' = s" using assms(4) by (auto simp: start_item_def)
    then show ?thesis using p_lost [of i ?p c a ?q] assms(1,2) t None by simp
  next
    case (Some it)
    show ?thesis
    proof (cases "qi_future it = FutCancelled")
      case True
      then have "pool_of ?w = set_future a FutCancelledAndNotified (qi_class it) ?q"
        using assms(4) Some by (intro pool_eqI) (auto simp: start_item_def finish_checkpoint_item_def set_item_def)
      then show ?thesis using p_skip [of i ?p c a ?q "qi_class it"] assms(1,2) t Some True by simp
    next
      case False
      then have "pool_of ?w = (set_future a FutRunning (qi_class it) ?q)\<lparr>jp_workers := (jp_workers ?p)[i := Executing a]\<rparr>"
        using assms(4) Some by (intro pool_eqI) (auto simp: start_item_def record_job_def set_item_def)
      then show ?thesis using p_run [of i ?p c a ?q "qi_future it" "qi_class it"] assms(1,2) t Some False by simp
    qed
  qed
qed

lemma complete_pool:
  assumes "i < length (xw_workers w)" "xw_workers w ! i = Executing a"
  shows "pool_step c (pool_of w) (pool_of (w\<lparr>xw_exec := complete_item c started res a (xw_exec w), xw_workers := (xw_workers w)[i := Idle]\<rparr>))"
proof -
  let ?p = "pool_of w"
  let ?w = "w\<lparr>xw_exec := complete_item c started res a (xw_exec w), xw_workers := (xw_workers w)[i := Idle]\<rparr>"
  show ?thesis
  proof (cases "ex_heap (xw_exec w) a")
    case None
    then have "pool_of ?w = ?p\<lparr>jp_workers := (jp_workers ?p)[i := Idle]\<rparr>"
      by (intro pool_eqI) (simp_all add: complete_item_def)
    then show ?thesis using p_vanish [of i ?p a c] assms None by simp
  next
    case (Some it)
    then have "pool_of ?w = (set_future a FutFinished (qi_class it) ?p)\<lparr>jp_workers := (jp_workers ?p)[i := Idle],
        jp_slots := (if jp_slots ?p \<ge> slot_capacity c then jp_slots ?p else jp_slots ?p + 1)\<rparr>"
      by (intro pool_eqI) (simp_all add: complete_item_def release_slot_def set_item_def finish_checkpoint_item_def record_job_def)
    then show ?thesis using p_complete [of i ?p a "qi_future it" "qi_class it" c] assms Some by simp
  qed
qed

lemma exec_step_pool:
  assumes "exec_step c w w'"
  shows "pool_of w' = pool_of w \<or> pool_step c (pool_of w) (pool_of w')"
  using assms
proof cases
  case (refuse now job e s)
  then show ?thesis
    by (intro disjI1) (auto intro!: pool_of_cong simp: submit_reserve_def record_job_def Let_def split: if_splits)
next
  case (clear sid rid)
  then show ?thesis
    by (intro disjI1) (auto intro!: pool_of_cong simp: clear_live_response_ready_def discard_exposed_def split: option.split)
next
  case shut
  have "pool_of w' = (pool_of w)\<lparr>jp_closed := True\<rparr>" unfolding shut by (rule pool_eqI) (simp_all add: shutdown_def)
  then show ?thesis by (simp add: p_close)
next
  case (leave i s)
  have s: "s = xw_exec w" and q: "ex_queue s = []" "checkpoint_scheduling_policy c \<noteq> ''fifo'' \<longrightarrow> ex_urgent s = []"
    using dequeue_None [OF leave(4)] by auto
  have "pool_of w' = (pool_of w)\<lparr>jp_workers := (jp_workers (pool_of w))[i := Exited]\<rparr>"
    unfolding leave(1) by (rule pool_eqI) (simp_all add: s)
  then show ?thesis using p_leave [of i "pool_of w" c] leave(2,3,5) s q by simp
next
  case (run i a s now s')
  then show ?thesis using start_pool [OF run(2-5)] by simp
next
  case (skip i a s now s')
  have "w\<lparr>xw_exec := s', xw_workers := xw_workers w\<rparr> = w\<lparr>xw_exec := s'\<rparr>" by simp
  then show ?thesis using start_pool [OF skip(2-5)] skip(1) by simp
next
  case (reserve now job s)
  show ?thesis unfolding reserve(1) by (rule disjI2, rule reserve_pool [OF reserve(2)])
next
  case (enqueue job r s)
  show ?thesis unfolding enqueue(1) by (rule disjI2, rule enqueue_pool [OF enqueue(2,3)])
next
  case (notify sid rid b s)
  show ?thesis unfolding notify(1) by (rule notify_pool [OF notify(2)])
next
  case (cancel a)
  show ?thesis unfolding cancel by (rule cancel_pool)
next
  case (complete i a started res)
  show ?thesis unfolding complete(1) by (rule disjI2, rule complete_pool [OF complete(2,3)])
qed

end
