(* ===== verification/Executor_Pool.thy ===== *)
theory Executor_Pool
  imports Executor
begin

text \<open>
  Invariants and guarantees of the executor's job pool: what holds in every reachable state (no job is lost
  or held twice, the slot semaphore counts exactly the outstanding jobs), the contract the executor
  implements, and how long a job can wait in the normal queue.
\<close>

section \<open>The invariant\<close>

definition held :: "worker \<Rightarrow> addr list" where
  "held w = (case w of Executing a \<Rightarrow> [a] | _ \<Rightarrow> [])"

definition executing :: "worker list \<Rightarrow> addr list" where
  "executing ws = concat (map held ws)"

definition live :: "job_pool \<Rightarrow> addr set" where
  "live p = {a. \<exists>f cls. jp_items p a = Some (f, cls) \<and> \<not> future_done f}"

definition queued_in :: "job_pool \<Rightarrow> (string \<Rightarrow> bool) \<Rightarrow> addr \<Rightarrow> bool" where
  "queued_in p P a = (case jp_items p a of
      None \<Rightarrow> False
    | Some (f, cls) \<Rightarrow> (f = FutPending \<or> f = FutCancelled) \<and> P cls)"

definition is_running :: "job_pool \<Rightarrow> addr \<Rightarrow> bool" where
  "is_running p a = (case jp_items p a of None \<Rightarrow> False | Some (f, _) \<Rightarrow> f = FutRunning)"

text \<open>Every address is held by at most one queue or worker, each holder sees the state it expects, and every
  job that is not done has a holder.\<close>

definition pool_held :: "executor_config \<Rightarrow> job_pool \<Rightarrow> bool" where
  "pool_held c p =
     (distinct (jp_queue p @ jp_urgent p @ executing (jp_workers p))
      \<and> (\<forall>a \<in> set (jp_queue p). queued_in p (\<lambda>cls. cls \<noteq> ''urgent'') a)
      \<and> (\<forall>a \<in> set (jp_urgent p). queued_in p (\<lambda>cls. cls = ''urgent'') a)
      \<and> (\<forall>a \<in> set (executing (jp_workers p)). is_running p a)
      \<and> live p \<subseteq> set (jp_queue p) \<union> set (jp_urgent p) \<union> set (executing (jp_workers p))
      \<and> (checkpoint_scheduling_policy c = ''fifo'' \<longrightarrow> jp_urgent p = [])
      \<and> (Exited \<in> set (jp_workers p) \<longrightarrow> jp_closed p \<and> jp_queue p = [] \<and> jp_urgent p = []))"

text \<open>The semaphore counts the reservations and the jobs that are not done.\<close>

definition pool_counted :: "executor_config \<Rightarrow> job_pool \<Rightarrow> bool" where
  "pool_counted c p =
     (dom (jp_items p) \<subseteq> {..<jp_next p} \<and> 0 \<le> jp_slots p \<and> 0 \<le> jp_streak p
      \<and> jp_slots p + int (jp_reserved p) + int (card (live p)) = slot_capacity c
      \<and> int (length (jp_workers p)) = resolved_checkpoint_workers c)"

definition pool_ok :: "executor_config \<Rightarrow> job_pool \<Rightarrow> bool" where
  "pool_ok c p = (pool_held c p \<and> pool_counted c p)"

lemma executing_update:
  assumes "i < length ws"
  obtains ys zs where "executing ws = ys @ held (ws ! i) @ zs" "\<And>x. executing (ws[i := x]) = ys @ held x @ zs"
proof
  show "executing ws = executing (take i ws) @ held (ws ! i) @ executing (drop (Suc i) ws)"
    using id_take_nth_drop [OF assms] by (simp add: executing_def) (metis concat_append concat.simps(2) list.map(2) map_append)
  show "executing (ws[i := x]) = executing (take i ws) @ held x @ executing (drop (Suc i) ws)" for x
    using upd_conv_take_nth_drop [OF assms] by (simp add: executing_def)
qed

lemma live_update [simp]:
  "live (p\<lparr>jp_items := (jp_items p)(a \<mapsto> (f, cls))\<rparr>) = (if future_done f then live p - {a} else insert a (live p))"
  by (auto simp: live_def split: if_splits)

lemma live_eq:
  "jp_items q = (jp_items p)(a \<mapsto> (f, cls)) \<Longrightarrow> live q = (if future_done f then live p - {a} else insert a (live p))"
  by (auto simp: live_def split: if_splits)

lemma live_cong [simp]:
  "live (p\<lparr>jp_next := n\<rparr>) = live p" "live (p\<lparr>jp_slots := k\<rparr>) = live p" "live (p\<lparr>jp_reserved := r\<rparr>) = live p"
  "live (p\<lparr>jp_closed := b\<rparr>) = live p" "live (p\<lparr>jp_queue := q\<rparr>) = live p" "live (p\<lparr>jp_urgent := u\<rparr>) = live p"
  "live (p\<lparr>jp_streak := t\<rparr>) = live p" "live (p\<lparr>jp_workers := ws\<rparr>) = live p"
  by (simp_all add: live_def)

lemma future_done_simps [simp]:
  "future_done FutPending = False" "future_done FutRunning = False" "future_done FutCancelled"
  "future_done FutCancelledAndNotified" "future_done FutFinished"
  by (simp_all add: future_done_def)

lemma live_finite: "pool_counted c p \<Longrightarrow> finite (live p)"
  by (rule finite_subset [of _ "{..<jp_next p}"]) (auto simp: pool_counted_def live_def dom_def)

lemma held_simps [simp]: "held Idle = []" "held Exited = []" "held (Executing a) = [a]"
  by (simp_all add: held_def)

section \<open>Every step keeps the invariant\<close>

lemma pool_take_same:
  assumes "pool_take c p a q"
  shows "jp_items q = jp_items p" "jp_next q = jp_next p" "jp_slots q = jp_slots p" "jp_reserved q = jp_reserved p"
    "jp_closed q = jp_closed p" "jp_workers q = jp_workers p" "live q = live p"
    "0 \<le> jp_streak p \<Longrightarrow> 0 \<le> jp_streak q"
  using assms by (auto elim!: pool_takeE simp: live_def)

lemma queued_in_mono: "queued_in p P a \<Longrightarrow> (\<And>x. P x \<Longrightarrow> Q x) \<Longrightarrow> queued_in p Q a"
  by (auto simp: queued_in_def split: option.splits)

lemma pool_heldD:
  assumes "pool_held c p"
  shows "distinct (jp_queue p @ jp_urgent p @ executing (jp_workers p))"
    and "a \<in> set (jp_queue p) \<Longrightarrow> queued_in p (\<lambda>cls. cls \<noteq> ''urgent'') a"
    and "a \<in> set (jp_urgent p) \<Longrightarrow> queued_in p (\<lambda>cls. cls = ''urgent'') a"
    and "a \<in> set (executing (jp_workers p)) \<Longrightarrow> is_running p a"
    and "live p \<subseteq> set (jp_queue p) \<union> set (jp_urgent p) \<union> set (executing (jp_workers p))"
    and "checkpoint_scheduling_policy c = ''fifo'' \<Longrightarrow> jp_urgent p = []"
    and "Exited \<in> set (jp_workers p) \<Longrightarrow> jp_closed p \<and> jp_queue p = [] \<and> jp_urgent p = []"
  using assms by (simp_all add: pool_held_def)

lemma pool_take_queues:
  assumes "pool_take c p a q" and "pool_held c p"
  shows "distinct (a # jp_queue q @ jp_urgent q @ executing (jp_workers p))"
    and "insert a (set (jp_queue q) \<union> set (jp_urgent q)) = set (jp_queue p) \<union> set (jp_urgent p)"
    and "set (jp_queue q) \<subseteq> set (jp_queue p)" and "set (jp_urgent q) \<subseteq> set (jp_urgent p)"
    and "checkpoint_scheduling_policy c = ''fifo'' \<longrightarrow> jp_urgent q = []"
  using assms(1) pool_heldD(1,6) [OF assms(2)] by (auto elim!: pool_takeE)

lemma pool_take_queued:
  assumes "pool_take c p a q" and "pool_held c p"
  shows "queued_in p (\<lambda>_. True) a"
proof -
  have "a \<in> set (jp_queue p) \<or> a \<in> set (jp_urgent p)" using pool_take_queues(2) [OF assms] by blast
  then show ?thesis using pool_heldD(2,3) [OF assms(2)] queued_in_mono by metis
qed

lemma pool_take_open:
  assumes "pool_take c p a q" and "pool_held c p"
  shows "Exited \<notin> set (jp_workers p)"
  using assms(1) pool_heldD(7) [OF assms(2)] by (auto elim!: pool_takeE)

lemma pool_heldI:
  assumes "distinct (jp_queue p @ jp_urgent p @ executing (jp_workers p))"
    and "\<And>a. a \<in> set (jp_queue p) \<Longrightarrow> queued_in p (\<lambda>cls. cls \<noteq> ''urgent'') a"
    and "\<And>a. a \<in> set (jp_urgent p) \<Longrightarrow> queued_in p (\<lambda>cls. cls = ''urgent'') a"
    and "\<And>a. a \<in> set (executing (jp_workers p)) \<Longrightarrow> is_running p a"
    and "live p \<subseteq> set (jp_queue p) \<union> set (jp_urgent p) \<union> set (executing (jp_workers p))"
    and "checkpoint_scheduling_policy c = ''fifo'' \<Longrightarrow> jp_urgent p = []"
    and "Exited \<in> set (jp_workers p) \<Longrightarrow> jp_closed p \<and> jp_queue p = [] \<and> jp_urgent p = []"
  shows "pool_held c p"
  using assms by (simp add: pool_held_def)

text \<open>The state of an item is read from the items alone.\<close>

lemma item_state_update:
  "b \<noteq> a \<Longrightarrow> jp_items q = (jp_items p)(a \<mapsto> x) \<Longrightarrow> queued_in q P b = queued_in p P b"
  "b \<noteq> a \<Longrightarrow> jp_items q = (jp_items p)(a \<mapsto> x) \<Longrightarrow> is_running q b = is_running p b"
  "jp_items q = jp_items p \<Longrightarrow> queued_in q P b = queued_in p P b"
  "jp_items q = jp_items p \<Longrightarrow> is_running q b = is_running p b"
  by (simp_all add: queued_in_def is_running_def)

text \<open>An item changes its state and its holder; the rest of the pool stays.\<close>

lemma held_change:
  assumes "pool_held c p" and "jp_items p' = (jp_items p)(a \<mapsto> (f, cls))"
    and "distinct (jp_queue p' @ jp_urgent p' @ executing (jp_workers p'))"
    and "set (jp_queue p') - {a} \<subseteq> set (jp_queue p)" and "set (jp_urgent p') - {a} \<subseteq> set (jp_urgent p)"
    and "set (executing (jp_workers p')) - {a} \<subseteq> set (executing (jp_workers p))"
    and "set (jp_queue p) \<union> set (jp_urgent p) \<union> set (executing (jp_workers p)) - {a}
           \<subseteq> set (jp_queue p') \<union> set (jp_urgent p') \<union> set (executing (jp_workers p'))"
    and "a \<in> set (jp_queue p') \<Longrightarrow> (f = FutPending \<or> f = FutCancelled) \<and> cls \<noteq> ''urgent''"
    and "a \<in> set (jp_urgent p') \<Longrightarrow> (f = FutPending \<or> f = FutCancelled) \<and> cls = ''urgent''"
    and "a \<in> set (executing (jp_workers p')) \<Longrightarrow> f = FutRunning"
    and "\<not> future_done f \<Longrightarrow> a \<in> set (jp_queue p') \<union> set (jp_urgent p') \<union> set (executing (jp_workers p'))"
    and "checkpoint_scheduling_policy c = ''fifo'' \<Longrightarrow> jp_urgent p' = []"
    and "Exited \<in> set (jp_workers p') \<Longrightarrow> jp_closed p' \<and> jp_queue p' = [] \<and> jp_urgent p' = []"
  shows "pool_held c p'"
proof (rule pool_heldI)
  have [simp]: "queued_in p' P a \<longleftrightarrow> (f = FutPending \<or> f = FutCancelled) \<and> P cls" for P
    by (simp add: queued_in_def assms(2))
  have [simp]: "is_running p' a \<longleftrightarrow> f = FutRunning" by (simp add: is_running_def assms(2))
  note other = item_state_update(1,2) [OF _ assms(2)]
  show "b \<in> set (jp_queue p') \<Longrightarrow> queued_in p' (\<lambda>cls. cls \<noteq> ''urgent'') b" for b
    using assms(8) other(1) [of b] pool_heldD(2) [OF assms(1)] subsetD [OF assms(4), of b] by (cases "b = a") simp_all
  show "b \<in> set (jp_urgent p') \<Longrightarrow> queued_in p' (\<lambda>cls. cls = ''urgent'') b" for b
    using assms(9) other(1) [of b] pool_heldD(3) [OF assms(1)] subsetD [OF assms(5), of b] by (cases "b = a") simp_all
  show "b \<in> set (executing (jp_workers p')) \<Longrightarrow> is_running p' b" for b
    using assms(10) other(2) [of b] pool_heldD(4) [OF assms(1)] subsetD [OF assms(6), of b] by (cases "b = a") simp_all
  have "live p' - {a} \<subseteq> live p" by (auto simp: live_def assms(2) split: if_splits)
  moreover have "a \<in> live p' \<Longrightarrow> \<not> future_done f" by (simp add: live_def assms(2))
  ultimately show "live p' \<subseteq> set (jp_queue p') \<union> set (jp_urgent p') \<union> set (executing (jp_workers p'))"
    using assms(7,11) pool_heldD(5) [OF assms(1)] by blast
  show "distinct (jp_queue p' @ jp_urgent p' @ executing (jp_workers p'))" by (rule assms(3))
  show "checkpoint_scheduling_policy c = ''fifo'' \<Longrightarrow> jp_urgent p' = []" by (rule assms(12))
  show "Exited \<in> set (jp_workers p') \<Longrightarrow> jp_closed p' \<and> jp_queue p' = [] \<and> jp_urgent p' = []" by (rule assms(13))
qed

lemma held_run:
  assumes "pool_held c p" "i < length (jp_workers p)" "jp_workers p ! i = Idle" "pool_take c p a q"
  shows "pool_held c ((set_future a FutRunning cls q)\<lparr>jp_workers := (jp_workers p)[i := Executing a]\<rparr>)"
proof -
  obtain ys zs where ex: "executing (jp_workers p) = ys @ zs" "executing ((jp_workers p)[i := Executing a]) = ys @ a # zs"
    using executing_update [OF assms(2)] assms(3) by (metis append_Cons append_Nil held_simps(1,3))
  note t = pool_take_queues [OF assms(4,1)] and s = pool_take_same [OF assms(4)]
  have "Exited \<notin> set ((jp_workers p)[i := Executing a])"
    using pool_take_open [OF assms(4,1)] set_update_subset_insert by fastforce
  then show ?thesis
    using t ex s by (intro held_change [OF assms(1), where a = a and f = FutRunning and cls = cls]) auto
qed

lemma held_skip:
  assumes "pool_held c p" "pool_take c p a q"
  shows "pool_held c (set_future a FutCancelledAndNotified cls q)"
  using pool_take_queues [OF assms(2,1)] pool_take_same [OF assms(2)] pool_take_open [OF assms(2,1)]
  by (intro held_change [OF assms(1), where a = a and f = FutCancelledAndNotified and cls = cls]) auto

lemma next_fresh: "pool_counted c p \<Longrightarrow> jp_items p (jp_next p) = None"
  by (simp add: pool_counted_def) (meson domIff lessThan_iff less_irrefl subsetD)

lemma held_enqueue:
  assumes "pool_held c p" "pool_counted c p" "a = jp_next p" "\<not> jp_closed p"
    and "q = jp_queue p \<and> u = jp_urgent p @ [a] \<and> cls = ''urgent'' \<and> checkpoint_scheduling_policy c \<noteq> ''fifo''
       \<or> q = jp_queue p @ [a] \<and> u = jp_urgent p \<and> cls \<noteq> ''urgent''"
  shows "pool_held c ((set_future a FutPending cls p)\<lparr>jp_next := Suc a, jp_reserved := n, jp_queue := q, jp_urgent := u\<rparr>)"
proof -
  have none: "jp_items p a = None" using next_fresh [OF assms(2)] assms(3) by simp
  have "a \<notin> set (jp_queue p)" "a \<notin> set (jp_urgent p)" "a \<notin> set (executing (jp_workers p))"
    using pool_heldD(2,3,4) [OF assms(1), of a] none by (auto simp: queued_in_def is_running_def)
  then show ?thesis
    using assms(4,5) pool_heldD(1,6,7) [OF assms(1)]
    by (intro held_change [OF assms(1), where a = a and f = FutPending and cls = cls]) auto
qed

lemma held_promote:
  assumes "pool_held c p" "a \<in> set (jp_queue p)" "jp_items p a = Some (f, cls)" "checkpoint_scheduling_policy c \<noteq> ''fifo''"
  shows "pool_held c ((set_future a f ''urgent'' p)\<lparr>jp_queue := remove1 a (jp_queue p), jp_urgent := jp_urgent p @ [a]\<rparr>)"
proof -
  have "f = FutPending \<or> f = FutCancelled" using pool_heldD(2) [OF assms(1,2)] assms(3) by (simp add: queued_in_def)
  moreover have "set (remove1 a (jp_queue p)) = set (jp_queue p) - {a}"
    using pool_heldD(1) [OF assms(1)] by simp
  moreover have "Exited \<notin> set (jp_workers p)" using pool_heldD(7) [OF assms(1)] assms(2) by auto
  ultimately show ?thesis
    using assms(2,4) pool_heldD(1) [OF assms(1)]
    by (intro held_change [OF assms(1), where a = a and f = f and cls = "''urgent''"]) auto
qed

lemma held_cancel:
  assumes "pool_held c p" "jp_items p a = Some (FutPending, cls)"
  shows "pool_held c ((set_future a FutCancelled cls p)\<lparr>jp_slots := k\<rparr>)"
proof -
  have "a \<in> set (jp_queue p) \<Longrightarrow> cls \<noteq> ''urgent''" "a \<in> set (jp_urgent p) \<Longrightarrow> cls = ''urgent''"
    "a \<notin> set (executing (jp_workers p))"
    using pool_heldD(2,3,4) [OF assms(1), of a] assms(2) by (auto simp: queued_in_def is_running_def)
  then show ?thesis
    using pool_heldD(1,6,7) [OF assms(1)]
    by (intro held_change [OF assms(1), where a = a and f = FutCancelled and cls = cls]) auto
qed

lemma held_complete:
  assumes "pool_held c p" "i < length (jp_workers p)" "jp_workers p ! i = Executing a"
  shows "pool_held c ((set_future a FutFinished cls p)\<lparr>jp_workers := (jp_workers p)[i := Idle], jp_slots := k\<rparr>)"
proof -
  obtain ys zs where ex: "executing (jp_workers p) = ys @ a # zs" "executing ((jp_workers p)[i := Idle]) = ys @ zs"
    using executing_update [OF assms(2)] assms(3) by (metis append_Cons append_Nil held_simps(1,3))
  have "Exited \<in> set ((jp_workers p)[i := Idle]) \<Longrightarrow> Exited \<in> set (jp_workers p)"
    using set_update_subset_insert by fastforce
  then show ?thesis
    using pool_heldD(1,6,7) [OF assms(1)] ex
    by (intro held_change [OF assms(1), where a = a and f = FutFinished and cls = cls]) auto
qed

lemma held_leave:
  assumes "pool_held c p" "i < length (jp_workers p)" "jp_workers p ! i = Idle" "jp_closed p" "jp_queue p = []"
    and "checkpoint_scheduling_policy c \<noteq> ''fifo'' \<longrightarrow> jp_urgent p = []"
  shows "pool_held c (p\<lparr>jp_workers := (jp_workers p)[i := Exited]\<rparr>)"
proof -
  have "executing ((jp_workers p)[i := Exited]) = executing (jp_workers p)"
    using executing_update [OF assms(2)] assms(3) by (metis append_Nil held_simps(1,2))
  then show ?thesis using assms by (auto simp: pool_held_def queued_in_def is_running_def)
qed

lemma pool_ok_taken:
  assumes "pool_ok c p" "pool_take c p a q" "jp_items p a = Some (f, cls)"
  shows "(f \<noteq> FutCancelled \<longrightarrow> f = FutPending) \<and> (f = FutPending \<longleftrightarrow> a \<in> live p)"
  using pool_take_queued [OF assms(2)] assms(1,3) by (auto simp: pool_ok_def queued_in_def live_def)

lemma pool_ok_step:
  assumes "pool_step c p p'" and "pool_ok c p"
  shows "pool_ok c p'"
proof -
  have h: "pool_held c p" and k: "pool_counted c p" using assms(2) by (simp_all add: pool_ok_def)
  note fin = live_finite [OF k] and k' = k [unfolded pool_counted_def]
  from assms(1) have "pool_held c p' \<and> pool_counted c p'"
  proof cases
    case p_reserve
    then show ?thesis using h k' by (simp add: pool_held_def pool_counted_def queued_in_def is_running_def)
  next
    case (p_abandon n)
    then show ?thesis using h k' by (simp add: pool_held_def pool_counted_def queued_in_def is_running_def)
  next
    case (p_normal n a cls)
    have "a \<notin> live p" using next_fresh [OF k] p_normal(4) by (simp add: live_def)
    then show ?thesis
      using held_enqueue [OF h k p_normal(4,2), of "jp_queue p @ [a]" "jp_urgent p" cls n] p_normal k' fin
      by (auto simp: pool_counted_def)
  next
    case (p_urgent n a)
    have "a \<notin> live p" using next_fresh [OF k] p_urgent(4) by (simp add: live_def)
    then show ?thesis
      using held_enqueue [OF h k p_urgent(4,2), of "jp_queue p" "jp_urgent p @ [a]" "''urgent''" n] p_urgent k' fin
      by (auto simp: pool_counted_def)
  next
    case (p_promote a f cls)
    have "f = FutPending \<or> f = FutCancelled" using pool_heldD(2) [OF h p_promote(2)] p_promote(3) by (simp add: queued_in_def)
    then have "live p' = live p" using p_promote(1,3) by (auto simp: live_def)
    then show ?thesis using held_promote [OF h p_promote(2-4)] p_promote k' by (auto simp: pool_counted_def)
  next
    case (p_cancel a cls)
    have "a \<in> live p" using p_cancel(2) by (simp add: live_def)
    then have "0 < card (live p)" "card (live p - {a}) = card (live p) - 1" using fin by (auto simp: card_gt_0_iff)
    then show ?thesis using held_cancel [OF h p_cancel(2)] p_cancel k' by (auto simp: pool_counted_def)
  next
    case p_close
    then show ?thesis using h k' by (auto simp: pool_held_def pool_counted_def queued_in_def is_running_def)
  next
    case (p_run i a q f cls)
    note t = pool_take_same [OF p_run(4)]
    have "insert a (live p) = live p" using pool_ok_taken [OF assms(2) p_run(4,5)] p_run(6) by blast
    then have "live p' = live p" using live_eq [of p' p a FutRunning cls] p_run(1) t(1) by simp
    then have "pool_counted c p'" using p_run(1,5) t k' by (auto simp: pool_counted_def)
    then show ?thesis using held_run [OF h p_run(2-4)] p_run(1) by simp
  next
    case (p_skip i a q cls)
    note t = pool_take_same [OF p_skip(4)]
    have "live p - {a} = live p" using pool_ok_taken [OF assms(2) p_skip(4,5)] by simp
    then have "live p' = live p" using live_eq [of p' p a FutCancelledAndNotified cls] p_skip(1) t(1) by simp
    then have "pool_counted c p'" using p_skip(1,5) t k' by (auto simp: pool_counted_def)
    then show ?thesis using held_skip [OF h p_skip(4)] p_skip(1) by simp
  next
    case (p_lost i a)
    then show ?thesis using pool_take_queued [OF p_lost(3) h] by (simp add: queued_in_def)
  next
    case (p_leave i)
    then show ?thesis using held_leave [OF h p_leave(2-6)] k' by (auto simp: pool_counted_def)
  next
    case (p_complete i a f cls)
    have "a \<in> set (executing (jp_workers p))"
      using p_complete(2,3) nth_mem [OF p_complete(2)] by (force simp: executing_def)
    then have "a \<in> live p" using pool_heldD(4) [OF h, of a] p_complete(4) by (auto simp: live_def is_running_def)
    then have "0 < card (live p)" "card (live p - {a}) = card (live p) - 1" using fin by (auto simp: card_gt_0_iff)
    then show ?thesis using held_complete [OF h p_complete(2,3)] p_complete k' by (auto simp: pool_counted_def)
  next
    case (p_vanish i a)
    have "a \<in> set (executing (jp_workers p))"
      using p_vanish(2,3) nth_mem [OF p_vanish(2)] by (force simp: executing_def)
    then show ?thesis using pool_heldD(4) [OF h, of a] p_vanish(4) by (auto simp: is_running_def)
  qed
  then show ?thesis by (simp add: pool_ok_def)
qed

section \<open>The contract\<close>

text \<open>What callers rely on: a job is accepted while the executor is open and has room, started by one of the
  workers, and settled once.\<close>

record job_board =
  waiting :: "addr set"
  active :: "addr set"
  settled :: "addr set"
  accepting :: bool

inductive board_step :: "executor_config \<Rightarrow> job_board \<Rightarrow> job_board \<Rightarrow> bool" for c where
  accept: "accepting b \<Longrightarrow> a \<notin> waiting b \<union> active b \<union> settled b \<Longrightarrow>
     int (card (waiting b \<union> active b)) < slot_capacity c \<Longrightarrow> board_step c b (b\<lparr>waiting := insert a (waiting b)\<rparr>)"
| start: "a \<in> waiting b \<Longrightarrow> int (card (active b)) < resolved_checkpoint_workers c \<Longrightarrow>
     board_step c b (b\<lparr>waiting := waiting b - {a}, active := insert a (active b)\<rparr>)"
| withdraw: "a \<in> waiting b \<Longrightarrow> board_step c b (b\<lparr>waiting := waiting b - {a}, settled := insert a (settled b)\<rparr>)"
| settle: "a \<in> active b \<Longrightarrow> board_step c b (b\<lparr>active := active b - {a}, settled := insert a (settled b)\<rparr>)"
| close: "board_step c b (b\<lparr>accepting := False\<rparr>)"

definition empty_board :: job_board where
  "empty_board = \<lparr>waiting = {}, active = {}, settled = {}, accepting = True\<rparr>"

definition in_state :: "job_pool \<Rightarrow> (future_state \<Rightarrow> bool) \<Rightarrow> addr set" where
  "in_state p P = {a. \<exists>f cls. jp_items p a = Some (f, cls) \<and> P f}"

definition board_of :: "job_pool \<Rightarrow> job_board" where
  "board_of p = \<lparr>waiting = in_state p (\<lambda>f. f = FutPending), active = in_state p (\<lambda>f. f = FutRunning),
     settled = in_state p future_done, accepting = \<not> jp_closed p\<rparr>"

definition valid_pool :: "executor_config \<Rightarrow> job_pool \<Rightarrow> bool" where
  "valid_pool c p = (executor_config_post_init c = Inr () \<longrightarrow> pool_ok c p)"

lemma in_state_cong [simp]:
  "in_state (p\<lparr>jp_next := n\<rparr>) P = in_state p P" "in_state (p\<lparr>jp_slots := k\<rparr>) P = in_state p P"
  "in_state (p\<lparr>jp_reserved := r\<rparr>) P = in_state p P" "in_state (p\<lparr>jp_closed := b\<rparr>) P = in_state p P"
  "in_state (p\<lparr>jp_queue := q\<rparr>) P = in_state p P" "in_state (p\<lparr>jp_urgent := u\<rparr>) P = in_state p P"
  "in_state (p\<lparr>jp_streak := t\<rparr>) P = in_state p P" "in_state (p\<lparr>jp_workers := ws\<rparr>) P = in_state p P"
  by (simp_all add: in_state_def)

lemma in_state_eq:
  "jp_items q = (jp_items p)(a \<mapsto> (f, cls)) \<Longrightarrow> in_state q P = (if P f then insert a (in_state p P) else in_state p P - {a})"
  by (auto simp: in_state_def split: if_splits)

lemma live_in_state: "live p = in_state p (\<lambda>f. f = FutPending) \<union> in_state p (\<lambda>f. f = FutRunning)"
  unfolding live_def in_state_def by (auto simp: future_done_def) (metis future_state.exhaust)+

lemma executing_running:
  assumes "pool_ok c p"
  shows "in_state p (\<lambda>f. f = FutRunning) = set (executing (jp_workers p))"
proof -
  have h: "pool_held c p" using assms by (simp add: pool_ok_def)
  have "a \<in> set (executing (jp_workers p))" if "jp_items p a = Some (FutRunning, cls)" for a cls
  proof -
    have "a \<in> live p" using that by (simp add: live_def)
    moreover have "a \<notin> set (jp_queue p)" "a \<notin> set (jp_urgent p)"
      using pool_heldD(2,3) [OF h, of a] that by (auto simp: queued_in_def)
    ultimately show ?thesis using pool_heldD(5) [OF h] by blast
  qed
  moreover have "\<exists>cls. jp_items p a = Some (FutRunning, cls)" if "a \<in> set (executing (jp_workers p))" for a
    using pool_heldD(4) [OF h that] by (auto simp: is_running_def split: option.splits)
  ultimately show ?thesis by (auto simp: in_state_def)
qed

lemma executing_length: "length (executing ws) \<le> length ws"
  by (induction ws) (auto simp: executing_def held_def split: worker.split)

lemma executing_idle:
  assumes "i < length ws" and "ws ! i = Idle"
  shows "length (executing ws) < length ws"
proof -
  have "executing ws = executing (take i ws) @ executing (drop (Suc i) ws)"
    using id_take_nth_drop [OF assms(1)] assms(2)
    by (simp add: executing_def) (metis append_Nil concat.simps(2) concat_append held_simps(1) list.map(2) map_append)
  then show ?thesis
    using executing_length [of "take i ws"] executing_length [of "drop (Suc i) ws"] assms(1) by simp
qed

lemma active_bound:
  assumes "pool_ok c p"
  shows "int (card (active (board_of p))) \<le> resolved_checkpoint_workers c"
    and "int (card (waiting (board_of p) \<union> active (board_of p))) + jp_slots p + int (jp_reserved p) = slot_capacity c"
proof -
  have "card (set (executing (jp_workers p))) \<le> length (jp_workers p)"
    using card_length executing_length order_trans by blast
  then show "int (card (active (board_of p))) \<le> resolved_checkpoint_workers c"
    using executing_running [OF assms] assms by (simp add: board_of_def pool_ok_def pool_counted_def)
  show "int (card (waiting (board_of p) \<union> active (board_of p))) + jp_slots p + int (jp_reserved p) = slot_capacity c"
    using assms by (simp add: board_of_def live_in_state [symmetric] pool_ok_def pool_counted_def)
qed

lemma pool_step_board:
  assumes "pool_step c p p'" and "pool_ok c p"
  shows "board_of p' = board_of p \<or> board_step c (board_of p) (board_of p')"
  using assms(1)
proof cases
  case (p_normal n a cls)
  have "jp_items p a = None" using next_fresh p_normal(4) assms(2) by (auto simp: pool_ok_def)
  then have f: "a \<notin> waiting (board_of p) \<union> active (board_of p) \<union> settled (board_of p)"
    by (simp add: board_of_def in_state_def)
  have r: "int (card (waiting (board_of p) \<union> active (board_of p))) < slot_capacity c"
    using active_bound(2) [OF assms(2)] assms(2) p_normal(3) by (simp add: pool_ok_def pool_counted_def)
  have "board_of p' = (board_of p)\<lparr>waiting := insert a (waiting (board_of p))\<rparr>"
    using f p_normal(1) in_state_eq [of p' p a FutPending cls] by (simp add: board_of_def)
  then show ?thesis using accept [OF _ f r] p_normal(2) by (simp add: board_of_def)
next
  case (p_urgent n a)
  have "jp_items p a = None" using next_fresh p_urgent(4) assms(2) by (auto simp: pool_ok_def)
  then have f: "a \<notin> waiting (board_of p) \<union> active (board_of p) \<union> settled (board_of p)"
    by (simp add: board_of_def in_state_def)
  have r: "int (card (waiting (board_of p) \<union> active (board_of p))) < slot_capacity c"
    using active_bound(2) [OF assms(2)] assms(2) p_urgent(3) by (simp add: pool_ok_def pool_counted_def)
  have "board_of p' = (board_of p)\<lparr>waiting := insert a (waiting (board_of p))\<rparr>"
    using f p_urgent(1) in_state_eq [of p' p a FutPending "''urgent''"] by (simp add: board_of_def)
  then show ?thesis using accept [OF _ f r] p_urgent(2) by (simp add: board_of_def)
next
  case (p_promote a f cls)
  then have "in_state p' P = in_state p P" for P by (auto simp: in_state_def)
  then show ?thesis using p_promote(1) by (simp add: board_of_def)
next
  case (p_cancel a cls)
  then have w: "a \<in> waiting (board_of p)" "a \<notin> active (board_of p)" by (auto simp: board_of_def in_state_def)
  then have "board_of p' = (board_of p)\<lparr>waiting := waiting (board_of p) - {a}, settled := insert a (settled (board_of p))\<rparr>"
    using p_cancel(1) in_state_eq [of p' p a FutCancelled cls] by (simp add: board_of_def)
  then show ?thesis using withdraw [OF w(1)] by simp
next
  case (p_run i a q f cls)
  have "f = FutPending" using pool_ok_taken [OF assms(2) p_run(4,5)] p_run(6) by blast
  then have w: "a \<in> waiting (board_of p)" "a \<notin> settled (board_of p)"
    using p_run(5) by (auto simp: board_of_def in_state_def)
  have "length (executing (jp_workers p)) < length (jp_workers p)" by (rule executing_idle [OF p_run(2,3)])
  then have r: "int (card (active (board_of p))) < resolved_checkpoint_workers c"
    using executing_running [OF assms(2)] card_length [of "executing (jp_workers p)"] assms(2)
    by (simp add: board_of_def pool_ok_def pool_counted_def)
  have "board_of p' = (board_of p)\<lparr>waiting := waiting (board_of p) - {a}, active := insert a (active (board_of p))\<rparr>"
    using w p_run(1) pool_take_same [OF p_run(4)] in_state_eq [of p' p a FutRunning cls] by (simp add: board_of_def)
  then show ?thesis using start [OF w(1) r] by simp
next
  case (p_skip i a q cls)
  note t = pool_take_same [OF p_skip(4)]
  have "a \<notin> waiting (board_of p)" "a \<notin> active (board_of p)" "a \<in> settled (board_of p)"
    using p_skip(5) by (auto simp: board_of_def in_state_def)
  then have "board_of p' = board_of p"
    using p_skip(1) t in_state_eq [of p' p a FutCancelledAndNotified cls] by (simp add: board_of_def insert_absorb)
  then show ?thesis by simp
next
  case (p_lost i a)
  then show ?thesis using pool_take_same [OF p_lost(3)] by (simp add: board_of_def in_state_def)
next
  case (p_complete i a f cls)
  have "a \<in> set (executing (jp_workers p))"
    using p_complete(2,3) nth_mem [OF p_complete(2)] by (force simp: executing_def)
  then have w: "a \<in> active (board_of p)" "a \<notin> waiting (board_of p)"
    using pool_heldD(4) [of c p a] assms(2)
    by (auto simp: board_of_def in_state_def is_running_def pool_ok_def split: option.splits)
  then have "board_of p' = (board_of p)\<lparr>active := active (board_of p) - {a}, settled := insert a (settled (board_of p))\<rparr>"
    using p_complete(1) in_state_eq [of p' p a FutFinished cls] by (simp add: board_of_def)
  then show ?thesis using settle [OF w(1)] by simp
next
  case p_close
  then have "board_of p' = (board_of p)\<lparr>accepting := False\<rparr>" by (simp add: board_of_def)
  then show ?thesis using close [of c "board_of p"] by simp
qed (simp_all add: board_of_def)

lemma init_pool_ok:
  assumes "executor_config_post_init c = Inr ()"
  shows "pool_ok c (pool_of (init_world c))"
proof -
  have n: "0 \<le> resolved_checkpoint_workers c" "0 \<le> slot_capacity c"
    using assms by (auto simp: executor_config_post_init_def below_one_def resolved_checkpoint_workers_def
        slot_capacity_def split: if_splits option.splits)
  have "executing (replicate k Idle) = []" for k by (induction k) (simp_all add: executing_def)
  then show ?thesis
    using n by (simp add: pool_ok_def pool_held_def pool_counted_def live_def init_world_def new_executor_def dom_def)
qed

interpretation exec_pool: simulation "init_world c" "exec_step c" "pool_of (init_world c)" "pool_step c" "\<lambda>_. True" pool_of
  for c
  by unfold_locales (simp_all add: exec_step_pool)

interpretation pool_board: simulation "pool_of (init_world c)" "pool_step c" "empty_board"
  "\<lambda>b b'. executor_config_post_init c = Inr () \<longrightarrow> board_step c b b'" "valid_pool c" board_of
  for c
proof unfold_locales
  show "valid_pool c (pool_of (init_world c))" by (simp add: valid_pool_def init_pool_ok)
  show "valid_pool c p \<Longrightarrow> pool_step c p p' \<Longrightarrow> valid_pool c p'" for p p'
    by (simp add: valid_pool_def pool_ok_step)
  show "board_of (pool_of (init_world c)) = empty_board"
    by (simp add: board_of_def in_state_def empty_board_def init_world_def new_executor_def)
  show "valid_pool c p \<Longrightarrow> pool_step c p p' \<Longrightarrow> board_of p' = board_of p
      \<or> (executor_config_post_init c = Inr () \<longrightarrow> board_step c (board_of p) (board_of p'))" for p p'
    using pool_step_board by (auto simp: valid_pool_def)
qed

lemma reachable_pool_ok:
  assumes "executor_config_post_init c = Inr ()" and "(exec_step c)\<^sup>*\<^sup>* (init_world c) w"
  shows "pool_ok c (pool_of w)"
  using pool_board.reachable_inv [OF exec_pool.reachable_refines [OF assms(2)]] assms(1) by (simp add: valid_pool_def)

section \<open>Waiting in the normal queue\<close>

text \<open>The position of an item, and how many more dequeues it can wait: each one takes an item from before it or
  uses up the streak of urgent items.\<close>

definition position :: "addr \<Rightarrow> addr list \<Rightarrow> nat" where
  "position a xs = length (takeWhile (\<lambda>x. x \<noteq> a) xs)"

definition wait_bound :: "executor_config \<Rightarrow> addr \<Rightarrow> job_pool \<Rightarrow> nat" where
  "wait_bound c a p =
     (if a \<in> set (jp_queue p)
      then position a (jp_queue p) * (nat (reactive_checkpoint_urgent_quota c) + 1)
           + nat (reactive_checkpoint_urgent_quota c - jp_streak p) + 1
      else 0)"

lemma position_Cons: "position a (x # xs) = (if x = a then 0 else Suc (position a xs))"
  by (simp add: position_def)

lemma position_append: "a \<in> set xs \<Longrightarrow> position a (xs @ ys) = position a xs"
  by (induction xs) (auto simp: position_def)

lemma position_remove1: "position a (remove1 b xs) \<le> position a xs" if "a \<noteq> b"
  using that by (induction xs) (auto simp: position_def)

lemma position_nth: "distinct xs \<Longrightarrow> k < length xs \<Longrightarrow> position (xs ! k) xs = k"
  by (induction xs arbitrary: k) (auto simp: position_def nth_Cons split: nat.splits)

lemma wait_bound_take:
  assumes "pool_take c p b q" and "pool_ok c p"
  shows "wait_bound c a q \<le> wait_bound c a p - 1"
proof -
  have d: "distinct (jp_queue p)" and s: "0 \<le> jp_streak p"
    using assms(2) by (simp_all add: pool_ok_def pool_held_def pool_counted_def)
  from assms(1) show ?thesis
    using d s by cases (auto simp: wait_bound_def position_Cons algebra_simps nat_diff_distrib)
qed

lemma wait_bound_step:
  assumes "pool_step c p p'" and "pool_ok c p" and "a < jp_next p"
  shows "wait_bound c a p' \<le> wait_bound c a p \<and> a < jp_next p'"
  using assms(1)
proof cases
  case (p_normal n b cls)
  then show ?thesis using assms(3) by (auto simp: wait_bound_def position_append)
next
  case (p_promote b f cls)
  have "distinct (jp_queue p)" using assms(2) by (simp add: pool_ok_def pool_held_def)
  then show ?thesis
    using p_promote(1) assms(3) position_remove1 [of a b "jp_queue p"] by (cases "a = b") (auto simp: wait_bound_def intro!: add_mono mult_le_mono1)
next
  case (p_run i b q f cls)
  have "wait_bound c a p' = wait_bound c a q" by (simp add: p_run(1) wait_bound_def)
  then show ?thesis
    using wait_bound_take [OF p_run(4) assms(2), of a] assms(3) pool_take_same [OF p_run(4)] p_run(1) by simp
next
  case (p_skip i b q cls)
  have "wait_bound c a p' = wait_bound c a q" by (simp add: p_skip(1) wait_bound_def)
  then show ?thesis
    using wait_bound_take [OF p_skip(4) assms(2), of a] assms(3) pool_take_same [OF p_skip(4)] p_skip(1) by simp
next
  case (p_lost i b)
  then show ?thesis
    using wait_bound_take [OF p_lost(3) assms(2), of a] assms(3) pool_take_same [OF p_lost(3)] by simp
qed (use assms(3) in \<open>simp_all add: wait_bound_def\<close>)

text \<open>One turn of a worker that finds an item, and runs of the executor with the number of such turns.\<close>

definition takes_item :: "executor_config \<Rightarrow> exec_world \<Rightarrow> exec_world \<Rightarrow> bool" where
  "takes_item c w w' = (\<exists>i a s now b s'. i < length (xw_workers w) \<and> xw_workers w ! i = Idle
     \<and> dequeue_checkpoint_item c (xw_exec w) = (Some a, s) \<and> start_item now a s = (b, s')
     \<and> w' = w\<lparr>xw_exec := s', xw_workers := (if b then (xw_workers w)[i := Executing a] else xw_workers w)\<rparr>)"

inductive exec_run :: "executor_config \<Rightarrow> exec_world \<Rightarrow> nat \<Rightarrow> exec_world \<Rightarrow> bool" for c w where
  run_refl: "exec_run c w 0 w"
| run_step: "exec_run c w n w1 \<Longrightarrow> exec_step c w1 w2 \<Longrightarrow> exec_run c w n w2"
| run_take: "exec_run c w n w1 \<Longrightarrow> takes_item c w1 w2 \<Longrightarrow> exec_run c w (Suc n) w2"

lemma takes_item_step: "takes_item c w w' \<Longrightarrow> exec_step c w w'"
  unfolding takes_item_def
proof (elim exE conjE)
  fix i a s now b s'
  assume "i < length (xw_workers w)" "xw_workers w ! i = Idle" "dequeue_checkpoint_item c (xw_exec w) = (Some a, s)"
    "start_item now a s = (b, s')"
    and w': "w' = w\<lparr>xw_exec := s', xw_workers := (if b then (xw_workers w)[i := Executing a] else xw_workers w)\<rparr>"
  then show "exec_step c w w'"
    using exec_step.run [of i w c a s now s'] exec_step.skip [of i w c a s now s'] by (cases b) simp_all
qed

lemma takes_item_wait:
  assumes "takes_item c w w'" and "pool_ok c (pool_of w)"
  shows "wait_bound c a (pool_of w') \<le> wait_bound c a (pool_of w) - 1"
  using assms(1) unfolding takes_item_def
proof (elim exE conjE)
  fix i b s now t s'
  assume d: "dequeue_checkpoint_item c (xw_exec w) = (Some b, s)" and st: "start_item now b s = (t, s')"
    and w': "w' = w\<lparr>xw_exec := s', xw_workers := (if t then (xw_workers w)[i := Executing b] else xw_workers w)\<rparr>"
  have "ex_queue s' = ex_queue s" "ex_streak s' = ex_streak s"
    using st by (auto simp: start_item_def finish_checkpoint_item_def set_item_def record_job_def split: option.splits if_splits)
  then have "wait_bound c a (pool_of w') = wait_bound c a (pool_of (w\<lparr>xw_exec := s\<rparr>))"
    by (simp add: w' wait_bound_def)
  then show ?thesis using wait_bound_take [OF dequeue_take(1) [OF d] assms(2), of a] by simp
qed

lemma exec_run_wait:
  assumes "exec_run c w n w'" and "executor_config_post_init c = Inr ()" and "(exec_step c)\<^sup>*\<^sup>* (init_world c) w"
    and "a < ex_next (xw_exec w)"
  shows "(exec_step c)\<^sup>*\<^sup>* (init_world c) w' \<and> a < ex_next (xw_exec w')
     \<and> wait_bound c a (pool_of w') \<le> wait_bound c a (pool_of w) - n"
  using assms(1)
proof induction
  case run_refl
  then show ?case using assms(3,4) by simp
next
  case (run_step n w1 w2)
  have "pool_ok c (pool_of w1)" using reachable_pool_ok [OF assms(2)] run_step.IH by blast
  then have "wait_bound c a (pool_of w2) \<le> wait_bound c a (pool_of w1) \<and> a < jp_next (pool_of w2)"
    using exec_step_pool [OF run_step.hyps(2)] wait_bound_step run_step.IH by (metis order_refl pool_of_fields(2))
  then show ?case using run_step by (auto intro: rtranclp.rtrancl_into_rtrancl)
next
  case (run_take n w1 w2)
  have ok: "pool_ok c (pool_of w1)" using reachable_pool_ok [OF assms(2)] run_take.IH by blast
  have st: "exec_step c w1 w2" by (rule takes_item_step [OF run_take.hyps(2)])
  have "a < jp_next (pool_of w2)"
    using exec_step_pool [OF st] wait_bound_step [OF _ ok] run_take.IH by (metis pool_of_fields(2))
  then show ?case
    using takes_item_wait [OF run_take.hyps(2) ok, of a] run_take.IH st by (auto intro: rtranclp.rtrancl_into_rtrancl)
qed

section \<open>Retries\<close>

text \<open>The world after some runs of an action, what the last run amounts to, and what a retry loop of at most
  \<open>n\<close> runs is expected to do.\<close>

fun run_world :: "('w, 'r) act \<Rightarrow> nat \<Rightarrow> 'w \<Rightarrow> 'w" where
  "run_world run 0 w = w"
| "run_world run (Suc k) w = run_world run k (snd (run w))"

definition outcome :: "('w, 'r) act \<Rightarrow> (nat \<Rightarrow> py_error \<Rightarrow> 'r) \<Rightarrow> nat \<Rightarrow> 'w \<Rightarrow> 'r" where
  "outcome run fail i w = (case fst (run (run_world run i w)) of Inr r \<Rightarrow> r | Inl e \<Rightarrow> fail i e)"

definition stops :: "('w, 'r) act \<Rightarrow> ('r \<Rightarrow> bool) \<Rightarrow> nat \<Rightarrow> 'w \<Rightarrow> bool" where
  "stops run stop i w = (case fst (run (run_world run i w)) of Inr r \<Rightarrow> stop r | Inl _ \<Rightarrow> False)"

definition retried ::
  "('w, 'r) act \<Rightarrow> (nat \<Rightarrow> py_error \<Rightarrow> 'r) \<Rightarrow> ('r \<Rightarrow> bool) \<Rightarrow> nat \<Rightarrow> nat \<Rightarrow> 'r \<Rightarrow> 'w \<Rightarrow> 'w \<Rightarrow> bool" where
  "retried run fail stop n k r w w' =
     (1 \<le> k \<and> k \<le> n \<and> w' = run_world run k w \<and> r = outcome run fail (k - 1) w
      \<and> (\<forall>i < k - 1. \<not> stops run stop i w) \<and> (k < n \<longrightarrow> stops run stop (k - 1) w))"

lemma retried_Suc:
  assumes "retried run (\<lambda>j. fail (Suc j)) stop n k r (snd (run w)) w'" and "\<not> stops run stop 0 w"
  shows "retried run fail stop (Suc n) (Suc k) r w w'"
proof -
  obtain m where k: "k = Suc m" using assms(1) by (cases k) (simp_all add: retried_def)
  have "outcome run fail (Suc m) w = outcome run (\<lambda>j. fail (Suc j)) m (snd (run w))"
    and st: "stops run stop (Suc i) w = stops run stop i (snd (run w))" for i
    by (simp_all add: outcome_def stops_def)
  moreover have "\<forall>i < Suc m. \<not> stops run stop i w"
    using assms k st by (auto simp: retried_def less_Suc_eq_0_disj)
  ultimately show ?thesis using assms(1) k by (simp add: retried_def)
qed

lemma attempt_loop_retried:
  assumes "attempt_loop run (\<lambda>j. fail j) stop i (Suc n) res w = (k, out, w')"
  shows "\<exists>r. out = Some r \<and> retried run (\<lambda>j. fail (i + j)) stop (Suc n) k r w w'"
  using assms
proof (induction n arbitrary: i res w k out w')
  case 0
  then show ?case
    by (auto simp: retried_def outcome_def stops_def split: prod.splits sum.splits if_splits)
next
  case (Suc n)
  obtain x w1 where run: "run w = (x, w1)" by (metis surj_pair)
  show ?case
  proof (cases "stops run stop 0 w")
    case True
    then show ?thesis
      using Suc.prems run by (auto simp: retried_def outcome_def stops_def split: sum.splits)
  next
    case False
    let ?last = "Some (case x of Inr r \<Rightarrow> r | Inl e \<Rightarrow> fail i e)"
    obtain k' out' w2 where l: "attempt_loop run fail stop (Suc i) (Suc n) ?last w1 = (k', out', w2)"
      by (metis prod_cases3)
    then have "k = Suc k' \<and> out = out' \<and> w' = w2"
      using Suc.prems attempt_loop.simps(2) [of run fail stop i "Suc n" res w] run False
      by (cases x) (auto simp: stops_def simp del: attempt_loop.simps)
    then show ?thesis using Suc.IH [OF l] retried_Suc [of run "\<lambda>j. fail (i + j)" stop "Suc n" k' _ w w2] run False by auto
  qed
qed

lemma get_set_record: "get_job_record (set_record r rs) j = (if j = rec_job_id r then Some r else get_job_record rs j)"
  by (auto simp: get_job_record_def set_record_def update_conv')

section \<open>Sample runs\<close>

text \<open>A submission without interference, and a turn of a worker, as functions on the world.\<close>

definition submitted :: "executor_config \<Rightarrow> checkpoint_job \<Rightarrow> exec_world \<Rightarrow> exec_world" where
  "submitted c job w = w\<lparr>xw_exec := snd (submit_enqueue c job (snd (submit_reserve 0 job (xw_exec w))))\<rparr>"

definition turn :: "executor_config \<Rightarrow> nat \<Rightarrow> exec_world \<Rightarrow> exec_world" where
  "turn c i w =
     (case dequeue_checkpoint_item c (xw_exec w) of
        (None, _) \<Rightarrow> w
      | (Some a, s) \<Rightarrow>
          (case start_item 0 a s of (b, s') \<Rightarrow>
             w\<lparr>xw_exec := s', xw_workers := (if b then (xw_workers w)[i := Executing a] else xw_workers w)\<rparr>))"

lemma submitted_reachable:
  assumes "\<not> ex_shutdown (xw_exec w)" and "0 < ex_slots (xw_exec w)"
  shows "(exec_step c)\<^sup>*\<^sup>* w (submitted c job w)"
proof -
  obtain s where s: "submit_reserve 0 job (xw_exec w) = (Inr (), s)"
    using assms by (auto simp: submit_reserve_def record_job_def Let_def)
  obtain r s' where s': "submit_enqueue c job s = (r, s')" by (metis surj_pair)
  let ?w = "w\<lparr>xw_exec := s, xw_submitting := job # xw_submitting w\<rparr>"
  have "exec_step c w ?w" by (rule exec_step.reserve [OF s])
  moreover have "exec_step c ?w (submitted c job w)"
    using exec_step.enqueue [of job ?w c r s'] s s' by (simp add: submitted_def)
  ultimately show ?thesis by simp
qed

lemma turn_takes:
  assumes "i < length (xw_workers w)" "xw_workers w ! i = Idle" "fst (dequeue_checkpoint_item c (xw_exec w)) \<noteq> None"
  shows "takes_item c w (turn c i w)"
proof -
  obtain a s where d: "dequeue_checkpoint_item c (xw_exec w) = (Some a, s)"
    using assms(3) by (cases "dequeue_checkpoint_item c (xw_exec w)") auto
  obtain b s' where st: "start_item 0 a s = (b, s')" by (metis surj_pair)
  show ?thesis unfolding takes_item_def
    by (rule exI [of _ i], rule exI [of _ a], rule exI [of _ s], rule exI [of _ 0], rule exI [of _ b], rule exI [of _ s'])
      (simp add: assms(1,2) d st turn_def)
qed

definition demo_executor_config :: executor_config where
  "demo_executor_config = \<lparr>max_workers = 2, checkpoint_workers = None, restore_workers = None,
     coordination_workers = None, composite_step_workers = None, max_checkpoint_queue_size = 1,
     checkpoint_scheduling_policy = ''reactive'', reactive_checkpoint_urgent_quota = 1, max_retries = 1,
     retry_backoff_seconds = 1 / 20\<rparr>"

definition demo_second_job :: checkpoint_job where
  "demo_second_job = demo_job\<lparr>job_id := ''k''\<rparr>"

definition demo_exec_world :: exec_world where
  "demo_exec_world = submitted demo_executor_config demo_second_job
     (submitted demo_executor_config demo_job (init_world demo_executor_config))"

lemma demo_config_valid: "executor_config_post_init demo_executor_config = Inr ()"
  by (simp add: executor_config_post_init_def demo_executor_config_def below_one_def)

lemma demo_exec_state:
  "ex_queue (xw_exec demo_exec_world) = [0, 1]" "ex_urgent (xw_exec demo_exec_world) = []"
  "ex_slots (xw_exec demo_exec_world) = 1" "ex_shutdown (xw_exec demo_exec_world) = False"
  "xw_workers demo_exec_world = [Idle, Idle]"
  by code_simp+

lemma demo_exec_reachable: "(exec_step demo_executor_config)\<^sup>*\<^sup>* (init_world demo_executor_config) demo_exec_world"
proof -
  let ?c = demo_executor_config and ?w = "submitted demo_executor_config demo_job (init_world demo_executor_config)"
  have "\<not> ex_shutdown (xw_exec (init_world ?c))" "0 < ex_slots (xw_exec (init_world ?c))" by code_simp+
  moreover have "\<not> ex_shutdown (xw_exec ?w)" "0 < ex_slots (xw_exec ?w)" by code_simp+
  ultimately show ?thesis
    using submitted_reachable [of "init_world ?c" ?c demo_job] submitted_reachable [of ?w ?c demo_second_job]
    by (simp add: demo_exec_world_def)
qed

section \<open>Properties\<close>

text \<open>C9. The executor never loses a job and never holds one twice.  In every reachable state, whatever the
  callers, cancellations and workers do: an item is in at most one queue or worker; an item that is not done is
  in one of them, and a worker's item is running; the urgent queue holds exactly the queued items marked urgent
  and is unused under the FIFO policy; and the semaphore counts exactly the submissions in progress and the jobs
  not done, so that their number never exceeds the workers plus the queue size.\<close>

theorem executor_jobs_accounted:
  assumes "executor_config_post_init c = Inr ()" and "(exec_step c)\<^sup>*\<^sup>* (init_world c) w" and "s = xw_exec w"
  shows "distinct (ex_queue s @ ex_urgent s @ executing (xw_workers w))
     \<and> (\<forall>a it. ex_heap s a = Some it \<longrightarrow>
          (\<not> future_done (qi_future it) \<longrightarrow> a \<in> set (ex_queue s @ ex_urgent s @ executing (xw_workers w)))
        \<and> (a \<in> set (executing (xw_workers w)) \<longrightarrow> qi_future it = FutRunning)
        \<and> (a \<in> set (ex_queue s) \<longrightarrow> qi_class it \<noteq> ''urgent'')
        \<and> (a \<in> set (ex_urgent s) \<longrightarrow> qi_class it = ''urgent''))
     \<and> (checkpoint_scheduling_policy c = ''fifo'' \<longrightarrow> ex_urgent s = [])
     \<and> 0 \<le> ex_slots s
     \<and> ex_slots s + int (length (xw_submitting w))
          + int (card {a. \<exists>it. ex_heap s a = Some it \<and> \<not> future_done (qi_future it)})
        = resolved_checkpoint_workers c + max_checkpoint_queue_size c"
proof -
  let ?p = "pool_of w"
  have ok: "pool_held c ?p" "pool_counted c ?p" using reachable_pool_ok [OF assms(1,2)] by (simp_all add: pool_ok_def)
  have live: "live ?p = {a. \<exists>it. ex_heap s a = Some it \<and> \<not> future_done (qi_future it)}"
    by (auto simp: live_def assms(3))
  note h = pool_heldD [OF ok(1)]
  have "\<forall>a it. ex_heap s a = Some it \<longrightarrow>
          (\<not> future_done (qi_future it) \<longrightarrow> a \<in> set (ex_queue s @ ex_urgent s @ executing (xw_workers w)))
        \<and> (a \<in> set (executing (xw_workers w)) \<longrightarrow> qi_future it = FutRunning)
        \<and> (a \<in> set (ex_queue s) \<longrightarrow> qi_class it \<noteq> ''urgent'')
        \<and> (a \<in> set (ex_urgent s) \<longrightarrow> qi_class it = ''urgent'')"
    using h(2-5) by (fastforce simp: live assms(3) queued_in_def is_running_def)
  then show ?thesis
    using h(1,6) ok(2) live by (simp add: assms(3) pool_counted_def slot_capacity_def)
qed

theorem executor_jobs_accounted_witness:
  "distinct (ex_queue (xw_exec demo_exec_world) @ ex_urgent (xw_exec demo_exec_world) @ executing [Idle, Idle])
     \<and> ex_slots (xw_exec demo_exec_world) + int (length (xw_submitting demo_exec_world))
         + int (card {a. \<exists>it. ex_heap (xw_exec demo_exec_world) a = Some it \<and> \<not> future_done (qi_future it)}) = 3"
proof -
  have "resolved_checkpoint_workers demo_executor_config + max_checkpoint_queue_size demo_executor_config = 3"
    by (simp add: resolved_checkpoint_workers_def demo_executor_config_def)
  then show ?thesis
    using executor_jobs_accounted [OF demo_config_valid demo_exec_reachable refl] by (simp add: demo_exec_state)
qed

text \<open>C8. The executor implements its contract.  Every reachable state, seen as the sets of waiting, active and
  settled jobs, is reached by the steps of the contract: accept while open and with room, start on a free worker,
  withdraw, settle once, close.  So there are never more active jobs than workers nor more outstanding jobs than
  slots, and once every worker has left after a shutdown, every job that was accepted is settled.\<close>

theorem executor_implements_contract:
  assumes "executor_config_post_init c = Inr ()" and "(exec_step c)\<^sup>*\<^sup>* (init_world c) w"
    and "b = board_of (pool_of w)"
  shows "(board_step c)\<^sup>*\<^sup>* empty_board b
     \<and> int (card (active b)) \<le> resolved_checkpoint_workers c
     \<and> int (card (waiting b \<union> active b)) \<le> slot_capacity c
     \<and> (set (xw_workers w) = {Exited} \<longrightarrow> \<not> accepting b \<and> waiting b = {} \<and> active b = {})"
proof -
  have ok: "pool_ok c (pool_of w)" by (rule reachable_pool_ok [OF assms(1,2)])
  have "(board_step c)\<^sup>*\<^sup>* empty_board b"
    using pool_board.reachable_refines [OF exec_pool.reachable_refines [OF assms(2)]] assms(1,3) by simp
  moreover have "\<not> accepting b \<and> waiting b = {} \<and> active b = {}" if "set (xw_workers w) = {Exited}"
  proof -
    have h: "pool_held c (pool_of w)" using ok by (simp add: pool_ok_def)
    have q: "jp_closed (pool_of w)" "jp_queue (pool_of w) = []" "jp_urgent (pool_of w) = []"
      using pool_heldD(7) [OF h] that by simp_all
    have "executing (xw_workers w) = []" using that by (auto simp: executing_def held_def)
    then have "live (pool_of w) = {}" using pool_heldD(5) [OF h] q by auto
    then show ?thesis using q(1) by (simp add: assms(3) board_of_def live_in_state)
  qed
  ultimately show ?thesis
    using active_bound [OF ok] ok by (auto simp: assms(3) pool_ok_def pool_counted_def)
qed

theorem executor_implements_contract_witness:
  "(board_step demo_executor_config)\<^sup>*\<^sup>* empty_board (board_of (pool_of demo_exec_world))
     \<and> int (card (active (board_of (pool_of demo_exec_world)))) \<le> 2"
proof -
  have "resolved_checkpoint_workers demo_executor_config = 2"
    by (simp add: resolved_checkpoint_workers_def demo_executor_config_def)
  then show ?thesis using executor_implements_contract [OF demo_config_valid demo_exec_reachable refl] by simp
qed

text \<open>C31. No job starves.  Whatever is submitted, promoted or cancelled in the meantime, an item at position \<open>k\<close> of
  the normal queue has left it after \<open>(k + 1) * (quota + 1)\<close> further dequeues: urgent jobs overtake each item before
  it, and it, at most \<open>quota\<close> times.\<close>

theorem normal_queue_wait_bounded:
  assumes "executor_config_post_init c = Inr ()" and "(exec_step c)\<^sup>*\<^sup>* (init_world c) w"
    and "k < length (ex_queue (xw_exec w))" and "exec_run c w n w'"
    and "(k + 1) * (nat (reactive_checkpoint_urgent_quota c) + 1) \<le> n"
  shows "ex_queue (xw_exec w) ! k \<notin> set (ex_queue (xw_exec w'))"
proof -
  let ?a = "ex_queue (xw_exec w) ! k" and ?q = "nat (reactive_checkpoint_urgent_quota c)"
  have ok: "pool_held c (pool_of w)" "pool_counted c (pool_of w)"
    using reachable_pool_ok [OF assms(1,2)] by (simp_all add: pool_ok_def)
  have a: "?a \<in> set (ex_queue (xw_exec w))" using assms(3) by simp
  then have "?a \<in> dom (jp_items (pool_of w))"
    using pool_heldD(2) [OF ok(1), of ?a] by (auto simp: queued_in_def split: option.splits)
  then have "?a < ex_next (xw_exec w)" using ok(2) by (auto simp: pool_counted_def)
  then have "wait_bound c ?a (pool_of w') \<le> wait_bound c ?a (pool_of w) - n"
    using exec_run_wait [OF assms(4,1,2)] by blast
  moreover have "nat (reactive_checkpoint_urgent_quota c - ex_streak (xw_exec w)) \<le> ?q"
    using ok(2) by (intro nat_mono) (simp add: pool_counted_def)
  then have "wait_bound c ?a (pool_of w) \<le> k * (?q + 1) + ?q + 1"
    using position_nth [OF _ assms(3)] pool_heldD(1) [OF ok(1)] a by (simp add: wait_bound_def)
  ultimately have "wait_bound c ?a (pool_of w') = 0" using assms(5) by (simp add: algebra_simps)
  then show ?thesis by (simp add: wait_bound_def split: if_splits)
qed

theorem normal_queue_wait_bounded_witness:
  "0 \<notin> set (ex_queue (xw_exec (turn demo_executor_config 1 (turn demo_executor_config 0 demo_exec_world))))"
proof -
  let ?c = demo_executor_config and ?w = demo_exec_world
  have "takes_item ?c ?w (turn ?c 0 ?w)" by (rule turn_takes; code_simp)
  moreover have "takes_item ?c (turn ?c 0 ?w) (turn ?c 1 (turn ?c 0 ?w))" by (rule turn_takes; code_simp)
  ultimately have "exec_run ?c ?w (Suc (Suc 0)) (turn ?c 1 (turn ?c 0 ?w))"
    by (blast intro: exec_run.intros)
  then show ?thesis
    using normal_queue_wait_bounded [OF demo_config_valid demo_exec_reachable, of 0 2 "turn ?c 1 (turn ?c 0 ?w)"]
    by (simp add: demo_exec_state numeral_2_eq_2) (simp add: demo_executor_config_def)
qed

text \<open>C32. A job is retried exactly as configured.  Running a checkpoint or a restore job always yields a result,
  that of its last run (an exception counts as a failed run); it is run at most \<open>max_retries + 1\<close> times and not
  again after a run that settles it (success, or for a checkpoint a rejection by the guard), and it stops early
  for no other reason; the job's record holds that result, and the records of other jobs are untouched.\<close>

theorem jobs_retried_as_configured:
  assumes "executor_config_post_init c = Inr ()" and "n = nat (max_retries c + 1)"
    and "execute_checkpoint c cw exc fresh started now job (rs, w) = (k, out, (rs', w'))"
    and "execute_restore c rw exc started now rjob (rs, v) = (k2, out2, (rs2, v'))"
  shows "(\<exists>r. out = Some r
            \<and> retried (cw job) (checkpoint_crashed exc fresh started now job)
                (\<lambda>r. cres_status r = SUCCEEDED \<or> cres_failure_code r = VALIDATION_ERROR) n k r w w'
            \<and> (\<forall>j. get_job_record rs' j = (if j = job_id job then Some (checkpoint_record job started r) else get_job_record rs j)))
       \<and> (\<exists>r. out2 = Some r
            \<and> retried (rw rjob) (restore_crashed exc started now rjob) (\<lambda>r. rres_status r = SUCCEEDED) n k2 r v v'
            \<and> (\<forall>j. get_job_record rs2 j = (if j = rjob_id rjob then Some (restore_record rjob started r) else get_job_record rs j)))"
proof -
  obtain m where m: "nat (max_retries c + 1) = Suc m"
    using assms(1) by (cases "nat (max_retries c + 1)") (auto simp: executor_config_post_init_def split: if_splits)
  obtain k1 o1 w1 where a: "attempt_loop (cw job) (checkpoint_crashed exc fresh started now job) checkpoint_settled 0 (Suc m) None w
      = (k1, o1, w1)" by (metis prod_cases3)
  obtain k3 o3 v1 where b: "attempt_loop (rw rjob) (restore_crashed exc started now rjob) (\<lambda>r. rres_status r = SUCCEEDED) 0 (Suc m) None v
      = (k3, o3, v1)" by (metis prod_cases3)
  have st: "checkpoint_settled = (\<lambda>r. cres_status r = SUCCEEDED \<or> cres_failure_code r = VALIDATION_ERROR)"
    by (simp add: checkpoint_settled_def fun_eq_iff)
  note facts = get_set_record checkpoint_record_def restore_record_def running_record_def pending_record_def Let_def m assms(2)
  show ?thesis
  proof
    show "\<exists>r. out = Some r
            \<and> retried (cw job) (checkpoint_crashed exc fresh started now job)
                (\<lambda>r. cres_status r = SUCCEEDED \<or> cres_failure_code r = VALIDATION_ERROR) n k r w w'
            \<and> (\<forall>j. get_job_record rs' j = (if j = job_id job then Some (checkpoint_record job started r) else get_job_record rs j))"
      using attempt_loop_retried [OF a] assms(3) a st
      by (auto simp: execute_checkpoint_def facts simp del: attempt_loop.simps)
    show "\<exists>r. out2 = Some r
            \<and> retried (rw rjob) (restore_crashed exc started now rjob) (\<lambda>r. rres_status r = SUCCEEDED) n k2 r v v'
            \<and> (\<forall>j. get_job_record rs2 j = (if j = rjob_id rjob then Some (restore_record rjob started r) else get_job_record rs j))"
      using attempt_loop_retried [OF b] assms(4) b
      by (auto simp: execute_restore_def facts simp del: attempt_loop.simps)
  qed
qed

definition demo_checkpoint_worker :: "checkpoint_job \<Rightarrow> (nat, checkpoint_result) act" where
  "demo_checkpoint_worker job n =
     (if n = 0 then (Inl RuntimeError, 1)
      else (Inr (checkpoint_failed job ''ck'' 0 2 VALIDATION_ERROR None []), n + 1))"

theorem jobs_retried_as_configured_witness:
  "\<exists>r. retried (demo_checkpoint_worker demo_job) (checkpoint_crashed (\<lambda>_. ''boom'') (\<lambda>_. ''x'') 0 (\<lambda>_. 1) demo_job)
          (\<lambda>r. cres_status r = SUCCEEDED \<or> cres_failure_code r = VALIDATION_ERROR) 2 2 r 0 2"
proof -
  let ?c = demo_executor_config and ?exc = "\<lambda>_ :: py_error. ''boom''"
  let ?rjob = "\<lparr>rjob_id = ''r'', rjob_sandbox_id = ''sb1'', rjob_checkpoint_id = ''ck'', rjob_requested_at = 0,
      rjob_reason = ''manual'', rjob_metadata = Map.empty\<rparr>"
  have n: "nat (max_retries ?c + 1) = Suc (Suc 0)" by (simp add: demo_executor_config_def)
  obtain rs' where c: "execute_checkpoint ?c demo_checkpoint_worker ?exc (\<lambda>_. ''x'') 0 (\<lambda>_. 1) demo_job ([], 0)
      = (2, Some (checkpoint_failed demo_job ''ck'' 0 2 VALIDATION_ERROR None []), (rs', 2))"
    by (auto simp: execute_checkpoint_def n demo_checkpoint_worker_def checkpoint_settled_def checkpoint_failed_def Let_def)
  obtain k2 out2 rs2 v' where r: "execute_restore ?c (\<lambda>_. act_raise OSError) ?exc 0 (\<lambda>_. 1) ?rjob ([], ()) = (k2, out2, (rs2, v'))"
    by (metis prod_cases3 surj_pair)
  show ?thesis
    using jobs_retried_as_configured [OF demo_config_valid refl c r] n by (auto simp: numeral_2_eq_2)
qed

text \<open>A shutdown between the two sections of a submission takes the job back but leaves its record pending, so
  that the sandbox counts as having an active checkpoint for good.\<close>

lemma shutdown_race_leaves_pending:
  assumes "submit_reserve now job s = (Inr (), s1)" and "submit_enqueue c job (shutdown s1) = (r, s2)"
  shows "r = Inl RuntimeError \<and> has_active_checkpoint (ex_records s2) (job_sandbox_id job)"
proof -
  let ?rec = "pending_record CHECKPOINT_JOB (job_id job) (job_sandbox_id job) None now"
  have s1: "ex_records s1 = set_record ?rec (ex_records s)"
    using assms(1) by (auto simp: submit_reserve_def record_job_def Let_def split: if_splits)
  have "r = Inl RuntimeError" "ex_records s2 = ex_records s1"
    using assms(2) by (auto simp: submit_enqueue_def shutdown_def release_slot_def finish_checkpoint_item_def
        unregister_request_def Let_def split: option.splits if_splits)
  moreover have "(job_id job, ?rec) \<in> set (set_record ?rec (ex_records s))"
    using get_set_record [of ?rec "ex_records s" "job_id job"]
    by (simp add: get_job_record_def map_of_SomeD pending_record_def)
  ultimately show ?thesis
    by (auto simp: s1 has_active_checkpoint_def list_ex_iff pending_record_def intro!: bexI)
qed

end
