(* ===== verification/Text_Merge.thy ===== *)
theory Text_Merge
  imports Crab_Prelude "HOL-Library.Product_Lexorder"
begin

text \<open>
  The line-based three-way merge of \<^verbatim>\<open>crab/textmerge.py\<close>, with what it uses of Python: \<open>str.splitlines\<close> and
  \<open>difflib.SequenceMatcher\<close> without junk.  The longest match is modelled by its documented result: the longest
  common block, of those the first in the base and of those the first in the other text.  Characters are code
  points below 256, so the line boundaries U+2028 and U+2029 do not occur.
\<close>

section \<open>Lines\<close>

definition line_break :: "char \<Rightarrow> bool" where
  "line_break c = (let n = (of_char c :: nat) in n \<in> {10, 11, 12, 13, 28, 29, 30, 133})"

text \<open>\<open>s.splitlines(keepends=True)\<close>.\<close>

fun splitlines :: "string \<Rightarrow> string list" where
  "splitlines [] = []"
| "splitlines [c] = [[c]]"
| "splitlines (c # d # cs) =
     (if c = CHR 0x0D \<and> d = CHR 0x0A then [c, d] # splitlines cs
      else if line_break c then [c] # splitlines (d # cs)
      else case splitlines (d # cs) of [] \<Rightarrow> [[c]] | l # ls \<Rightarrow> (c # l) # ls)"

section \<open>Matching blocks\<close>

fun common_prefix :: "'a list \<Rightarrow> 'a list \<Rightarrow> nat" where
  "common_prefix (x # xs) (y # ys) = (if x = y then Suc (common_prefix xs ys) else 0)"
| "common_prefix _ _ = 0"

definition match_length :: "'a list \<Rightarrow> 'a list \<Rightarrow> nat \<Rightarrow> nat \<Rightarrow> nat \<Rightarrow> nat \<Rightarrow> nat" where
  "match_length a b ahi bhi i j = min (common_prefix (drop i a) (drop j b)) (min (ahi - i) (bhi - j))"

text \<open>\<open>find_longest_match(alo, ahi, blo, bhi)\<close>.\<close>

definition better_match :: "'a list \<Rightarrow> 'a list \<Rightarrow> nat \<Rightarrow> nat \<Rightarrow> nat \<times> nat \<times> nat \<Rightarrow> nat \<times> nat \<Rightarrow> nat \<times> nat \<times> nat" where
  "better_match a b ahi bhi best ij =
     (case best of (i, j, k) \<Rightarrow> (case ij of (i', j') \<Rightarrow>
        let k' = match_length a b ahi bhi i' j' in if k < k' then (i', j', k') else (i, j, k)))"

definition find_longest_match :: "'a list \<Rightarrow> 'a list \<Rightarrow> nat \<Rightarrow> nat \<Rightarrow> nat \<Rightarrow> nat \<Rightarrow> nat \<times> nat \<times> nat" where
  "find_longest_match a b alo ahi blo bhi =
     fold (\<lambda>ij best. better_match a b ahi bhi best ij) (List.product [alo..<ahi] [blo..<bhi]) (alo, blo, 0)"

lemma match_length_bounds: "match_length a b ahi bhi i j \<le> ahi - i" "match_length a b ahi bhi i j \<le> bhi - j"
  by (simp_all add: match_length_def)

lemma longest_match_inv:
  assumes "find_longest_match a b alo ahi blo bhi = (i, j, k)"
  shows "k = 0 \<or> alo \<le> i \<and> i < ahi \<and> blo \<le> j \<and> j < bhi \<and> k = match_length a b ahi bhi i j"
proof -
  let ?P = "\<lambda>(i, j, k). k = 0 \<or> alo \<le> i \<and> i < ahi \<and> blo \<le> j \<and> j < bhi \<and> k = match_length a b ahi bhi i j"
  have "?P (fold (\<lambda>ij best. better_match a b ahi bhi best ij) xs best)"
    if "set xs \<subseteq> {alo..<ahi} \<times> {blo..<bhi}" and "?P best" for xs best
    using that
  proof (induction xs arbitrary: best)
    case (Cons x xs)
    then have "?P (better_match a b ahi bhi best x)" by (auto simp: better_match_def Let_def split: prod.splits if_splits)
    then show ?case using Cons by simp
  qed simp
  from this [of "List.product [alo..<ahi] [blo..<bhi]" "(alo, blo, 0)"] show ?thesis
    using assms by (auto simp: find_longest_match_def)
qed

function matching :: "'a list \<Rightarrow> 'a list \<Rightarrow> nat \<Rightarrow> nat \<Rightarrow> nat \<Rightarrow> nat \<Rightarrow> (nat \<times> nat \<times> nat) list" where
  "matching a b alo ahi blo bhi =
     (case find_longest_match a b alo ahi blo bhi of (i, j, k) \<Rightarrow>
        if k = 0 then []
        else matching a b alo i blo j @ (i, j, k) # matching a b (i + k) ahi (j + k) bhi)"
  by auto
termination
  by (relation "measure (\<lambda>(a, b, alo, ahi, blo, bhi). ahi - alo)") (auto dest!: longest_match_inv [OF sym])

declare matching.simps [simp del]

text \<open>\<open>get_matching_blocks\<close>: adjacent blocks are joined and the sentinel \<open>(len(a), len(b), 0)\<close> is added.\<close>

fun join_adjacent :: "nat \<times> nat \<times> nat \<Rightarrow> (nat \<times> nat \<times> nat) list \<Rightarrow> (nat \<times> nat \<times> nat) list" where
  "join_adjacent (i, j, k) [] = (if k = 0 then [] else [(i, j, k)])"
| "join_adjacent (i, j, k) ((i2, j2, k2) # bs) =
     (if i + k = i2 \<and> j + k = j2 then join_adjacent (i, j, k + k2) bs
      else (if k = 0 then [] else [(i, j, k)]) @ join_adjacent (i2, j2, k2) bs)"

definition get_matching_blocks :: "'a list \<Rightarrow> 'a list \<Rightarrow> (nat \<times> nat \<times> nat) list" where
  "get_matching_blocks a b =
     join_adjacent (0, 0, 0) (matching a b 0 (length a) 0 (length b)) @ [(length a, length b, 0)]"

datatype tag = Replace | Delete | Insert | Equal

fun opcodes :: "nat \<Rightarrow> nat \<Rightarrow> (nat \<times> nat \<times> nat) list \<Rightarrow> (tag \<times> nat \<times> nat \<times> nat \<times> nat) list" where
  "opcodes i j [] = []"
| "opcodes i j ((ai, bj, n) # bs) =
     (if i < ai \<and> j < bj then [(Replace, i, ai, j, bj)]
      else if i < ai then [(Delete, i, ai, j, bj)]
      else if j < bj then [(Insert, i, ai, j, bj)] else [])
     @ (if n = 0 then [] else [(Equal, ai, ai + n, bj, bj + n)])
     @ opcodes (ai + n) (bj + n) bs"

definition get_opcodes :: "'a list \<Rightarrow> 'a list \<Rightarrow> (tag \<times> nat \<times> nat \<times> nat \<times> nat) list" where
  "get_opcodes a b = opcodes 0 0 (get_matching_blocks a b)"

section \<open>The merge\<close>

text \<open>A hunk: start and end in the base, the replacement, the side.\<close>

type_synonym hunk = "nat \<times> nat \<times> string list \<times> nat"

definition slice :: "'a list \<Rightarrow> nat \<Rightarrow> nat \<Rightarrow> 'a list" where
  "slice xs i j = take (j - i) (drop i xs)"

definition changed_hunks :: "string list \<Rightarrow> string list \<Rightarrow> nat \<Rightarrow> hunk list" where
  "changed_hunks base_lines other_lines side =
     map (\<lambda>(_, a0, a1, b0, b1). (a0, a1, slice other_lines b0 b1, side))
       (filter (\<lambda>(t, _). t \<noteq> Equal) (get_opcodes base_lines other_lines))"

definition overlaps :: "nat \<Rightarrow> nat \<Rightarrow> nat \<Rightarrow> nat \<Rightarrow> bool" where
  "overlaps a0 a1 b0 b1 = (a0 < b1 \<and> b0 < a1 \<or> a0 = a1 \<and> a1 = b0 \<and> b0 = b1)"

text \<open>The inner loop: the hunks that join the group, and the rest.\<close>

fun take_group :: "nat \<Rightarrow> nat \<Rightarrow> hunk list \<Rightarrow> hunk list \<times> hunk list" where
  "take_group g0 g1 [] = ([], [])"
| "take_group g0 g1 (h # hs) =
     (if overlaps g0 g1 (fst h) (fst (snd h))
      then (case take_group g0 (max g1 (fst (snd h))) hs of (grp, rest) \<Rightarrow> (h # grp, rest))
      else ([], h # hs))"

lemma take_group_length: "take_group g0 g1 hs = (grp, rest) \<Longrightarrow> length rest \<le> length hs"
  by (induction hs arbitrary: g1 grp) (auto simp: le_SucI split: prod.splits if_splits)

definition same_change :: "hunk \<Rightarrow> hunk \<Rightarrow> bool" where
  "same_change h h' = (fst h = fst h' \<and> fst (snd h) = fst (snd h') \<and> fst (snd (snd h)) = fst (snd (snd h')))"

definition resolvable :: "hunk \<Rightarrow> hunk list \<Rightarrow> bool" where
  "resolvable h grp = (case grp of [] \<Rightarrow> True | [h'] \<Rightarrow> same_change h h' | _ \<Rightarrow> False)"

function merge_loop :: "string list \<Rightarrow> nat \<Rightarrow> hunk list \<Rightarrow> string list \<Rightarrow> string list option" where
  "merge_loop base cursor [] merged = Some (merged @ drop cursor base)"
| "merge_loop base cursor ((s, e, r, side) # hs) merged =
     (case take_group s e hs of (grp, rest) \<Rightarrow>
        if resolvable (s, e, r, side) grp then merge_loop base e rest (merged @ slice base cursor s @ r) else None)"
  by pat_completeness auto
termination
  by (relation "measure (\<lambda>(base, cursor, hs, merged). length hs)")
    (auto simp: less_Suc_eq_le dest: take_group_length [OF sym])

definition merge3 :: "string \<Rightarrow> string \<Rightarrow> string \<Rightarrow> string option" where
  "merge3 base ours theirs =
     (if ours = theirs then Some ours
      else
        let base_lines = splitlines base;
            hunks = sort_key (\<lambda>(s, e, _, side). (s, e, side))
                      (changed_hunks base_lines (splitlines ours) 0 @ changed_hunks base_lines (splitlines theirs) 1)
        in map_option concat (merge_loop base_lines 0 hunks []))"

section \<open>Lines and slices\<close>

lemma splitlines_Nil [simp]: "splitlines s = [] \<longleftrightarrow> s = []"
  by (induction s rule: splitlines.induct) (auto split: list.splits)

lemma concat_splitlines [simp]: "concat (splitlines s) = s"
  by (induction s rule: splitlines.induct) (auto split: list.splits)

lemma take_drop_add: "take (k + n) (drop i xs) = take k (drop i xs) @ take n (drop (i + k) xs)"
  by (metis take_add drop_drop add.commute)

lemma slice_append: "i \<le> j \<Longrightarrow> j \<le> k \<Longrightarrow> slice xs i j @ slice xs j k = slice xs i k"
  by (auto simp: le_iff_add slice_def take_drop_add add.assoc)

lemma slice_drop: "i \<le> j \<Longrightarrow> slice xs i j @ drop j xs = drop i xs"
  by (simp add: slice_def) (metis append_take_drop_id drop_drop le_add_diff_inverse2)

lemma slice_simps [simp]: "slice xs i i = []" "slice xs i (i + n) = take n (drop i xs)"
  by (simp_all add: slice_def)

section \<open>Matching blocks are common blocks\<close>

text \<open>Blocks in increasing order in both texts, between two positions, each with equal content.\<close>

fun aligned :: "'a list \<Rightarrow> 'a list \<Rightarrow> nat \<Rightarrow> nat \<Rightarrow> nat \<Rightarrow> nat \<Rightarrow> (nat \<times> nat \<times> nat) list \<Rightarrow> bool" where
  "aligned a b i j ih jh [] = (i \<le> ih \<and> j \<le> jh)"
| "aligned a b i j ih jh ((ai, bj, n) # bs) =
     (i \<le> ai \<and> j \<le> bj \<and> 0 < n \<and> take n (drop ai a) = take n (drop bj b) \<and> aligned a b (ai + n) (bj + n) ih jh bs)"

lemma aligned_lower: "aligned a b i j ih jh bs \<Longrightarrow> i' \<le> i \<Longrightarrow> j' \<le> j \<Longrightarrow> aligned a b i' j' ih jh bs"
  by (cases bs) auto

lemma aligned_append:
  "aligned a b i j m n xs \<Longrightarrow> aligned a b m n ih jh ys \<Longrightarrow> aligned a b i j ih jh (xs @ ys)"
  by (induction a b i j m n xs rule: aligned.induct) (auto intro: aligned_lower)

lemma common_prefix_take: "k \<le> common_prefix xs ys \<Longrightarrow> take k xs = take k ys"
proof (induction xs ys arbitrary: k rule: common_prefix.induct)
  case (1 x xs y ys)
  then show ?case by (cases k) (auto split: if_splits)
qed auto

lemma match_length_take: "k \<le> match_length a b ahi bhi i j \<Longrightarrow> take k (drop i a) = take k (drop j b)"
  by (rule common_prefix_take) (simp add: match_length_def)

lemma matching_aligned: "alo \<le> ahi \<Longrightarrow> blo \<le> bhi \<Longrightarrow> aligned a b alo blo ahi bhi (matching a b alo ahi blo bhi)"
proof (induction a b alo ahi blo bhi rule: matching.induct)
  case (1 a b alo ahi blo bhi)
  obtain i j k where m: "find_longest_match a b alo ahi blo bhi = (i, j, k)" by (metis prod_cases3)
  show ?case
  proof (cases "k = 0")
    case True
    then show ?thesis using m 1(3,4) by (subst matching.simps) simp
  next
    case False
    then have b: "alo \<le> i" "i < ahi" "blo \<le> j" "j < bhi" and k: "k = match_length a b ahi bhi i j"
      using longest_match_inv [OF m] by auto
    have h: "i + k \<le> ahi" "j + k \<le> bhi"
      using k b match_length_bounds [of a b ahi bhi i j] by auto
    have "aligned a b i j ahi bhi ((i, j, k) # matching a b (i + k) ahi (j + k) bhi)"
      using 1(2) [OF m [symmetric] refl False] h False match_length_take [of k a b ahi bhi i j] k by simp
    then have "aligned a b alo blo ahi bhi (matching a b alo i blo j @ (i, j, k) # matching a b (i + k) ahi (j + k) bhi)"
      using aligned_append 1(1) [OF m [symmetric] refl False] b by blast
    then show ?thesis using m False by (subst matching.simps) simp
  qed
qed

lemma join_adjacent_aligned:
  assumes "aligned a b (i + k) (j + k) ih jh bs" and "take k (drop i a) = take k (drop j b)"
    and "i0 \<le> i" and "j0 \<le> j"
  shows "aligned a b i0 j0 ih jh (join_adjacent (i, j, k) bs)"
  using assms
proof (induction "(i, j, k)" bs arbitrary: i j k i0 j0 rule: join_adjacent.induct)
  case (1 i j k)
  then show ?case by (auto intro: order_trans)
next
  case (2 i j k i2 j2 k2 bs)
  show ?case
  proof (cases "i + k = i2 \<and> j + k = j2")
    case True
    then have i2: "i2 = i + k" and j2: "j2 = j + k" by auto
    have "take (k + k2) (drop i a) = take (k + k2) (drop j b)"
      using 2(3,4) by (simp add: i2 j2 take_drop_add)
    moreover have "aligned a b (i + (k + k2)) (j + (k + k2)) ih jh bs" using 2(3) by (simp add: i2 j2 add.assoc)
    ultimately have "aligned a b i0 j0 ih jh (join_adjacent (i, j, k + k2) bs)" using 2(1) [OF True] 2(5,6) by blast
    then show ?thesis by (simp add: i2 j2)
  next
    case False
    have "aligned a b (i + k) (j + k) ih jh (join_adjacent (i2, j2, k2) bs)"
      by (rule 2(2) [OF False]) (use 2(3) in simp_all)
    moreover from this have "aligned a b i0 j0 ih jh (join_adjacent (i2, j2, k2) bs)"
      using aligned_lower 2(5,6) by (meson trans_le_add1)
    ultimately show ?thesis using 2(4-6) by (simp only: join_adjacent.simps if_not_P [OF False]) simp
  qed
qed

lemma blocks_aligned:
  "aligned a b 0 0 (length a) (length b) (join_adjacent (0, 0, 0) (matching a b 0 (length a) 0 (length b)))"
  using join_adjacent_aligned [of a b 0 0 0] matching_aligned [of 0 "length a" 0 "length b" a b] by simp

section \<open>Hunks\<close>

fun block_hunks :: "string list \<Rightarrow> nat \<Rightarrow> nat \<Rightarrow> nat \<Rightarrow> (nat \<times> nat \<times> nat) list \<Rightarrow> hunk list" where
  "block_hunks other side i j [] = []"
| "block_hunks other side i j ((ai, bj, n) # bs) =
     (if i < ai \<or> j < bj then [(i, ai, slice other j bj, side)] else []) @ block_hunks other side (ai + n) (bj + n) bs"

lemma changed_hunks_blocks: "changed_hunks a b side = block_hunks b side 0 0 (get_matching_blocks a b)"
proof -
  have "map (\<lambda>(_, a0, a1, b0, b1). (a0, a1, slice b b0 b1, side)) (filter (\<lambda>(t, _). t \<noteq> Equal) (opcodes i j bs))
      = block_hunks b side i j bs" for i j bs
    by (induction i j bs rule: opcodes.induct) auto
  then show ?thesis by (simp add: changed_hunks_def get_opcodes_def)
qed

text \<open>Hunks of one side start after the end of the one before.\<close>

fun spread :: "nat \<Rightarrow> hunk list \<Rightarrow> bool" where
  "spread n [] = True"
| "spread n ((s, e, _, _) # hs) = (n \<le> s \<and> s \<le> e \<and> spread (Suc e) hs)"

lemma spread_mono: "spread n hs \<Longrightarrow> m \<le> n \<Longrightarrow> spread m hs"
  by (cases hs) auto

lemma block_hunks_spread:
  "aligned a b i j ih jh bs \<Longrightarrow> spread i (block_hunks other side i j (bs @ [(ih, jh, 0)]))"
  by (induction a b i j ih jh bs rule: aligned.induct) (auto intro: spread_mono)

lemma changed_hunks_spread: "spread 0 (changed_hunks a b side)"
  using block_hunks_spread [OF blocks_aligned] by (simp add: changed_hunks_blocks get_matching_blocks_def)

lemma spread_no_group: "spread (Suc e) hs \<Longrightarrow> take_group s e hs = ([], hs)"
  by (cases hs) (auto simp: overlaps_def)

text \<open>Applying the hunks of one side to the base gives that side.\<close>

lemma merge_one_side:
  assumes "aligned a b i j (length a) (length b) bs" and "c \<le> i" "cj \<le> j" and "slice a c i = slice b cj j"
  shows "merge_loop a c (block_hunks b side i j (bs @ [(length a, length b, 0)])) merged = Some (merged @ drop cj b)"
  using assms
proof (induction a b i j "length a" "length b" bs arbitrary: c cj merged rule: aligned.induct)
  case (1 a b i j)
  have "slice b cj j @ slice b j (length b) = drop cj b"
    using slice_append [of cj j "length b" b] slice_drop [of cj "length b" b] 1 by simp
  then show ?case
    using 1 slice_drop [of c i a] by (cases "i < length a \<or> j < length b") (auto simp: resolvable_def)
next
  case (2 a b i j ai bj n bs)
  let ?rest = "block_hunks b side (ai + n) (bj + n) (bs @ [(length a, length b, 0)])"
  have al: "aligned a b (ai + n) (bj + n) (length a) (length b) bs" and le: "i \<le> ai" "j \<le> bj" "0 < n"
    and eq: "slice a ai (ai + n) = slice b bj (bj + n)" using 2(2) by simp_all
  show ?case
  proof (cases "i < ai \<or> j < bj")
    case False
    then have "i = ai" "j = bj" using le by auto
    moreover have "slice a c (ai + n) = slice b cj (bj + n)"
      using slice_append [of c ai "ai + n" a] slice_append [of cj bj "bj + n" b] 2(3-5) \<open>i = ai\<close> \<open>j = bj\<close> eq by simp
    ultimately show ?thesis using 2(1) [OF al, of c cj merged] 2(3,4) by simp
  next
    case True
    have "spread (Suc ai) ?rest" using spread_mono [OF block_hunks_spread [OF al]] le(3) by simp
    then have g: "take_group i ai ?rest = ([], ?rest)" by (rule spread_no_group)
    have "merge_loop a ai ?rest (merged @ slice a c i @ slice b j bj) = Some ((merged @ slice a c i @ slice b j bj) @ drop bj b)"
      using 2(1) [OF al, of ai bj] eq by simp
    moreover have "slice a c i @ slice b j bj @ drop bj b = drop cj b"
      using slice_drop [of j bj b] slice_drop [of cj j b] 2(4,5) le by simp
    ultimately show ?thesis using True g by (simp add: resolvable_def)
  qed
qed

text \<open>A text against itself has no hunks.\<close>

lemma common_prefix_same: "common_prefix xs xs = length xs"
  by (induction xs) simp_all

lemma longest_match_stays:
  assumes "ahi \<le> k"
  shows "fold (\<lambda>ij best. better_match a b ahi bhi best ij) xs (i, j, k) = (i, j, k)"
proof (induction xs)
  case (Cons x xs)
  have "better_match a b ahi bhi (i, j, k) x = (i, j, k)"
    using assms match_length_bounds(1) [of a b ahi bhi "fst x" "snd x"]
    by (cases x) (simp add: better_match_def Let_def)
  then show ?case using Cons by simp
qed simp

lemma longest_match_same: "find_longest_match a a 0 (length a) 0 (length a) = (0, 0, length a)"
proof (cases "length a")
  case 0
  then show ?thesis by (simp add: find_longest_match_def)
next
  case (Suc n)
  have "[0..<length a] = 0 # [1..<length a]" using Suc by (simp add: upt_rec)
  then obtain ps where ps: "List.product [0..<length a] [0..<length a] = (0, 0) # ps" by simp
  have "better_match a a (length a) (length a) (0, 0, 0) (0, 0) = (0, 0, length a)"
    using Suc by (simp add: better_match_def match_length_def common_prefix_same)
  then show ?thesis by (simp add: find_longest_match_def ps longest_match_stays)
qed

lemma changed_hunks_same: "changed_hunks a a side = []"
proof -
  have e: "matching a a i i j j = []" for i j
    by (subst matching.simps) (simp add: find_longest_match_def)
  have "matching a a 0 (length a) 0 (length a) = (if a = [] then [] else [(0, 0, length a)])"
    by (subst matching.simps) (simp add: longest_match_same e)
  then show ?thesis by (auto simp: changed_hunks_blocks get_matching_blocks_def)
qed

section \<open>The order of the hunks\<close>

definition hunk_range :: "hunk \<Rightarrow> nat \<times> nat" where
  "hunk_range h = (fst h, fst (snd h))"

definition hunk_key :: "hunk \<Rightarrow> nat \<times> nat \<times> nat" where
  "hunk_key h = (fst h, fst (snd h), snd (snd (snd h)))"

definition hunk_change :: "hunk \<Rightarrow> nat \<times> nat \<times> string list" where
  "hunk_change h = (fst h, fst (snd h), fst (snd (snd h)))"

fun interleave :: "hunk list \<Rightarrow> hunk list \<Rightarrow> hunk list" where
  "interleave (x # xs) (y # ys) =
     (if hunk_range x \<le> hunk_range y then x # interleave xs (y # ys) else y # interleave (x # xs) ys)"
| "interleave [] ys = ys"
| "interleave xs [] = xs"

lemma interleave_Nil [simp]: "interleave xs [] = xs"
  by (cases xs) simp_all

lemma set_interleave: "set (interleave xs ys) = set xs \<union> set ys"
  by (induction xs ys rule: interleave.induct) auto

lemma length_interleave: "length (interleave xs ys) = length xs + length ys"
  by (induction xs ys rule: interleave.induct) auto

lemma spread_bound: "spread n hs \<Longrightarrow> h \<in> set hs \<Longrightarrow> n \<le> fst h"
  by (induction n hs rule: spread.induct) force+

lemma spread_strict: "spread n (h # hs) \<Longrightarrow> h' \<in> set hs \<Longrightarrow> hunk_range h < hunk_range h'"
  using spread_bound by (cases h) (fastforce simp: hunk_range_def less_prod_def)

lemma spread_tail: "spread n (h # hs) \<Longrightarrow> spread 0 hs"
  by (cases h) (auto intro: spread_mono)

text \<open>The sort of the code on two sides with different marks interleaves them, the first side first.\<close>

lemma range_key: "hunk_range h < hunk_range h' \<Longrightarrow> hunk_key h < hunk_key h'"
  by (auto simp: hunk_key_def hunk_range_def less_prod_def)

lemma spread_sorted: "spread n hs \<Longrightarrow> sorted_wrt (<) (map hunk_key hs)"
proof (induction hs arbitrary: n)
  case (Cons h hs)
  have "\<forall>h' \<in> set hs. hunk_key h < hunk_key h'" using spread_strict [OF Cons.prems] range_key by blast
  then show ?case using Cons.IH [OF spread_tail [OF Cons.prems]] by simp
qed simp

lemma interleave_sorted:
  assumes "spread m xs" "spread n ys" and "\<forall>h \<in> set xs. snd (snd (snd h)) = 0" "\<forall>h \<in> set ys. snd (snd (snd h)) = 1"
  shows "sorted_wrt (<) (map hunk_key (interleave xs ys))"
  using assms
proof (induction xs ys arbitrary: m n rule: interleave.induct)
  case (1 x xs y ys)
  have x: "\<forall>h \<in> set xs. hunk_key x < hunk_key h" using spread_strict [OF 1(3)] range_key by blast
  have y: "\<forall>h \<in> set ys. hunk_key y < hunk_key h" using spread_strict [OF 1(4)] range_key by blast
  show ?case
  proof (cases "hunk_range x \<le> hunk_range y")
    case True
    have xy: "hunk_key x < hunk_key y"
      using True 1(5,6) range_key [of x y] by (cases "hunk_range x = hunk_range y") (auto simp: hunk_key_def hunk_range_def less_prod_def)
    then have "\<forall>h \<in> set ys. hunk_key x < hunk_key h" using y order.strict_trans by blast
    then have "\<forall>h \<in> set (interleave xs (y # ys)). hunk_key x < hunk_key h"
      using x xy by (simp add: set_interleave ball_Un)
    moreover have "sorted_wrt (<) (map hunk_key (interleave xs (y # ys)))"
      by (rule 1(1) [OF True spread_tail [OF 1(3)] 1(4)]) (use 1(5,6) in simp_all)
    ultimately show ?thesis using True by simp
  next
    case False
    then have yx: "hunk_key y < hunk_key x" using range_key by (meson not_le_imp_less)
    then have "\<forall>h \<in> set xs. hunk_key y < hunk_key h" using x order.strict_trans by blast
    then have "\<forall>h \<in> set (interleave (x # xs) ys). hunk_key y < hunk_key h"
      using y yx by (simp add: set_interleave ball_Un)
    moreover have "sorted_wrt (<) (map hunk_key (interleave (x # xs) ys))"
      by (rule 1(2) [OF False 1(3) spread_tail [OF 1(4)]]) (use 1(5,6) in simp_all)
    ultimately show ?thesis using False by simp
  qed
qed (auto dest: spread_sorted)

lemma sort_interleave:
  assumes "spread m xs" "spread n ys" and "\<forall>h \<in> set xs. snd (snd (snd h)) = 0" "\<forall>h \<in> set ys. snd (snd (snd h)) = 1"
  shows "sort_key (\<lambda>(s, e, _, side). (s, e, side)) (xs @ ys) = interleave xs ys"
proof -
  let ?l = "sort_key hunk_key (xs @ ys)" and ?r = "interleave xs ys"
  have r: "sorted (map hunk_key ?r)" "distinct (map hunk_key ?r)"
    using interleave_sorted [OF assms] by (simp_all add: strict_sorted_iff)
  have "set ?l = set ?r" by (simp add: set_interleave)
  moreover have "distinct (map hunk_key ?l)"
  proof (rule card_distinct)
    have "card (set (map hunk_key ?r)) = length xs + length ys"
      using distinct_card [OF r(2)] by (simp add: length_interleave)
    then show "card (set (map hunk_key ?l)) = length (map hunk_key ?l)" by (simp add: set_interleave)
  qed
  moreover have "inj_on hunk_key (set ?l \<union> set ?r)"
    using r(2) by (simp add: set_interleave distinct_map)
  ultimately have "?l = ?r"
    using map_sorted_distinct_set_unique [of hunk_key ?l ?r] r by simp
  moreover have "(\<lambda>(s, e, _, side). (s, e, side)) = hunk_key" by (auto simp: hunk_key_def fun_eq_iff)
  ultimately show ?thesis by simp
qed

section \<open>The sides are interchangeable\<close>

text \<open>The same hunks up to the side marks, where two hunks of the same range may come in either order.\<close>

inductive twisted :: "hunk list \<Rightarrow> hunk list \<Rightarrow> bool" where
  tw_nil: "twisted [] []"
| tw_same: "hunk_change h = hunk_change h' \<Longrightarrow> twisted xs ys \<Longrightarrow> twisted (h # xs) (h' # ys)"
| tw_swap: "hunk_range x = hunk_range y \<Longrightarrow> hunk_change x = hunk_change x' \<Longrightarrow> hunk_change y = hunk_change y' \<Longrightarrow>
     fst x \<le> fst (snd x) \<Longrightarrow> twisted xs ys \<Longrightarrow> twisted (x # y # xs) (y' # x' # ys)"

lemma twisted_refl: "map hunk_change xs = map hunk_change ys \<Longrightarrow> twisted xs ys"
proof (induction xs arbitrary: ys)
  case (Cons x xs)
  then obtain y zs where "ys = y # zs" "hunk_change x = hunk_change y" "map hunk_change xs = map hunk_change zs" by auto
  then show ?case using Cons.IH tw_same by simp
qed (simp add: tw_nil)

lemma change_range: "hunk_change h = hunk_change h' \<Longrightarrow> hunk_range h = hunk_range h'"
  by (simp add: hunk_change_def hunk_range_def)

lemma interleave_first:
  assumes "spread m (x # xs)" and "hunk_range x = hunk_range y"
  shows "interleave xs (y # ys) = y # interleave xs ys"
proof (cases xs)
  case (Cons z zs)
  then have "\<not> hunk_range z \<le> hunk_range y" using spread_strict [OF assms(1), of z] assms(2) by (simp only: not_le) simp
  then show ?thesis using Cons by simp
qed simp

lemma spread_change: "map hunk_change xs = map hunk_change ys \<Longrightarrow> spread n xs = spread n ys"
proof (induction xs arbitrary: ys n)
  case (Cons x xs)
  then obtain y zs where y: "ys = y # zs" "hunk_change x = hunk_change y" and eq: "map hunk_change xs = map hunk_change zs" by auto
  obtain s e r d s' e' r' d' where "x = (s, e, r, d)" "y = (s', e', r', d')" by (metis prod_cases4)
  then show ?case using Cons.IH [OF eq, of "Suc e"] y by (simp add: hunk_change_def)
qed simp

lemma twisted_interleave:
  assumes "spread m xs" "spread n ys" and "map hunk_change xs = map hunk_change xs'" "map hunk_change ys = map hunk_change ys'"
  shows "twisted (interleave xs ys) (interleave ys' xs')"
  using assms
proof (induction "length xs + length ys" arbitrary: xs ys xs' ys' m n rule: less_induct)
  case less
  show ?case
  proof (cases "xs = [] \<or> ys = []")
    case True
    then show ?thesis
    proof
      assume "xs = []"
      then show ?thesis using less.prems(3) twisted_refl [OF less.prems(4)] by simp
    next
      assume "ys = []"
      then show ?thesis using less.prems(4) twisted_refl [OF less.prems(3)] by simp
    qed
  next
    case False
    obtain x xt y yt where xy: "xs = x # xt" "ys = y # yt" using False by (meson neq_Nil_conv)
    obtain x' xt' where x': "xs' = x' # xt'" "hunk_change x = hunk_change x'" "map hunk_change xt = map hunk_change xt'"
      using less.prems(3) xy by auto
    obtain y' yt' where y': "ys' = y' # yt'" "hunk_change y = hunk_change y'" "map hunk_change yt = map hunk_change yt'"
      using less.prems(4) xy by auto
    have sx: "spread 0 xt" and sy: "spread 0 yt"
      using less.prems(1,2) xy spread_tail by blast+
    have rg: "hunk_range x' = hunk_range x" "hunk_range y' = hunk_range y" using change_range [OF x'(2)] change_range [OF y'(2)] by simp_all
    consider "hunk_range x < hunk_range y" | "hunk_range y < hunk_range x" | "hunk_range x = hunk_range y" by fastforce
    then show ?thesis
    proof cases
      case 1
      have "twisted (interleave xt ys) (interleave ys' xt')"
        by (rule less.hyps [OF _ sx less.prems(2) x'(3) less.prems(4)]) (simp add: xy)
      moreover have "hunk_range x \<le> hunk_range y" "\<not> hunk_range y' \<le> hunk_range x'" using 1 rg by (simp_all only: not_le less_imp_le)
      ultimately show ?thesis using xy x'(1) y'(1) tw_same [OF x'(2)] by simp
    next
      case 2
      have "twisted (interleave xs yt) (interleave yt' xs')"
        by (rule less.hyps [OF _ less.prems(1) sy less.prems(3) y'(3)]) (simp add: xy)
      moreover have "hunk_range y' \<le> hunk_range x'" "\<not> hunk_range x \<le> hunk_range y" using 2 rg by (simp_all only: not_le less_imp_le)
      ultimately show ?thesis using xy x'(1) y'(1) tw_same [OF y'(2)] by simp
    next
      case 3
      have sp: "spread m (x # xt)" "spread n (y # yt)" "fst x \<le> fst (snd x)"
        using less.prems(1,2) xy by (simp_all, cases x, simp)
      have q: "spread n (y' # yt')" using less.prems(2) spread_change [OF less.prems(4)] y'(1) by simp
      have "twisted (interleave xt yt) (interleave yt' xt')"
        by (rule less.hyps [OF _ sx sy x'(3) y'(3)]) (simp add: xy)
      then have "twisted (x # y # interleave xt yt) (y' # x' # interleave yt' xt')"
        by (rule tw_swap [OF 3 x'(2) y'(2) sp(3)])
      moreover have "interleave xs ys = x # y # interleave xt yt" using 3 xy interleave_first [OF sp(1) 3, of yt] by simp
      moreover have "interleave ys' xs' = y' # x' # interleave yt' xt'"
        using 3 rg x'(1) y'(1) interleave_first [OF q, of x' xt'] by simp
      ultimately show ?thesis by simp
    qed
  qed
qed

lemma twisted_group:
  assumes "twisted xs ys" and "take_group g0 g1 xs = (g, r)"
  shows "\<exists>g' r'. take_group g0 g1 ys = (g', r') \<and> twisted g g' \<and> twisted r r'"
  using assms
proof (induction arbitrary: g1 g)
  case tw_nil
  then show ?case by (auto intro: twisted.intros)
next
  case (tw_same h h' xs ys)
  show ?case
  proof (cases "overlaps g0 g1 (fst h) (fst (snd h))")
    case True
    then obtain g2 where g: "take_group g0 (max g1 (fst (snd h))) xs = (g2, r)" "g = h # g2"
      using tw_same.prems by (auto split: prod.splits)
    have "fst h' = fst h" "fst (snd h') = fst (snd h)" using tw_same.hyps(1) by (auto simp: hunk_change_def)
    then show ?thesis
      using tw_same.IH [OF g(1)] True g(2) tw_same.hyps(1) by (auto intro: twisted.intros)
  next
    case False
    then show ?thesis
      using tw_same by (auto simp: hunk_change_def intro!: twisted.intros)
  qed
next
  case (tw_swap x y x' y' xs ys)
  let ?s = "fst x" and ?e = "fst (snd x)"
  have r: "fst y = ?s" "fst (snd y) = ?e" "fst x' = ?s" "fst (snd x') = ?e" "fst y' = ?s" "fst (snd y') = ?e"
    using tw_swap.hyps(1-3) by (auto simp: hunk_range_def hunk_change_def)
  show ?case
  proof (cases "overlaps g0 g1 ?s ?e")
    case True
    then have o2: "overlaps g0 (max g1 ?e) ?s ?e" by (auto simp: overlaps_def)
    obtain g2 where g: "take_group g0 (max g1 ?e) xs = (g2, r)" "g = x # y # g2"
      using tw_swap.prems True o2 r by (auto split: prod.splits)
    then show ?thesis
      using tw_swap.IH [OF g(1)] True o2 r twisted.tw_swap [OF tw_swap.hyps(1-4)] by auto
  next
    case False
    then show ?thesis
      using tw_swap.prems r twisted.tw_swap [OF tw_swap.hyps(1-5)] by (auto intro: tw_nil)
  qed
qed

lemma twisted_empty: "twisted xs ys \<Longrightarrow> (xs = []) = (ys = [])"
  by (erule twisted.cases) simp_all

lemma twisted_resolvable:
  assumes "twisted g g'" and "hunk_change h = hunk_change h'"
  shows "resolvable h g = resolvable h' g'"
  using assms(1)
proof cases
  case (tw_same x x' xs ys)
  have "(xs = []) = (ys = [])" by (rule twisted_empty [OF tw_same(4)])
  then show ?thesis using tw_same assms(2) by (auto simp: resolvable_def same_change_def hunk_change_def split: list.split)
qed (simp_all add: resolvable_def)

lemma merge_loop_twisted:
  assumes "twisted xs ys"
  shows "merge_loop base c xs merged = merge_loop base c ys merged"
  using assms
proof (induction "length xs" arbitrary: xs ys c merged rule: less_induct)
  case less
  from less.prems show ?case
  proof cases
    case tw_nil
    then show ?thesis by simp
  next
    case (tw_same h h' xt yt)
    obtain s e r d d' where h: "h = (s, e, r, d)" "h' = (s, e, r, d')"
      using tw_same(3) by (cases h; cases h') (auto simp: hunk_change_def)
    obtain g rest where g: "take_group s e xt = (g, rest)" by (metis surj_pair)
    obtain g' rest' where g': "take_group s e yt = (g', rest')" "twisted g g'" "twisted rest rest'"
      using twisted_group [OF tw_same(4) g] by blast
    have "merge_loop base e rest m = merge_loop base e rest' m" for m
      by (rule less.hyps [OF _ g'(3)]) (use take_group_length [OF g] tw_same(1) in simp)
    then show ?thesis using tw_same(1,2) h g g'(1) twisted_resolvable [OF g'(2) tw_same(3)] by simp
  next
    case (tw_swap x y x' y' xt yt)
    obtain s e r d d' where x: "x = (s, e, r, d)" "x' = (s, e, r, d')"
      using tw_swap(4) by (cases x; cases x') (auto simp: hunk_change_def)
    obtain r2 k where y1: "y = (s, e, r2, k)" using tw_swap(3) x(1) by (cases y) (simp add: hunk_range_def)
    moreover obtain k' where "y' = (s, e, r2, k')" using tw_swap(5) y1 by (cases y') (simp add: hunk_change_def)
    ultimately have y: "y = (s, e, r2, k)" "y' = (s, e, r2, k')" by simp_all
    have ov: "overlaps s e s e" using tw_swap(6) x by (simp add: overlaps_def) arith
    obtain g rest where g: "take_group s e xt = (g, rest)" by (metis surj_pair)
    obtain g' rest' where g': "take_group s e yt = (g', rest')" "twisted g g'" "twisted rest rest'"
      using twisted_group [OF tw_swap(7) g] by blast
    have nil: "(g = []) = (g' = [])" by (rule twisted_empty [OF g'(2)])
    have eq: "merge_loop base e rest m = merge_loop base e rest' m" for m
      by (rule less.hyps [OF _ g'(3)]) (use take_group_length [OF g] tw_swap(1) in simp)
    have res: "resolvable (s, e, r1, d1) ((s, e, r2, d2) # gs) = (gs = [] \<and> r1 = r2)" for r1 r2 d1 d2 gs
      by (cases gs) (auto simp: resolvable_def same_change_def)
    have "merge_loop base c xs merged
        = (if g = [] \<and> r = r2 then merge_loop base e rest (merged @ slice base c s @ r) else None)"
      using tw_swap(1) x y ov g res by simp
    moreover have "merge_loop base c ys merged
        = (if g' = [] \<and> r = r2 then merge_loop base e rest' (merged @ slice base c s @ r) else None)"
      using tw_swap(2) x y ov g'(1) res by auto
    ultimately show ?thesis using nil eq by simp
  qed
qed

section \<open>Properties\<close>

lemma hunk_sides: "h \<in> set (changed_hunks a b side) \<Longrightarrow> snd (snd (snd h)) = side"
  by (auto simp: changed_hunks_def)

lemma hunk_changes: "map hunk_change (changed_hunks a b side) = map hunk_change (changed_hunks a b side')"
  by (auto simp: changed_hunks_def hunk_change_def)

lemma merge3_interleave:
  "ours \<noteq> theirs \<Longrightarrow> merge3 base ours theirs =
     map_option concat (merge_loop (splitlines base) 0
       (interleave (changed_hunks (splitlines base) (splitlines ours) 0) (changed_hunks (splitlines base) (splitlines theirs) 1)) [])"
  by (simp add: merge3_def Let_def sort_interleave [OF changed_hunks_spread changed_hunks_spread] hunk_sides)

lemma merge3_ours:
  assumes "x \<noteq> b"
  shows "merge3 b x b = Some x"
proof -
  let ?a = "splitlines b" and ?x = "splitlines x"
  have "merge_loop ?a 0 (changed_hunks ?a ?x 0) [] = Some ?x"
    using merge_one_side [OF blocks_aligned [of ?a ?x], of 0 0 0 "[]"]
    by (simp add: changed_hunks_blocks get_matching_blocks_def)
  then show ?thesis using assms by (simp add: merge3_interleave changed_hunks_same)
qed

text \<open>C29. The text merge keeps the laws its documentation states, and the sides are interchangeable: a side that
  equals the base contributes nothing, two equal sides merge to themselves, and swapping the sides does not change
  the outcome, resolved or not.\<close>

theorem merge3_laws:
  "merge3 b b x = Some x \<and> merge3 b x b = Some x \<and> merge3 b x x = Some x \<and> merge3 b x y = merge3 b y x"
proof -
  have comm: "merge3 b x y = merge3 b y x" for x y
  proof (cases "x = y")
    case False
    let ?h = "changed_hunks (splitlines b)"
    have tw: "twisted (interleave (?h (splitlines x) 0) (?h (splitlines y) 1)) (interleave (?h (splitlines y) 0) (?h (splitlines x) 1))"
      by (rule twisted_interleave [OF changed_hunks_spread changed_hunks_spread hunk_changes hunk_changes])
    show ?thesis using False merge3_interleave [of x y b] merge3_interleave [of y x b] merge_loop_twisted [OF tw] by simp
  qed simp
  have "merge3 b x x = Some x" by (simp add: merge3_def)
  moreover have "merge3 b x b = Some x" using merge3_ours by (cases "x = b") (auto simp: merge3_def)
  ultimately show ?thesis using comm by metis
qed

text \<open>Lines can be glued together: one side drops the newline at the end of the text, the other appends a line, and
  the merged text has a line that neither side has.\<close>

lemma merge3_glues_lines:
  "merge3 ''a\<newline>b\<newline>'' ''a\<newline>b'' ''a\<newline>b\<newline>c\<newline>'' = Some ''a\<newline>bc\<newline>''"
  by code_simp

end
