(* ===== verification/Merging.thy ===== *)
theory Merging
  imports Text_Merge "HOL-Library.AList" "HOL-Library.Multiset"
begin

text \<open>
  The filesystem three-way merge of \<^verbatim>\<open>crab/merging.py\<close>: classification of the fork's changes against the
  source's, resolution by policy, application onto the source and the path-level rollback.  A directory tree is a
  map from the parts of a path below its root to a node; what lies below a symbolic link is not part of it.  A link has
  an owner and a target only.  The times of links, and of directories that change because of their entries, hard links
  and extended attributes are left out.  The UTF-8 codec, the caller's merge hook and the host's errors are parameters.
\<close>

section \<open>Trees\<close>

record node_attrs =
  na_mode :: nat
  na_uid :: nat
  na_gid :: nat
  na_mtime :: int

datatype node = Regular node_attrs string | Directory node_attrs | Symlink nat nat string | Fifo node_attrs | Special node_attrs

type_synonym tree = "string list \<rightharpoonup> node"

fun split_slash :: "string \<Rightarrow> string list" where
  "split_slash [] = [[]]"
| "split_slash (c # cs) =
     (if c = CHR ''/'' then [] # split_slash cs
      else case split_slash cs of [] \<Rightarrow> [[c]] | p # ps \<Rightarrow> (c # p) # ps)"

definition path_parts :: "string \<Rightarrow> string list" where
  "path_parts p = filter (\<lambda>x. x \<noteq> []) (split_slash p)"

text \<open>\<open>current / part\<close>: a single dot adds nothing.\<close>

definition join_part :: "string list \<Rightarrow> string \<Rightarrow> string list" where
  "join_part cur part = (if part = ''.'' then cur else cur @ [part])"

definition is_symlink :: "tree \<Rightarrow> string list \<Rightarrow> bool" where
  "is_symlink t p = (case t p of Some (Symlink _ _ _) \<Rightarrow> True | _ \<Rightarrow> False)"

fun walk_parts :: "tree \<Rightarrow> string list \<Rightarrow> string list \<Rightarrow> string list res" where
  "walk_parts t cur [] = Inl ValueError"
| "walk_parts t cur [part] = (if part = ''..'' then Inl ValueError else Inr (join_part cur part))"
| "walk_parts t cur (part # parts) =
     (if part = ''..'' then Inl ValueError
      else let cur' = join_part cur part in
        if is_symlink t cur' then Inl ValueError else walk_parts t cur' parts)"

definition host_path :: "tree \<Rightarrow> string \<Rightarrow> string list res" where
  "host_path t p = walk_parts t [] (path_parts p)"

definition is_dir_no_follow :: "tree \<Rightarrow> string \<Rightarrow> bool" where
  "is_dir_no_follow t p =
     (if p = ''/'' then True
      else case host_path t p of
             Inl _ \<Rightarrow> False
           | Inr q \<Rightarrow> (case t q of Some (Directory _) \<Rightarrow> True | _ \<Rightarrow> False))"

definition read_regular_bytes :: "tree \<Rightarrow> string \<Rightarrow> string option" where
  "read_regular_bytes t p =
     (case host_path t p of
        Inl _ \<Rightarrow> None
      | Inr q \<Rightarrow> (case t q of Some (Regular _ bytes) \<Rightarrow> Some bytes | _ \<Rightarrow> None))"

definition depth :: "string \<Rightarrow> nat" where
  "depth p = length (filter (\<lambda>c. c = CHR ''/'') p)"

definition rstrip_slash :: "string \<Rightarrow> string" where
  "rstrip_slash s = rev (dropWhile (\<lambda>c. c = CHR ''/'') (rev s))"

definition ignored :: "string \<Rightarrow> string list \<Rightarrow> bool" where
  "ignored p pfs = list_ex (\<lambda>q. p = q \<or> prefix (rstrip_slash q @ ''/'') p) pfs"

definition default_merge_ignore_prefixes :: "string list" where
  "default_merge_ignore_prefixes = [''/tmp'', ''/var/tmp'', ''/run'']"

section \<open>Changes and plans\<close>

record changeset_entry =
  ce_path :: string
  ce_change :: string
  ce_renamed_from :: "string option"

record merge_entry =
  me_path :: string
  me_change :: string
  me_resolution :: string
  me_reason :: "string option"
  me_renamed_from :: "string option"
  me_merged :: bool

datatype op_kind = Remove | Copy | CopyTree | Write string

record planned_op =
  op_kind :: op_kind
  op_path :: string
  op_entry :: merge_entry

record merge_plan =
  mp_ops :: "planned_op list"
  mp_entries_to_apply :: "merge_entry list"
  mp_conflicted :: "merge_entry list"
  mp_skipped :: "merge_entry list"
  mp_aborted :: bool

record merge_report =
  mr_policy :: string
  mr_applied :: "merge_entry list"
  mr_conflicted :: "merge_entry list"
  mr_skipped :: "merge_entry list"
  mr_rolled_back :: bool

definition demote :: "string \<Rightarrow> merge_entry \<Rightarrow> merge_entry" where
  "demote reason e = e\<lparr>me_resolution := ''skipped'', me_reason := Some reason\<rparr>"

definition build_report :: "string \<Rightarrow> merge_plan \<Rightarrow> bool \<Rightarrow> bool \<Rightarrow> merge_report" where
  "build_report policy plan applied rolled_back =
     (if mp_aborted plan
      then \<lparr>mr_policy = policy, mr_applied = [], mr_conflicted = mp_conflicted plan,
            mr_skipped = mp_skipped plan @ map (demote ''merge_aborted'') (mp_entries_to_apply plan),
            mr_rolled_back = rolled_back\<rparr>
      else if \<not> applied
      then \<lparr>mr_policy = policy, mr_applied = [], mr_conflicted = mp_conflicted plan,
            mr_skipped = mp_skipped plan @ map (demote ''rolled_back'') (mp_entries_to_apply plan),
            mr_rolled_back = rolled_back\<rparr>
      else \<lparr>mr_policy = policy, mr_applied = mp_entries_to_apply plan, mr_conflicted = mp_conflicted plan,
            mr_skipped = mp_skipped plan, mr_rolled_back = rolled_back\<rparr>)"

section \<open>Planning\<close>

text \<open>What a plan is made from: the policy, the three trees, the ignored prefixes, the hook, the codec.\<close>

record merge_env =
  en_policy :: string
  en_fork :: tree
  en_source :: tree
  en_base :: tree
  en_ignore :: "string list"
  en_merger :: "(string \<Rightarrow> string option \<Rightarrow> string option \<Rightarrow> string option \<Rightarrow> string option) option"
  en_decode :: "string \<Rightarrow> string option"
  en_encode :: "string \<Rightarrow> string"

definition merge_policies :: "string list" where
  "merge_policies = [''fail_fast'', ''prefer_fork'', ''prefer_source'', ''text_merge'']"

text \<open>The rename of an entry with a non-empty old name.\<close>

definition rename_source :: "changeset_entry \<Rightarrow> string option" where
  "rename_source e =
     (if ce_change e = ''renamed''
      then (case ce_renamed_from e of None \<Rightarrow> None | Some p \<Rightarrow> if p = [] then None else Some p) else None)"

text \<open>The source side: the changed paths with their change, and the removed ones.\<close>

type_synonym source_side = "(string \<times> string) list \<times> string list"

definition source_entry :: "merge_env \<Rightarrow> changeset_entry \<Rightarrow> source_side \<Rightarrow> source_side" where
  "source_entry env e side =
     (case side of (changed, removed) \<Rightarrow>
        if ignored (ce_path e) (en_ignore env) then side
        else if ce_change e = ''modified'' \<and> is_dir_no_follow (en_source env) (ce_path e) then side
        else
          let changed1 = AList.update (ce_path e) (ce_change e) changed in
          if ce_change e = ''removed'' then (changed1, removed @ [ce_path e])
          else case rename_source e of
                 None \<Rightarrow> (changed1, removed)
               | Some old \<Rightarrow> (AList.update old ''removed'' changed1, removed @ [old]))"

definition source_changes :: "merge_env \<Rightarrow> changeset_entry list \<Rightarrow> source_side" where
  "source_changes env es = fold (source_entry env) es ([], [])"

definition source_touched :: "source_side \<Rightarrow> string \<Rightarrow> bool" where
  "source_touched side p =
     (p \<in> set (map fst (fst side)) \<or> list_ex (\<lambda>removed. prefix (removed @ ''/'') p) (snd side))"

definition source_changed_under :: "source_side \<Rightarrow> string \<Rightarrow> bool" where
  "source_changed_under side p = list_ex (\<lambda>candidate. prefix (p @ ''/'') candidate) (map fst (fst side))"

definition in_conflict :: "source_side \<Rightarrow> changeset_entry \<Rightarrow> bool" where
  "in_conflict side e =
     (source_touched side (ce_path e)
      \<or> (case rename_source e of None \<Rightarrow> False | Some old \<Rightarrow> source_touched side old)
      \<or> ce_change e = ''removed'' \<and> source_changed_under side (ce_path e)
      \<or> (case rename_source e of None \<Rightarrow> False | Some old \<Rightarrow> source_changed_under side old))"

record plan_state =
  ps_skipped :: "merge_entry list"
  ps_conflicted :: "merge_entry list"
  ps_apply :: "merge_entry list"
  ps_remove_ops :: "planned_op list"
  ps_add_ops :: "planned_op list"

definition report_entry ::
  "changeset_entry \<Rightarrow> string \<Rightarrow> string option \<Rightarrow> string option \<Rightarrow> bool \<Rightarrow> merge_entry" where
  "report_entry e resolution reason renamed merged = \<lparr>me_path = ce_path e, me_change = ce_change e,
     me_resolution = resolution, me_reason = reason, me_renamed_from = renamed, me_merged = merged\<rparr>"

definition planned :: "op_kind \<Rightarrow> string \<Rightarrow> merge_entry \<Rightarrow> planned_op" where
  "planned k p r = \<lparr>op_kind = k, op_path = p, op_entry = r\<rparr>"

definition add_apply_ops :: "merge_env \<Rightarrow> changeset_entry \<Rightarrow> merge_entry \<Rightarrow> plan_state \<Rightarrow> plan_state" where
  "add_apply_ops env e r s =
     (if ce_change e = ''removed'' then s\<lparr>ps_remove_ops := ps_remove_ops s @ [planned Remove (ce_path e) r]\<rparr>
      else if ce_change e = ''renamed''
      then s\<lparr>ps_remove_ops := ps_remove_ops s
                 @ (case rename_source e of None \<Rightarrow> [] | Some old \<Rightarrow> [planned Remove old r]),
             ps_add_ops := ps_add_ops s
                 @ [planned (if is_dir_no_follow (en_fork env) (ce_path e) then CopyTree else Copy) (ce_path e) r]\<rparr>
      else s\<lparr>ps_add_ops := ps_add_ops s @ [planned Copy (ce_path e) r]\<rparr>)"

definition apply_entry :: "merge_env \<Rightarrow> changeset_entry \<Rightarrow> merge_entry \<Rightarrow> plan_state \<Rightarrow> plan_state" where
  "apply_entry env e r s = add_apply_ops env e r (s\<lparr>ps_apply := ps_apply s @ [r]\<rparr>)"

definition write_entry :: "changeset_entry \<Rightarrow> merge_entry \<Rightarrow> string \<Rightarrow> plan_state \<Rightarrow> plan_state" where
  "write_entry e r content s =
     s\<lparr>ps_apply := ps_apply s @ [r], ps_add_ops := ps_add_ops s @ [planned (Write content) (ce_path e) r]\<rparr>"

definition try_text_merge :: "merge_env \<Rightarrow> string \<Rightarrow> string \<Rightarrow> string \<Rightarrow> string option" where
  "try_text_merge env base ours theirs =
     (case (en_decode env base, en_decode env ours, en_decode env theirs) of
        (Some b, Some x, Some y) \<Rightarrow> map_option (en_encode env) (merge3 b x y)
      | _ \<Rightarrow> None)"

definition hook_result :: "merge_env \<Rightarrow> string \<Rightarrow> string option" where
  "hook_result env p =
     (case en_merger env of
        None \<Rightarrow> None
      | Some merger \<Rightarrow> merger p (read_regular_bytes (en_base env) p) (read_regular_bytes (en_source env) p)
                         (read_regular_bytes (en_fork env) p))"

text \<open>The text merge applies when both sides modified a file that is regular in all three trees.\<close>

definition text_sides :: "merge_env \<Rightarrow> source_side \<Rightarrow> changeset_entry \<Rightarrow> (string \<times> string \<times> string) option" where
  "text_sides env side e =
     (if ce_change e = ''modified'' \<and> map_of (fst side) (ce_path e) = Some ''modified''
      then (case (read_regular_bytes (en_base env) (ce_path e), read_regular_bytes (en_source env) (ce_path e),
                  read_regular_bytes (en_fork env) (ce_path e)) of
              (Some b, Some s, Some f) \<Rightarrow> Some (b, s, f)
            | _ \<Rightarrow> None)
      else None)"

definition resolve_conflict :: "merge_env \<Rightarrow> source_side \<Rightarrow> changeset_entry \<Rightarrow> plan_state \<Rightarrow> plan_state" where
  "resolve_conflict env side e s =
     (case hook_result env (ce_path e) of
        Some merged \<Rightarrow> write_entry e (report_entry e ''applied'' None (ce_renamed_from e) True) merged s
      | None \<Rightarrow>
          if en_policy env = ''prefer_fork''
          then apply_entry env e (report_entry e ''applied'' (Some ''source_changed'') (ce_renamed_from e) False) s
          else if en_policy env = ''prefer_source''
          then s\<lparr>ps_skipped := ps_skipped s @ [report_entry e ''skipped'' (Some ''source_changed'') (ce_renamed_from e) False]\<rparr>
          else
            case (if en_policy env = ''text_merge'' then text_sides env side e else None) of
              Some (b, x, y) \<Rightarrow>
                (case try_text_merge env b x y of
                   Some merged \<Rightarrow> write_entry e (report_entry e ''applied'' None None True) merged s
                 | None \<Rightarrow> s\<lparr>ps_conflicted := ps_conflicted s
                              @ [report_entry e ''conflicted'' (Some ''unresolved_text'') None False]\<rparr>)
            | None \<Rightarrow> s\<lparr>ps_conflicted := ps_conflicted s
                         @ [report_entry e ''conflicted'' (Some ''source_changed'') (ce_renamed_from e) False]\<rparr>)"

definition plan_entry :: "merge_env \<Rightarrow> source_side \<Rightarrow> changeset_entry \<Rightarrow> plan_state \<Rightarrow> plan_state" where
  "plan_entry env side e s =
     (if ignored (ce_path e) (en_ignore env)
      then s\<lparr>ps_skipped := ps_skipped s @ [report_entry e ''skipped'' (Some ''ignored'') (ce_renamed_from e) False]\<rparr>
      else if ce_change e = ''modified'' \<and> is_dir_no_follow (en_fork env) (ce_path e)
      then s\<lparr>ps_skipped := ps_skipped s @ [report_entry e ''skipped'' (Some ''dir_touch'') None False]\<rparr>
      else if \<not> in_conflict side e
      then apply_entry env e (report_entry e ''applied'' None (ce_renamed_from e) False) s
      else resolve_conflict env side e s)"

definition op_key :: "planned_op \<Rightarrow> nat \<times> string" where
  "op_key op = (depth (op_path op), op_path op)"

text \<open>\<open>sort(reverse=True)\<close> keeps equal elements in order.\<close>

definition sort_reverse :: "('a \<Rightarrow> 'k :: linorder) \<Rightarrow> 'a list \<Rightarrow> 'a list" where
  "sort_reverse f xs = rev (sort_key f (rev xs))"

definition plan_merge :: "merge_env \<Rightarrow> changeset_entry list \<Rightarrow> changeset_entry list \<Rightarrow> merge_plan res" where
  "plan_merge env fork_entries source_entries =
     (if en_policy env \<notin> set merge_policies then Inl ValueError
      else
        let side = source_changes env source_entries;
            s = fold (plan_entry env side) (sort_key ce_path fork_entries)
                  \<lparr>ps_skipped = [], ps_conflicted = [], ps_apply = [], ps_remove_ops = [], ps_add_ops = []\<rparr>;
            aborted = (ps_conflicted s \<noteq> [] \<and> en_policy env \<in> {''fail_fast'', ''text_merge''})
        in Inr \<lparr>mp_ops = (if aborted then []
                         else sort_reverse op_key (ps_remove_ops s) @ sort_key op_key (ps_add_ops s)),
                mp_entries_to_apply = ps_apply s, mp_conflicted = ps_conflicted s, mp_skipped = ps_skipped s,
                mp_aborted = aborted\<rparr>)"

section \<open>Application\<close>

definition is_directory :: "node option \<Rightarrow> bool" where
  "is_directory n = (case n of Some (Directory _) \<Rightarrow> True | _ \<Rightarrow> False)"

definition is_regular :: "node option \<Rightarrow> bool" where
  "is_regular n = (case n of Some (Regular _ _) \<Rightarrow> True | _ \<Rightarrow> False)"

text \<open>What the trees do not tell: the attributes of newly made nodes, whether pipes, sockets or devices lie below a
  path, and the attributes of the file a symbolic link of the fork leads to on the host.\<close>

record host_view =
  hv_new :: node_attrs
  hv_irregular :: "tree \<Rightarrow> string list \<Rightarrow> bool"
  hv_link_stat :: "string list \<Rightarrow> node_attrs option"

definition without_irregular :: "tree \<Rightarrow> tree" where
  "without_irregular t = (\<lambda>q. case t q of Some (Fifo _) \<Rightarrow> None | Some (Special _) \<Rightarrow> None | n \<Rightarrow> n)"

text \<open>A path and all below it taken out, or taken from another tree.\<close>

definition cut_below :: "string list \<Rightarrow> tree \<Rightarrow> tree" where
  "cut_below p t = (\<lambda>q. if prefix p q then None else t q)"

definition graft :: "string list \<Rightarrow> tree \<Rightarrow> tree \<Rightarrow> tree" where
  "graft p f t = (\<lambda>q. if prefix p q then f q else t q)"

text \<open>\<open>rmdir\<close> or \<open>rmtree\<close> of a directory, \<open>unlink\<close> of anything else.\<close>

definition remove_path :: "string list \<Rightarrow> tree \<Rightarrow> tree" where
  "remove_path p t = (if t p = None then t else cut_below p t)"

text \<open>\<open>dest.parent.mkdir(parents=True, exist_ok=True)\<close>; new directories get the default attributes.\<close>

definition mkdir_parents :: "host_view \<Rightarrow> string list \<Rightarrow> (tree, unit) act" where
  "mkdir_parents hv p t =
     (if list_ex (\<lambda>i. t (take i p) \<noteq> None \<and> \<not> is_directory (t (take i p))) [0..<length p] then (Inl OSError, t)
      else (Inr (), \<lambda>q. if strict_prefix q p \<and> t q = None then Some (Directory (hv_new hv)) else t q))"

text \<open>\<open>_copy_node\<close>: sockets and devices are skipped, after the old node was cleared away.\<close>

definition copy_node :: "tree \<Rightarrow> string list \<Rightarrow> (tree, unit) act" where
  "copy_node fork p t =
     (case fork p of
        None \<Rightarrow> (Inl FileNotFoundError, t)
      | Some (Directory a) \<Rightarrow>
          (Inr (), (if is_directory (t p) then t else remove_path p t)(p \<mapsto> Directory a))
      | Some n \<Rightarrow>
          let t1 = (if is_regular (t p) \<and> is_regular (Some n) then t else remove_path p t) in
          (Inr (), case n of Special _ \<Rightarrow> t1 | _ \<Rightarrow> t1(p \<mapsto> n)))"

text \<open>\<open>shutil.copytree\<close> with the walk that copies owners: a pipe, socket or device below makes it raise when
  everything else has been copied.\<close>

definition copy_below :: "host_view \<Rightarrow> tree \<Rightarrow> string list \<Rightarrow> (tree, unit) act" where
  "copy_below hv src p t =
     (if hv_irregular hv src p then (Inl OSError, graft p (without_irregular src) t) else (Inr (), graft p src t))"

definition copy_tree :: "host_view \<Rightarrow> tree \<Rightarrow> string list \<Rightarrow> (tree, unit) act" where
  "copy_tree hv fork p t =
     (let t1 = remove_path p t in
      if fork p = None then (Inl FileNotFoundError, t1)
      else if \<not> is_directory (fork p) then (Inl OSError, t1)
      else copy_below hv fork p t1)"

text \<open>\<open>_copy_stat_owner\<close> onto a regular file.  From a symbolic link, mode and time are those of the link's target, for
  \<open>copystat\<close> does not follow only if both sides are links; the owner is the link's.\<close>

definition copy_stat_owner :: "host_view \<Rightarrow> string list \<Rightarrow> node \<Rightarrow> node_attrs res" where
  "copy_stat_owner hv q n =
     (case n of
        Regular a _ \<Rightarrow> Inr a | Directory a \<Rightarrow> Inr a | Fifo a \<Rightarrow> Inr a | Special a \<Rightarrow> Inr a
      | Symlink uid gid _ \<Rightarrow>
          (case hv_link_stat hv q of
             None \<Rightarrow> Inl FileNotFoundError
           | Some a \<Rightarrow> Inr (a\<lparr>na_uid := uid, na_gid := gid\<rparr>)))"

definition write_node :: "host_view \<Rightarrow> tree \<Rightarrow> string \<Rightarrow> string \<Rightarrow> string list \<Rightarrow> (tree, unit) act" where
  "write_node hv fork cpath content p t =
     (let t1 = (if t p \<noteq> None \<and> \<not> is_regular (t p) then remove_path p t else t);
          a = (case t1 p of Some (Regular a _) \<Rightarrow> a | _ \<Rightarrow> hv_new hv);
          t2 = t1(p \<mapsto> Regular a content)
      in case host_path fork cpath of
           Inl e \<Rightarrow> (Inl e, t2)
         | Inr q \<Rightarrow>
             (case fork q of
                None \<Rightarrow> (Inr (), t2)
              | Some n \<Rightarrow>
                  (case copy_stat_owner hv q n of
                     Inl e \<Rightarrow> (Inl e, t2)
                   | Inr a' \<Rightarrow> (Inr (), t2(p \<mapsto> Regular a' content)))))"

definition apply_op :: "host_view \<Rightarrow> tree \<Rightarrow> planned_op \<Rightarrow> (tree, unit) act" where
  "apply_op hv fork op t =
     (case host_path t (op_path op) of
        Inl e \<Rightarrow> (Inl e, t)
      | Inr p \<Rightarrow>
          (case op_kind op of
             Remove \<Rightarrow> (Inr (), remove_path p t)
           | Write content \<Rightarrow>
               act_bind (mkdir_parents hv p) (\<lambda>_. write_node hv fork (op_path op) content p) t
           | CopyTree \<Rightarrow>
               act_bind (mkdir_parents hv p) (\<lambda>_ t1.
                 case host_path fork (op_path op) of Inl e \<Rightarrow> (Inl e, t1) | Inr q \<Rightarrow> copy_tree hv fork p t1) t
           | Copy \<Rightarrow>
               act_bind (mkdir_parents hv p) (\<lambda>_ t1.
                 case host_path fork (op_path op) of Inl e \<Rightarrow> (Inl e, t1) | Inr q \<Rightarrow> copy_node fork p t1) t))"

section \<open>Rollback\<close>

definition restore_node :: "host_view \<Rightarrow> tree \<Rightarrow> string list \<Rightarrow> (tree, unit) act" where
  "restore_node hv snap p =
     act_bind (mkdir_parents hv p) (\<lambda>_ t.
       case snap p of
         None \<Rightarrow> (Inl FileNotFoundError, t)
       | Some (Directory a) \<Rightarrow> copy_below hv snap p t
       | Some (Special a) \<Rightarrow> (Inr (), t)
       | Some n \<Rightarrow> (Inr (), t(p \<mapsto> n)))"

text \<open>The loop of \<open>_undo\<close> over the reversed list of touched paths; it returns the paths that could not be restored.\<close>

fun undo_paths :: "host_view \<Rightarrow> tree \<Rightarrow> string list \<Rightarrow> tree \<Rightarrow> string list \<times> tree" where
  "undo_paths hv snap [] t = ([], t)"
| "undo_paths hv snap (cp # cps) t =
     (case (host_path t cp, host_path snap cp) of
        (Inr p, Inr q) \<Rightarrow>
          (let t1 = remove_path p t in
           if snap q = None then undo_paths hv snap cps t1
           else case restore_node hv snap p t1 of
                  (Inr _, t2) \<Rightarrow> undo_paths hv snap cps t2
                | (Inl _, t2) \<Rightarrow> (case undo_paths hv snap cps t2 of (errs, t3) \<Rightarrow> (cp # errs, t3)))
      | _ \<Rightarrow> undo_paths hv snap cps t)"

text \<open>\<open>apply_plan\<close>.  Any operation may also be hit by an error of the host: \<open>fault\<close> gives the error and the tree it
  leaves.  The result of a failure is the failing path and whether the rollback was clean.\<close>

fun apply_ops ::
  "host_view \<Rightarrow> (planned_op \<Rightarrow> tree \<Rightarrow> (py_error \<times> tree) option) \<Rightarrow> tree \<Rightarrow> tree
     \<Rightarrow> string list \<Rightarrow> planned_op list \<Rightarrow> tree \<Rightarrow> (string \<times> bool) option \<times> tree" where
  "apply_ops hv fault fork snap touched [] t = (None, t)"
| "apply_ops hv fault fork snap touched (op # ops) t =
     (let touched' = touched @ [op_path op] in
      case (case fault op t of Some (e, t1) \<Rightarrow> (Inl e, t1) | None \<Rightarrow> apply_op hv fork op t) of
        (Inr _, t1) \<Rightarrow> apply_ops hv fault fork snap touched' ops t1
      | (Inl _, t1) \<Rightarrow>
          (case undo_paths hv snap (rev touched') t1 of (errs, t2) \<Rightarrow> (Some (op_path op, errs = []), t2)))"

definition apply_plan ::
  "host_view \<Rightarrow> (planned_op \<Rightarrow> tree \<Rightarrow> (py_error \<times> tree) option) \<Rightarrow> tree \<Rightarrow> tree
     \<Rightarrow> merge_plan \<Rightarrow> tree \<Rightarrow> (string \<times> bool) option \<times> tree" where
  "apply_plan hv fault fork snap plan t = apply_ops hv fault fork snap [] (mp_ops plan) t"

end
