(* ===== verification/Merge_Safety.thy ===== *)
theory Merge_Safety
  imports Merging
begin

text \<open>
  What the filesystem merge guarantees: a plan accounts for every change of the fork and, unless told otherwise,
  touches nothing the source changed; and a merge that fails is undone.
\<close>

section \<open>Plans\<close>

text \<open>An operation that destroys nothing of the source's, or writes the merge of the three texts.\<close>

definition respects_source :: "source_side \<Rightarrow> planned_op \<Rightarrow> bool" where
  "respects_source side op =
     (\<not> source_touched side (op_path op) \<and> (op_kind op = Remove \<longrightarrow> \<not> source_changed_under side (op_path op)))"

definition writes_text_merge :: "merge_env \<Rightarrow> planned_op \<Rightarrow> bool" where
  "writes_text_merge env op =
     (\<exists>b x y c. read_regular_bytes (en_base env) (op_path op) = Some b
        \<and> read_regular_bytes (en_source env) (op_path op) = Some x
        \<and> read_regular_bytes (en_fork env) (op_path op) = Some y
        \<and> op_kind op = Write c \<and> try_text_merge env b x y = Some c)"

definition op_allowed :: "merge_env \<Rightarrow> source_side \<Rightarrow> planned_op \<Rightarrow> bool" where
  "op_allowed env side op =
     (en_merger env = None \<and> en_policy env \<noteq> ''prefer_fork'' \<longrightarrow>
        respects_source side op \<or> en_policy env = ''text_merge'' \<and> writes_text_merge env op)"

definition plan_ok :: "merge_env \<Rightarrow> source_side \<Rightarrow> string multiset \<Rightarrow> plan_state \<Rightarrow> bool" where
  "plan_ok env side ps s =
     (mset (map me_path (ps_apply s @ ps_conflicted s @ ps_skipped s)) = ps
      \<and> (\<forall>r \<in> set (ps_apply s). me_resolution r = ''applied'')
      \<and> (\<forall>op \<in> set (ps_remove_ops s) \<union> set (ps_add_ops s). op_entry op \<in> set (ps_apply s) \<and> op_allowed env side op))"

lemma report_entry_fields [simp]:
  "me_path (report_entry e res reason ren m) = ce_path e" "me_resolution (report_entry e res reason ren m) = res"
  by (simp_all add: report_entry_def)

lemma planned_fields [simp]:
  "op_kind (planned k p r) = k" "op_path (planned k p r) = p" "op_entry (planned k p r) = r"
  by (simp_all add: planned_def)

lemma plan_ok_skip:
  assumes "plan_ok env side ps s" "me_path r = p"
  shows "plan_ok env side (add_mset p ps) (s\<lparr>ps_skipped := ps_skipped s @ [r]\<rparr>)"
    and "plan_ok env side (add_mset p ps) (s\<lparr>ps_conflicted := ps_conflicted s @ [r]\<rparr>)"
  using assms by (simp_all add: plan_ok_def)

lemma plan_ok_ops:
  assumes "plan_ok env side ps s" "me_path r = p" "me_resolution r = ''applied''"
    and "\<forall>op \<in> set rem \<union> set add. op_entry op = r \<and> op_allowed env side op"
  shows "plan_ok env side (add_mset p ps)
     (s\<lparr>ps_apply := ps_apply s @ [r], ps_remove_ops := ps_remove_ops s @ rem, ps_add_ops := ps_add_ops s @ add\<rparr>)"
  using assms by (auto simp: plan_ok_def)

lemma apply_entry_ops:
  "apply_entry env e r s =
     s\<lparr>ps_apply := ps_apply s @ [r],
       ps_remove_ops := ps_remove_ops s @ (if ce_change e = ''removed'' then [planned Remove (ce_path e) r]
          else case rename_source e of None \<Rightarrow> [] | Some old \<Rightarrow> [planned Remove old r]),
       ps_add_ops := ps_add_ops s @ (if ce_change e = ''removed'' then []
          else [planned (if ce_change e = ''renamed'' \<and> is_dir_no_follow (en_fork env) (ce_path e) then CopyTree else Copy) (ce_path e) r])\<rparr>"
  by (simp add: apply_entry_def add_apply_ops_def rename_source_def split: option.split)

lemma plan_ok_apply:
  assumes "plan_ok env side ps s" "me_path r = ce_path e" "me_resolution r = ''applied''"
    and "en_policy env = ''prefer_fork'' \<or> \<not> in_conflict side e"
  shows "plan_ok env side (add_mset (ce_path e) ps) (apply_entry env e r s)"
  unfolding apply_entry_ops
  by (rule plan_ok_ops [OF assms(1-3)])
    (use assms(4) in \<open>auto simp: op_allowed_def respects_source_def in_conflict_def split: option.splits\<close>)

lemma write_entry_ops:
  "write_entry e r content s = s\<lparr>ps_apply := ps_apply s @ [r], ps_remove_ops := ps_remove_ops s @ [],
     ps_add_ops := ps_add_ops s @ [planned (Write content) (ce_path e) r]\<rparr>"
  by (simp add: write_entry_def)

lemma plan_ok_write:
  assumes "plan_ok env side ps s" "me_path r = ce_path e" "me_resolution r = ''applied''"
    and "en_merger env \<noteq> None \<or> en_policy env = ''text_merge'' \<and> writes_text_merge env (planned (Write c) (ce_path e) r)"
  shows "plan_ok env side (add_mset (ce_path e) ps) (write_entry e r c s)"
  unfolding write_entry_ops
  by (rule plan_ok_ops [OF assms(1-3)]) (use assms(4) in \<open>auto simp: op_allowed_def\<close>)

lemma text_sides_read:
  assumes "text_sides env side e = Some (b, x, y)"
  shows "read_regular_bytes (en_base env) (ce_path e) = Some b" "read_regular_bytes (en_source env) (ce_path e) = Some x"
    "read_regular_bytes (en_fork env) (ce_path e) = Some y"
  using assms by (auto simp: text_sides_def split: if_splits option.splits)

lemma plan_ok_conflict:
  assumes "plan_ok env side ps s"
  shows "plan_ok env side (add_mset (ce_path e) ps) (resolve_conflict env side e s)"
proof (cases "hook_result env (ce_path e)")
  case (Some merged)
  then have "en_merger env \<noteq> None" by (auto simp: hook_result_def split: option.splits)
  then show ?thesis using Some by (simp add: resolve_conflict_def plan_ok_write [OF assms])
next
  case none: None
  show ?thesis
  proof (cases "en_policy env = ''prefer_fork'' \<or> en_policy env = ''prefer_source''")
    case True
    then show ?thesis using none by (auto simp: resolve_conflict_def plan_ok_apply [OF assms] plan_ok_skip [OF assms])
  next
    case other: False
    show ?thesis
    proof (cases "if en_policy env = ''text_merge'' then text_sides env side e else None")
      case None
      then show ?thesis using none other by (simp add: resolve_conflict_def plan_ok_skip [OF assms])
    next
      case (Some bxy)
      obtain b x y where bxy: "bxy = (b, x, y)" by (metis prod_cases3)
      have pol: "en_policy env = ''text_merge''" and ts: "text_sides env side e = Some (b, x, y)"
        using Some bxy by (simp_all split: if_splits)
      show ?thesis
      proof (cases "try_text_merge env b x y")
        case None
        then show ?thesis using none other pol ts by (simp add: resolve_conflict_def plan_ok_skip [OF assms])
      next
        case (Some c)
        have "writes_text_merge env (planned (Write c) (ce_path e) r)" for r
          using Some text_sides_read [OF ts] by (simp add: writes_text_merge_def)
        then show ?thesis using none other pol ts Some by (simp add: resolve_conflict_def plan_ok_write [OF assms])
      qed
    qed
  qed
qed

lemma plan_ok_entry:
  assumes "plan_ok env side ps s"
  shows "plan_ok env side (add_mset (ce_path e) ps) (plan_entry env side e s)"
  by (simp add: plan_entry_def plan_ok_skip [OF assms] plan_ok_apply [OF assms] plan_ok_conflict [OF assms])

lemma plan_ok_fold:
  "plan_ok env side ps s \<Longrightarrow> plan_ok env side (ps + mset (map ce_path es)) (fold (plan_entry env side) es s)"
proof (induction es arbitrary: ps s)
  case (Cons e es)
  show ?case using Cons.IH [OF plan_ok_entry [OF Cons.prems, of e]] by simp
qed simp

lemma plan_merge_state:
  assumes "plan_merge env fes ses = Inr plan"
  obtains s where "plan_ok env (source_changes env ses) (mset (map ce_path fes)) s"
    and "mp_entries_to_apply plan = ps_apply s" "mp_conflicted plan = ps_conflicted s" "mp_skipped plan = ps_skipped s"
    and "mp_aborted plan \<longleftrightarrow> ps_conflicted s \<noteq> [] \<and> en_policy env \<in> {''fail_fast'', ''text_merge''}"
    and "mp_aborted plan \<Longrightarrow> mp_ops plan = []"
    and "\<not> mp_aborted plan \<Longrightarrow> set (mp_ops plan) = set (ps_remove_ops s) \<union> set (ps_add_ops s)"
proof -
  let ?init = "\<lparr>ps_skipped = [], ps_conflicted = [], ps_apply = [], ps_remove_ops = [], ps_add_ops = []\<rparr>"
  let ?s = "fold (plan_entry env (source_changes env ses)) (sort_key ce_path fes) ?init"
  have "plan_ok env (source_changes env ses) {#} ?init" by (simp add: plan_ok_def)
  then have ok: "plan_ok env (source_changes env ses) (mset (map ce_path fes)) ?s"
    using plan_ok_fold [of env "source_changes env ses" "{#}" ?init "sort_key ce_path fes"] by (simp add: mset_map)
  show thesis
    by (rule that [of ?s, OF ok])
      (use assms in \<open>auto simp: plan_merge_def Let_def sort_reverse_def split: if_splits\<close>)
qed

text \<open>What the source changed and removed, read off its changes.\<close>

definition counts :: "merge_env \<Rightarrow> changeset_entry \<Rightarrow> bool" where
  "counts env e =
     (\<not> ignored (ce_path e) (en_ignore env) \<and> \<not> (ce_change e = ''modified'' \<and> is_dir_no_follow (en_source env) (ce_path e)))"

definition changed_by :: "merge_env \<Rightarrow> changeset_entry list \<Rightarrow> string \<Rightarrow> bool" where
  "changed_by env es p = (\<exists>e \<in> set es. counts env e \<and> (p = ce_path e \<or> rename_source e = Some p))"

definition removed_by :: "merge_env \<Rightarrow> changeset_entry list \<Rightarrow> string \<Rightarrow> bool" where
  "removed_by env es p =
     (\<exists>e \<in> set es. counts env e \<and> (ce_change e = ''removed'' \<and> p = ce_path e \<or> rename_source e = Some p))"

definition spares_source :: "merge_env \<Rightarrow> changeset_entry list \<Rightarrow> planned_op \<Rightarrow> bool" where
  "spares_source env es op =
     (\<not> changed_by env es (op_path op)
      \<and> (\<forall>r. removed_by env es r \<longrightarrow> \<not> prefix (r @ ''/'') (op_path op))
      \<and> (op_kind op = Remove \<longrightarrow> (\<forall>c. changed_by env es c \<longrightarrow> \<not> prefix (op_path op @ ''/'') c)))"

lemma source_entry_sets:
  "set (map fst (fst (source_entry env e side))) =
     set (map fst (fst side)) \<union> (if counts env e then insert (ce_path e) (set_option (rename_source e)) else {})"
  "set (snd (source_entry env e side)) =
     set (snd side) \<union> (if counts env e then {p. ce_change e = ''removed'' \<and> p = ce_path e} \<union> set_option (rename_source e) else {})"
  by (auto simp: source_entry_def counts_def rename_source_def Let_def dom_update split: prod.splits option.splits)

lemma source_changes_sets:
  "set (map fst (fst (fold (source_entry env) es side))) = set (map fst (fst side)) \<union> {p. changed_by env es p}"
  "set (snd (fold (source_entry env) es side)) = set (snd side) \<union> {p. removed_by env es p}"
proof (induction es arbitrary: side)
  case (Cons e es)
  case 1 show ?case using Cons(1) [of "source_entry env e side"] source_entry_sets(1) [of env e side] by (auto simp: changed_by_def)
  case 2 show ?case using Cons(2) [of "source_entry env e side"] source_entry_sets(2) [of env e side] by (auto simp: removed_by_def)
qed (auto simp: changed_by_def removed_by_def)

lemma respects_source_iff: "respects_source (source_changes env es) op \<longleftrightarrow> spares_source env es op"
  using source_changes_sets [of env es "([], [])"]
  by (auto simp: respects_source_def spares_source_def source_touched_def source_changed_under_def source_changes_def
      list_ex_iff simp del: set_map)

section \<open>Trees\<close>

definition wf_tree :: "tree \<Rightarrow> bool" where
  "wf_tree t = (\<forall>q n. t (q @ [n]) \<noteq> None \<longrightarrow> is_directory (t q))"

text \<open>Trees a rollback can restore: no pipes, sockets or devices.\<close>

definition plain_tree :: "host_view \<Rightarrow> tree \<Rightarrow> bool" where
  "plain_tree hv t = ((\<forall>p. \<not> hv_irregular hv t p) \<and> (\<forall>q n. t q = Some n \<longrightarrow> (\<forall>a. n \<noteq> Fifo a \<and> n \<noteq> Special a)))"

definition parents_made :: "string list \<Rightarrow> tree \<Rightarrow> bool" where
  "parents_made p t = (\<forall>q. strict_prefix q p \<longrightarrow> is_directory (t q))"

lemma is_directory_simps [simp]:
  "is_directory None = False" "is_directory (Some (Directory a))" "\<not> is_directory (Some (Regular a c))"
  "\<not> is_directory (Some (Symlink i g l))" "\<not> is_directory (Some (Fifo a))" "\<not> is_directory (Some (Special a))"
  by (simp_all add: is_directory_def)

lemma is_directory_some: "is_directory n \<Longrightarrow> n \<noteq> None"
  by (cases n) simp_all

lemma strict_snoc [simp]: "strict_prefix q (q @ [n])"
  by (simp add: strict_prefix_def)

lemma wf_treeD: "wf_tree t \<Longrightarrow> t (q @ [n]) \<noteq> None \<Longrightarrow> is_directory (t q)"
  unfolding wf_tree_def by blast

lemma wf_ancestor: "wf_tree t \<Longrightarrow> t q \<noteq> None \<Longrightarrow> strict_prefix p q \<Longrightarrow> is_directory (t p)"
proof (induction q rule: rev_induct)
  case (snoc n q)
  have d: "is_directory (t q)" by (rule wf_treeD [OF snoc.prems(1,2)])
  show ?case
  proof (cases "p = q")
    case False
    then have "strict_prefix p q" using snoc.prems(3) by (auto simp: strict_prefix_def)
    moreover have "t q \<noteq> None" using d by (cases "t q") simp_all
    ultimately show ?thesis using snoc by blast
  qed (use d in simp)
qed simp

lemma wf_below_none: "wf_tree t \<Longrightarrow> \<not> is_directory (t p) \<Longrightarrow> strict_prefix p q \<Longrightarrow> t q = None"
  using wf_ancestor by blast

lemma wf_cut: "wf_tree t \<Longrightarrow> wf_tree (cut_below p t)"
  by (auto simp: wf_tree_def cut_below_def)

lemma remove_path_cut: "wf_tree t \<Longrightarrow> remove_path p t = cut_below p t"
  using wf_below_none [of t p]
  by (auto simp: remove_path_def cut_below_def fun_eq_iff prefix_order.le_less)

lemma wf_graft: "wf_tree t \<Longrightarrow> wf_tree f \<Longrightarrow> parents_made p t \<Longrightarrow> wf_tree (graft p f t)"
  by (auto simp: wf_tree_def graft_def parents_made_def prefix_snoc)

lemma wf_update:
  assumes "wf_tree t" "parents_made p t" "is_directory (Some n) \<or> (\<forall>q. strict_prefix p q \<longrightarrow> t q = None)"
  shows "wf_tree (t(p \<mapsto> n))"
  unfolding wf_tree_def
proof (intro allI impI)
  fix q m assume "(t(p \<mapsto> n)) (q @ [m]) \<noteq> None"
  then consider "q @ [m] = p" | "t (q @ [m]) \<noteq> None" by (auto split: if_splits)
  then show "is_directory ((t(p \<mapsto> n)) q)"
  proof cases
    case 1
    then have "strict_prefix q p" "q \<noteq> p" by auto
    then show ?thesis using assms(2) by (simp add: parents_made_def)
  next
    case 2
    then have "is_directory (t q)" by (rule wf_treeD [OF assms(1)])
    moreover have "q = p \<Longrightarrow> is_directory (Some n)" using assms(3) 2 by (metis strict_prefixI')
    ultimately show ?thesis by simp
  qed
qed

lemma take_strict_prefix: "strict_prefix q p \<longleftrightarrow> (\<exists>i < length p. q = take i p)"
proof
  assume "strict_prefix q p"
  then show "\<exists>i < length p. q = take i p"
    by (intro exI [of _ "length q"]) (auto simp: strict_prefix_def prefix_def)
next
  assume "\<exists>i < length p. q = take i p"
  then obtain i where i: "i < length p" "q = take i p" by blast
  then have "prefix q p" "length q < length p" by (simp_all add: take_is_prefix)
  then show "strict_prefix q p" by (auto simp: strict_prefix_def)
qed

lemma mkdir_parents_cases:
  "mkdir_parents hv p t =
     (if \<exists>q. strict_prefix q p \<and> t q \<noteq> None \<and> \<not> is_directory (t q) then (Inl OSError, t)
      else (Inr (), \<lambda>q. if strict_prefix q p \<and> t q = None then Some (Directory (hv_new hv)) else t q))"
proof -
  have "(\<exists>i < length p. P (take i p)) = (\<exists>q. strict_prefix q p \<and> P q)" for P
    by (auto simp: take_strict_prefix)
  from this [of "\<lambda>q. t q \<noteq> None \<and> \<not> is_directory (t q)"] show ?thesis
    by (simp add: mkdir_parents_def list_ex_iff Bex_def)
qed

lemma mkdir_parents_ok:
  assumes "mkdir_parents hv p t = (Inr x, t')" and "wf_tree t"
  shows "wf_tree t'" and "parents_made p t'"
    and "t' = (\<lambda>q. if strict_prefix q p \<and> t q = None then Some (Directory (hv_new hv)) else t q)"
proof -
  have all: "\<forall>q. strict_prefix q p \<longrightarrow> t q = None \<or> is_directory (t q)"
    and t': "t' = (\<lambda>q. if strict_prefix q p \<and> t q = None then Some (Directory (hv_new hv)) else t q)"
    using assms(1) by (auto simp: mkdir_parents_cases split: if_splits)
  show "parents_made p t'" using all by (auto simp: t' parents_made_def)
  have "is_directory (t' q)" if "t' (q @ [n]) \<noteq> None" for q n
  proof (cases "strict_prefix (q @ [n]) p")
    case True
    then have "strict_prefix q p" by (meson prefix_order.less_trans strict_snoc)
    then show ?thesis using all by (auto simp: t')
  next
    case False
    then have "t (q @ [n]) \<noteq> None" using that by (simp add: t')
    then have "is_directory (t q)" by (rule wf_treeD [OF assms(2)])
    then show ?thesis by (auto simp: t')
  qed
  then show "wf_tree t'" by (simp add: wf_tree_def)
qed (use assms(1) in \<open>auto simp: mkdir_parents_cases split: if_splits\<close>)

lemma mkdir_parents_fail:
  assumes "mkdir_parents hv p t = (Inl e, t')"
  shows "t' = t" and "\<exists>q. strict_prefix q p \<and> t q \<noteq> None \<and> \<not> is_directory (t q)"
  using assms by (auto simp: mkdir_parents_cases split: if_splits)

section \<open>Operations are local\<close>

text \<open>A change below a path, apart from new parent directories.\<close>

definition local_change :: "string list \<Rightarrow> tree \<Rightarrow> tree \<Rightarrow> bool" where
  "local_change p t t' = (wf_tree t' \<and> (\<forall>q. t' q \<noteq> t q \<longrightarrow>
     prefix p q \<or> strict_prefix q p \<and> t q = None \<and> is_directory (t' q)))"

lemma local_refl: "wf_tree t \<Longrightarrow> local_change p t t"
  by (simp add: local_change_def)

lemma local_below:
  assumes "mkdir_parents hv p t = (Inr x, t1)" "wf_tree t" "wf_tree t2" and "\<And>q. \<not> prefix p q \<Longrightarrow> t2 q = t1 q"
  shows "local_change p t t2"
  using assms(3,4) mkdir_parents_ok(3) [OF assms(1,2)] by (auto simp: local_change_def split: if_splits)

lemma wf_remove: "wf_tree t \<Longrightarrow> wf_tree (remove_path p t)"
  by (simp add: remove_path_cut wf_cut)

lemma remove_path_other: "\<not> prefix p q \<Longrightarrow> remove_path p t q = t q"
  by (simp add: remove_path_def cut_below_def)

lemma parents_remove: "parents_made p t \<Longrightarrow> parents_made p (remove_path p t)"
  by (auto simp: parents_made_def remove_path_def cut_below_def)

lemma remove_path_below: "wf_tree t \<Longrightarrow> prefix p q \<Longrightarrow> remove_path p t q = None"
  by (simp add: remove_path_cut cut_below_def)

lemma wf_put:
  assumes "wf_tree t" "parents_made p t" "is_directory (Some n) \<or> \<not> is_directory (t p)"
  shows "wf_tree (t(p \<mapsto> n))"
  using wf_update [OF assms(1,2)] wf_below_none [OF assms(1)] assms(3) by blast

text \<open>The old node cleared away or kept, then the new one put in its place.\<close>

lemma wf_clear_put:
  assumes "wf_tree t" "parents_made p t" and "t1 = t \<and> (is_directory (Some n) \<or> \<not> is_directory (t p)) \<or> t1 = remove_path p t"
  shows "wf_tree (t1(p \<mapsto> n))"
  using assms(3)
proof
  assume "t1 = t \<and> (is_directory (Some n) \<or> \<not> is_directory (t p))"
  then show ?thesis using wf_put [OF assms(1,2), of n] by simp
next
  assume t1: "t1 = remove_path p t"
  have "\<not> is_directory (remove_path p t p)" using remove_path_below [OF assms(1), of p p] by simp
  then show ?thesis unfolding t1 using wf_put [OF wf_remove [OF assms(1)] parents_remove [OF assms(2)], of n] by blast
qed

lemma is_regular_not_dir: "is_regular n \<Longrightarrow> \<not> is_directory n"
  by (auto simp: is_regular_def is_directory_def split: option.splits node.splits)

lemma copy_node_wf:
  assumes "copy_node fork p t = (r, t')" "wf_tree t" "parents_made p t"
  shows "wf_tree t' \<and> (\<forall>q. \<not> prefix p q \<longrightarrow> t' q = t q)"
proof -
  have "wf_tree ((if is_directory (t p) then t else remove_path p t)(p \<mapsto> Directory a))" for a
    using wf_clear_put [OF assms(2,3)] by simp
  moreover have "wf_tree ((if is_regular (t p) \<and> b then t else remove_path p t)(p \<mapsto> n))" for b n
    using wf_clear_put [OF assms(2,3)] is_regular_not_dir by simp
  moreover have "(if b then t else remove_path p t) q = t q" if "\<not> prefix p q" for b q
    using that by (simp add: remove_path_other)
  moreover have "wf_tree (if b then t else remove_path p t)" for b using assms(2) wf_remove by simp
  ultimately show ?thesis
    using assms(1,2) by (auto simp: copy_node_def Let_def split: option.splits node.splits)
qed

lemma wf_without: "wf_tree t \<Longrightarrow> wf_tree (without_irregular t)"
  unfolding wf_tree_def
proof (intro allI impI)
  fix q n assume wf: "\<forall>q n. t (q @ [n]) \<noteq> None \<longrightarrow> is_directory (t q)" and "without_irregular t (q @ [n]) \<noteq> None"
  then have "t (q @ [n]) \<noteq> None" by (cases "t (q @ [n])") (auto simp: without_irregular_def)
  then have "is_directory (t q)" using wf by blast
  then show "is_directory (without_irregular t q)"
    by (auto simp: is_directory_def without_irregular_def split: option.splits node.splits)
qed

lemma copy_tree_wf:
  assumes "copy_tree hv fork p t = (r, t')" "wf_tree t" "parents_made p t" "wf_tree fork"
  shows "wf_tree t' \<and> (\<forall>q. \<not> prefix p q \<longrightarrow> t' q = t q)"
proof -
  have "wf_tree (graft p f (remove_path p t))" if "wf_tree f" for f
    by (rule wf_graft [OF wf_remove [OF assms(2)] that parents_remove [OF assms(3)]])
  then have "wf_tree t'"
    using assms(1) wf_remove [OF assms(2)] assms(4) wf_without [OF assms(4)]
    by (auto simp: copy_tree_def copy_below_def Let_def split: if_splits)
  moreover have "t' q = t q" if "\<not> prefix p q" for q
    using assms(1) that by (auto simp: copy_tree_def copy_below_def Let_def graft_def remove_path_other split: if_splits)
  ultimately show ?thesis by blast
qed

lemma write_node_wf:
  assumes "write_node hv fork cp content p t = (r, t')" "wf_tree t" "parents_made p t"
  shows "wf_tree t' \<and> (\<forall>q. \<not> prefix p q \<longrightarrow> t' q = t q)"
proof -
  let ?t1 = "if t p \<noteq> None \<and> \<not> is_regular (t p) then remove_path p t else t"
  have "t p = None \<or> is_regular (t p) \<Longrightarrow> \<not> is_directory (t p)" using is_regular_not_dir by auto
  then have "wf_tree (?t1(p \<mapsto> n))" for n using wf_clear_put [OF assms(2,3)] by auto
  moreover have "?t1 q = t q" if "\<not> prefix p q" for q using that by (simp add: remove_path_other)
  ultimately show ?thesis
    using assms(1) by (auto simp: write_node_def Let_def split: sum.splits option.splits)
qed

lemma apply_op_local:
  assumes "apply_op hv fork op t = (r, t')" "wf_tree t" "wf_tree fork"
  shows "t' = t \<or> (\<exists>p. host_path t (op_path op) = Inr p \<and> local_change p t t')"
proof (cases "host_path t (op_path op)")
  case (Inl e)
  then show ?thesis using assms(1) by (simp add: apply_op_def)
next
  case p: (Inr p)
  have *: "local_change p t t2" if "act_bind (mkdir_parents hv p) f t = (r2, t2)"
    and f: "\<And>t1 r2 t2. f () t1 = (r2, t2) \<Longrightarrow> wf_tree t1 \<Longrightarrow> parents_made p t1 \<Longrightarrow> wf_tree t2 \<and> (\<forall>q. \<not> prefix p q \<longrightarrow> t2 q = t1 q)"
    for f r2 t2
  proof (cases "mkdir_parents hv p t")
    case (Pair x t1)
    show ?thesis
    proof (cases x)
      case (Inl e)
      then have m: "mkdir_parents hv p t = (Inl e, t1)" using Pair by simp
      then have "t2 = t" using that(1) mkdir_parents_fail(1) [OF m] by (simp add: act_bind_def)
      then show ?thesis using local_refl [OF assms(2)] by simp
    next
      case (Inr u)
      then have m: "mkdir_parents hv p t = (Inr u, t1)" using Pair by simp
      have "f () t1 = (r2, t2)" using that(1) m by (simp add: act_bind_def)
      then show ?thesis using f mkdir_parents_ok [OF m assms(2)] local_below [OF m assms(2)] by blast
    qed
  qed
  have "local_change p t t'"
  proof (cases "op_kind op")
    case Remove
    then show ?thesis
      using assms(1) p wf_remove [OF assms(2)] remove_path_other [of p _ t] by (auto simp: apply_op_def local_change_def)
  next
    case (Write content)
    then show ?thesis using assms(1) p by (auto simp: apply_op_def intro!: * dest: write_node_wf)
  next
    case CopyTree
    let ?f = "\<lambda>_ t1. case host_path fork (op_path op) of Inl e \<Rightarrow> (Inl e, t1) | Inr q \<Rightarrow> copy_tree hv fork p t1"
    have "act_bind (mkdir_parents hv p) ?f t = (r, t')" using assms(1) p CopyTree by (simp add: apply_op_def)
    then show ?thesis
    proof (rule *)
      fix t1 r2 t2 assume "?f () t1 = (r2, t2)" "wf_tree t1" "parents_made p t1"
      then show "wf_tree t2 \<and> (\<forall>q. \<not> prefix p q \<longrightarrow> t2 q = t1 q)"
        using copy_tree_wf [OF _ _ _ assms(3)] by (cases "host_path fork (op_path op)") (simp, metis sum.simps(6))
    qed
  next
    case Copy
    let ?f = "\<lambda>_ t1. case host_path fork (op_path op) of Inl e \<Rightarrow> (Inl e, t1) | Inr q \<Rightarrow> copy_node fork p t1"
    have "act_bind (mkdir_parents hv p) ?f t = (r, t')" using assms(1) p Copy by (simp add: apply_op_def)
    then show ?thesis
    proof (rule *)
      fix t1 r2 t2 assume "?f () t1 = (r2, t2)" "wf_tree t1" "parents_made p t1"
      then show "wf_tree t2 \<and> (\<forall>q. \<not> prefix p q \<longrightarrow> t2 q = t1 q)"
        using copy_node_wf by (cases "host_path fork (op_path op)") (simp, metis sum.simps(6))
    qed
  qed
  then show ?thesis using p by blast
qed

section \<open>Host paths\<close>

text \<open>A container path without dot parts, and what its mapping onto a tree depends on.\<close>

definition dotless :: "string \<Rightarrow> bool" where
  "dotless cp = (''.'' \<notin> set (path_parts cp))"

definition mappable :: "string \<Rightarrow> bool" where
  "mappable cp = (path_parts cp \<noteq> [] \<and> ''..'' \<notin> set (path_parts cp))"

lemma walk_parts_result:
  assumes "''.'' \<notin> set ps"
  shows "walk_parts t cur ps =
     (if ps \<noteq> [] \<and> ''..'' \<notin> set ps \<and> (\<forall>i. 0 < i \<and> i < length ps \<longrightarrow> \<not> is_symlink t (cur @ take i ps))
      then Inr (cur @ ps) else Inl ValueError)"
  using assms
proof (induction t cur ps rule: walk_parts.induct)
  case (3 t cur part q parts)
  have cur': "join_part cur part = cur @ [part]" using 3(2) by (auto simp: join_part_def)
  have "(\<forall>i. 0 < i \<and> i < length (part # q # parts) \<longrightarrow> \<not> is_symlink t (cur @ take i (part # q # parts)))
      \<longleftrightarrow> \<not> is_symlink t (cur @ [part])
        \<and> (\<forall>i. 0 < i \<and> i < length (q # parts) \<longrightarrow> \<not> is_symlink t ((cur @ [part]) @ take i (q # parts)))"
    (is "?l = ?r")
  proof
    assume l: ?l
    show ?r using l [rule_format, of 1] l [rule_format, of "Suc _"] by simp
  next
    assume r: ?r
    show ?l
    proof (intro allI impI)
      fix i assume "0 < i \<and> i < length (part # q # parts)"
      then show "\<not> is_symlink t (cur @ take i (part # q # parts))" using r by (cases i; cases "i = 1") auto
    qed
  qed
  then show ?case using 3 cur' by (auto simp: Let_def)
qed (auto simp: join_part_def)

lemma host_path_result:
  assumes "dotless cp"
  shows "host_path t cp = (if mappable cp \<and> (\<forall>q. q \<noteq> [] \<and> strict_prefix q (path_parts cp) \<longrightarrow> \<not> is_symlink t q)
     then Inr (path_parts cp) else Inl ValueError)"
proof -
  have "(\<forall>i. 0 < i \<and> i < length p \<longrightarrow> P (take i p)) = (\<forall>q. q \<noteq> [] \<and> strict_prefix q p \<longrightarrow> P q)" for P and p :: "string list"
    by (auto simp: take_strict_prefix) (metis gr_implies_not0 length_0_conv neq0_conv take_eq_Nil)
  from this [of "path_parts cp" "\<lambda>q. \<not> is_symlink t q"] show ?thesis
    using assms walk_parts_result [of "path_parts cp" t "[]"] by (auto simp: host_path_def dotless_def mappable_def)
qed

section \<open>The rollback\<close>

text \<open>Where a tree may differ from the snapshot: below the paths still to be undone, and at directories that
  were made on the way to a touched path.\<close>

definition differs_in :: "tree \<Rightarrow> tree \<Rightarrow> string list set \<Rightarrow> string list set \<Rightarrow> bool" where
  "differs_in t u open_paths touched = (\<forall>q. t q \<noteq> u q \<longrightarrow>
     (\<exists>p \<in> open_paths. prefix p q) \<or> u q = None \<and> is_directory (t q) \<and> (\<exists>p \<in> touched. strict_prefix q p))"

lemma differs_inD:
  assumes "differs_in t u op T" "t q \<noteq> u q"
  obtains (opened) p where "p \<in> op" "prefix p q"
  | (made) p where "u q = None" "is_directory (t q)" "p \<in> T" "strict_prefix q p"
  using assms unfolding differs_in_def by blast

lemma local_changeE:
  assumes "local_change p t t'"
  obtains (below) "prefix p q" | (same) "t' q = t q" | (parent) "strict_prefix q p" "t q = None" "is_directory (t' q)"
  using assms [unfolded local_change_def, THEN conjunct2, THEN spec [of _ q]] by metis

lemma differs_local:
  assumes "differs_in t u op T" "local_change p t t'" "p \<in> T"
  shows "differs_in t' u (insert p op) T"
  unfolding differs_in_def
proof (intro allI impI)
  fix q assume d: "t' q \<noteq> u q"
  from assms(2) show "(\<exists>p' \<in> insert p op. prefix p' q) \<or> u q = None \<and> is_directory (t' q) \<and> (\<exists>p \<in> T. strict_prefix q p)"
  proof (cases rule: local_changeE [where q = q])
    case same
    then have "t q \<noteq> u q" using d by simp
    with assms(1) show ?thesis
    proof (cases rule: differs_inD)
      case (opened p')
      then show ?thesis by blast
    next
      case (made p')
      then show ?thesis unfolding same by blast
    qed
  next
    case parent
    show ?thesis
    proof (cases "u q = None")
      case True
      then show ?thesis using parent assms(3) by blast
    next
      case False
      then have "t q \<noteq> u q" using parent(2) by auto
      with assms(1) show ?thesis
      proof (cases rule: differs_inD)
        case (opened p')
        then show ?thesis by blast
      qed (use False in simp)
    qed
  qed simp
qed

text \<open>One turn of the rollback: afterwards only the remaining paths are open.\<close>

lemma open_ancestor:
  assumes "differs_in t u op T" "t a \<noteq> u a" "u a \<noteq> None \<or> \<not> is_directory (t a)" "prefix a p"
  shows "\<exists>p' \<in> op. prefix p' p"
  using assms(1,2)
proof (cases rule: differs_inD)
  case (opened p')
  then show ?thesis using prefix_order.trans [OF _ assms(4)] by blast
qed (use assms(3) in simp)

lemma differs_insert:
  assumes "differs_in t u (insert p op) T" "\<not> prefix p q" "t q \<noteq> u q"
  shows "(\<exists>p' \<in> op. prefix p' q) \<or> u q = None \<and> is_directory (t q) \<and> (\<exists>p \<in> T. strict_prefix q p)"
  using assms unfolding differs_in_def by blast

lemma differs_narrow:
  assumes "differs_in t u (insert p op) T" "\<And>q. \<not> prefix p q \<Longrightarrow> t' q = t q"
    and "\<And>q. prefix p q \<Longrightarrow> t' q = u q \<or> (\<exists>p' \<in> op. prefix p' q)"
  shows "differs_in t' u op T"
  unfolding differs_in_def
proof (intro allI impI)
  fix q assume "t' q \<noteq> u q"
  then show "(\<exists>p \<in> op. prefix p q) \<or> u q = None \<and> is_directory (t' q) \<and> (\<exists>p \<in> T. strict_prefix q p)"
    using differs_insert [OF assms(1), of q] assms(2,3) [of q] by (cases "prefix p q") simp_all
qed

lemma undo_mapped:
  assumes "wf_tree t" "wf_tree u" "plain_tree hv u" "differs_in t u (insert p op) T"
    and "t1 = remove_path p t" and "u p = None \<and> t' = t1 \<or> u p \<noteq> None \<and> snd (restore_node hv u p t1) = t'"
  shows "wf_tree t' \<and> differs_in t' u op T"
proof -
  have w1: "wf_tree t1" using wf_remove [OF assms(1)] assms(5) by simp
  have below1: "prefix p q \<Longrightarrow> t1 q = None" for q using remove_path_below [OF assms(1)] assms(5) by simp
  have other1: "\<not> prefix p q \<Longrightarrow> t1 q = t q" for q using remove_path_other assms(5) by simp
  show ?thesis
  proof (cases "u p = None")
    case True
    then have "t' = t1" using assms(6) by simp
    moreover have "prefix p q \<Longrightarrow> u q = None" for q
      using True wf_below_none [OF assms(2), of p q] by (cases "q = p") (auto simp: strict_prefix_def)
    ultimately show ?thesis using w1 below1 other1 differs_narrow [OF assms(4), of t1] by simp
  next
    case False
    obtain r t2 where m: "mkdir_parents hv p t1 = (r, t2)" by (metis surj_pair)
    have up: "strict_prefix a p \<Longrightarrow> is_directory (u a)" for a using wf_ancestor [OF assms(2) False] by simp
    have anc: "\<exists>p' \<in> op. prefix p' p \<and> prefix p' a" if st: "strict_prefix a p" "t a \<noteq> u a" for a
    proof -
      have le: "prefix a p" "\<not> prefix p a" using st(1) by (auto simp: strict_prefix_def prefix_order.eq_iff)
      have "u a \<noteq> None" by (rule is_directory_some [OF up [OF st(1)]])
      then obtain p' where "p' \<in> op" "prefix p' a" using differs_insert [OF assms(4) le(2) st(2)] by auto
      then show ?thesis using prefix_order.trans [OF _ le(1)] by blast
    qed
    show ?thesis
    proof (cases r)
      case (Inl e)
      then have m': "mkdir_parents hv p t1 = (Inl e, t2)" using m by simp
      have "t' = t1" using assms(6) False m' mkdir_parents_fail(1) [OF m'] by (simp add: restore_node_def act_bind_def)
      moreover obtain a where a: "strict_prefix a p" "\<not> is_directory (t1 a)" using mkdir_parents_fail(2) [OF m'] by blast
      then have "t a \<noteq> u a" using up [OF a(1)] other1 [of a] by (auto simp: strict_prefix_def prefix_order.eq_iff)
      then obtain p' where "p' \<in> op" "prefix p' p" using anc [OF a(1)] by blast
      then have "prefix p q \<Longrightarrow> \<exists>p' \<in> op. prefix p' q" for q using prefix_order.trans by blast
      ultimately show ?thesis using w1 other1 differs_narrow [OF assms(4), of t1] by simp
    next
      case (Inr x)
      then have m': "mkdir_parents hv p t1 = (Inr x, t2)" using m by simp
      note ok = mkdir_parents_ok [OF m' w1]
      obtain n where n: "u p = Some n" using False by blast
      have t2: "t2 q = (if strict_prefix q p \<and> t1 q = None then Some (Directory (hv_new hv)) else t1 q)" for q
        by (simp add: ok(3))
      have "(\<forall>a. n \<noteq> Special a) \<and> \<not> hv_irregular hv u p" using assms(3) n unfolding plain_tree_def by blast
      then have res: "snd (restore_node hv u p t1) = (if is_directory (Some n) then graft p u t2 else t2(p \<mapsto> n))"
        using n m' by (cases n) (auto simp: restore_node_def copy_below_def act_bind_def)
      have "snd (restore_node hv u p t1) = t'" using assms(6) False by blast
      note t' = this [symmetric, unfolded res]
      have t2p: "prefix p q \<Longrightarrow> t2 q = None" for q
        using below1 [of q] t2 [of q] by (auto simp: strict_prefix_def prefix_order.eq_iff)
      then have "\<not> is_directory (t2 p)" by simp
      then have w: "wf_tree t'" unfolding t' using wf_graft [OF ok(1) assms(2) ok(2)] wf_put [OF ok(1,2), of n] by simp
      have same: "t' q = u q" if "prefix p q" for q
      proof (cases "is_directory (Some n)")
        case True
        then show ?thesis using that by (simp add: t' graft_def)
      next
        case nd: False
        show ?thesis
        proof (cases "q = p")
          case True
          then show ?thesis using nd n by (simp add: t')
        next
          case False
          then have "u q = None" using wf_below_none [OF assms(2), of p q] nd n that by (simp add: strict_prefix_def)
          then show ?thesis using nd False t2p [OF that] by (simp add: t')
        qed
      qed
      have else': "t' q = t q \<or> strict_prefix q p \<and> t q = None" if "\<not> prefix p q" for q
      proof -
        have "q \<noteq> p" using that by auto
        then have "t' q = t2 q" using that by (simp add: t' graft_def)
        then show ?thesis using t2 [of q] other1 [OF that] by auto
      qed
      have "(\<exists>p' \<in> op. prefix p' q) \<or> u q = None \<and> is_directory (t' q) \<and> (\<exists>p \<in> T. strict_prefix q p)"
        if d: "t' q \<noteq> u q" for q
      proof -
        have np: "\<not> prefix p q" using same d by blast
        show ?thesis
        proof (cases "t' q = t q")
          case True
          then show ?thesis using differs_insert [OF assms(4) np] d by simp
        next
          case False
          then have sp: "strict_prefix q p" "t q = None" using else' [OF np] by simp_all
          have "t q \<noteq> u q" using is_directory_some [OF up [OF sp(1)]] sp(2) by auto
          then show ?thesis using anc [OF sp(1)] by blast
        qed
      qed
      then show ?thesis using w by (simp add: differs_in_def)
    qed
  qed
qed

text \<open>A path whose mapping fails is skipped: a symbolic link above it hides it in both trees, or the link itself is
  still to be undone.\<close>

lemma symlink_not_directory: "is_symlink t a \<Longrightarrow> t a \<noteq> None \<and> \<not> is_directory (t a)"
  by (auto simp: is_symlink_def split: option.splits node.splits)

lemma undo_skipped:
  assumes "wf_tree t" "wf_tree u" "differs_in t u (insert p op) T"
    and a: "strict_prefix a p" "is_symlink t a \<or> is_symlink u a"
  shows "differs_in t u op T"
proof (rule differs_narrow [OF assms(3)])
  fix q assume pq: "prefix p q"
  then have aq: "strict_prefix a q" by (rule prefix_order.less_le_trans [OF a(1)])
  show "t q = u q \<or> (\<exists>p' \<in> op. prefix p' q)"
  proof (cases "t a = u a")
    case True
    then have "\<not> is_directory (t a)" "\<not> is_directory (u a)"
      using a(2) symlink_not_directory [of t a] symlink_not_directory [of u a] by auto
    then show ?thesis using wf_below_none [OF assms(1) _ aq] wf_below_none [OF assms(2) _ aq] by simp
  next
    case False
    from assms(3) False show ?thesis
    proof (cases rule: differs_inD)
      case (opened p')
      then have "p' \<noteq> p" using prefix_order.less_le_not_le [of a p] a(1) by blast
      then show ?thesis using opened prefix_order.trans [OF _ prefix_order.less_imp_le [OF aq]] by blast
    next
      case (made p')
      then show ?thesis using a(2) symlink_not_directory [of t a] symlink_not_directory [of u a] by blast
    qed
  qed
qed simp

definition open_paths :: "string list \<Rightarrow> string list set" where
  "open_paths cps = path_parts ` {cp \<in> set cps. mappable cp}"

lemma open_paths_simps [simp]:
  "open_paths [] = {}" "\<not> mappable cp \<Longrightarrow> open_paths (cp # cps) = open_paths cps"
  "mappable cp \<Longrightarrow> open_paths (cp # cps) = insert (path_parts cp) (open_paths cps)"
  "open_paths (rev cps) = open_paths cps"
  by (auto simp: open_paths_def)

lemma host_path_fails:
  assumes "dotless cp" "mappable cp" "host_path t cp = Inl e"
  shows "\<exists>a. strict_prefix a (path_parts cp) \<and> is_symlink t a"
  using assms by (auto simp: host_path_result split: if_splits)

lemma host_path_Inr: "dotless cp \<Longrightarrow> host_path t cp = Inr p \<Longrightarrow> mappable cp \<and> p = path_parts cp"
  by (auto simp: host_path_result split: if_splits)

lemma undo_turn:
  assumes "dotless cp" "wf_tree t" "wf_tree u" "plain_tree hv u" "differs_in t u (open_paths (cp # cps)) T"
    and "undo_paths hv u (cp # cps) t = (errs, t')"
  shows "\<exists>t1 errs1. wf_tree t1 \<and> differs_in t1 u (open_paths cps) T \<and> undo_paths hv u cps t1 = (errs1, t')"
proof (cases "\<exists>p q. host_path t cp = Inr p \<and> host_path u cp = Inr q")
  case True
  then obtain p q where h: "host_path t cp = Inr p" "host_path u cp = Inr q" by blast
  then have m: "mappable cp" "p = path_parts cp" "q = p"
    using host_path_Inr [OF assms(1) h(1)] host_path_Inr [OF assms(1) h(2)] by simp_all
  have d: "differs_in t u (insert p (open_paths cps)) T" using assms(5) m by simp
  show ?thesis
  proof (cases "u p = None")
    case True
    then have "undo_paths hv u cps (remove_path p t) = (errs, t')" using assms(6) h m(3) by (simp add: Let_def)
    then show ?thesis using undo_mapped [OF assms(2-4) d refl, of "remove_path p t"] True by blast
  next
    case False
    obtain r t2 where r: "restore_node hv u p (remove_path p t) = (r, t2)" by (metis surj_pair)
    have "\<exists>errs1. undo_paths hv u cps t2 = (errs1, t')"
      using assms(6) h m(3) False r by (auto simp: Let_def split: sum.splits prod.splits)
    then show ?thesis using undo_mapped [OF assms(2-4) d refl, of t2] False r by auto
  qed
next
  case False
  then have rest: "undo_paths hv u cps t = (errs, t')"
    using assms(6) by (cases "host_path t cp"; cases "host_path u cp") auto
  have "differs_in t u (open_paths cps) T"
  proof (cases "mappable cp")
    case True
    then obtain a where "strict_prefix a (path_parts cp)" "is_symlink t a \<or> is_symlink u a"
      using False host_path_fails [OF assms(1) True, of t] host_path_fails [OF assms(1) True, of u]
      by (cases "host_path t cp"; cases "host_path u cp") blast+
    then show ?thesis using undo_skipped [OF assms(2,3), of "path_parts cp"] assms(5) True by simp
  qed (use assms(5) in simp)
  then show ?thesis using rest assms(2) by blast
qed

lemma undo_paths_differs:
  assumes "wf_tree t" "wf_tree u" "plain_tree hv u" "\<forall>cp \<in> set cps. dotless cp" "differs_in t u (open_paths cps) T"
    and "undo_paths hv u cps t = (errs, t')"
  shows "differs_in t' u {} T"
  using assms(1,4,5,6)
proof (induction cps arbitrary: t errs)
  case (Cons cp cps)
  from Cons.prems(2) have "dotless cp" by simp
  from undo_turn [OF this Cons.prems(1) assms(2,3) Cons.prems(3,4)] Cons.IH Cons.prems(2) show ?case by auto
qed simp

text \<open>Errors of the host leave at worst the operation half done.\<close>

definition local_faults :: "(planned_op \<Rightarrow> tree \<Rightarrow> (py_error \<times> tree) option) \<Rightarrow> bool" where
  "local_faults fault = (\<forall>op t e t'. wf_tree t \<longrightarrow> fault op t = Some (e, t') \<longrightarrow>
     t' = t \<or> (\<exists>p. host_path t (op_path op) = Inr p \<and> local_change p t t'))"

lemma open_paths_append: "open_paths (cps @ [cp]) = (if mappable cp then insert (path_parts cp) (open_paths cps) else open_paths cps)"
  by (auto simp: open_paths_def)

lemma differs_open:
  assumes "differs_in t u op T" "dotless cp" "path_parts cp \<in> T" "t' = t \<or> (\<exists>p. host_path t cp = Inr p \<and> local_change p t t')"
    and "op = open_paths cps"
  shows "differs_in t' u (open_paths (cps @ [cp])) T"
proof -
  have "differs_in t u (open_paths (cps @ [cp])) T"
    using assms(1,5) by (auto simp: open_paths_append differs_in_def)
  moreover have "differs_in t' u (open_paths (cps @ [cp])) T" if h: "host_path t cp = Inr p" "local_change p t t'" for p
  proof -
    have p: "mappable cp" "p = path_parts cp" using host_path_Inr [OF assms(2) h(1)] by simp_all
    then show ?thesis using differs_local [OF assms(1) h(2)] assms(3,5) by (simp add: open_paths_append)
  qed
  ultimately show ?thesis using assms(4) by blast
qed

lemma local_step:
  assumes "(case fault op t of Some (e, t1) \<Rightarrow> (Inl e, t1) | None \<Rightarrow> apply_op hv fork op t) = (r, t')"
    and "local_faults fault" "wf_tree t" "wf_tree fork"
  shows "wf_tree t' \<and> (t' = t \<or> (\<exists>p. host_path t (op_path op) = Inr p \<and> local_change p t t'))"
proof -
  have "t' = t \<or> (\<exists>p. host_path t (op_path op) = Inr p \<and> local_change p t t')"
  proof (cases "fault op t")
    case None
    then show ?thesis using assms(1) apply_op_local [OF _ assms(3,4)] by simp
  next
    case (Some et)
    then have "fault op t = Some (fst et, t')" using assms(1) by (cases et) simp
    then show ?thesis using assms(2,3) unfolding local_faults_def by blast
  qed
  then show ?thesis using assms(3) unfolding local_change_def by auto
qed

lemma apply_ops_rollback:
  assumes "wf_tree u" "plain_tree hv u" "wf_tree fork" "local_faults fault"
    and "\<forall>op \<in> set ops. dotless (op_path op) \<and> path_parts (op_path op) \<in> T" "\<forall>cp \<in> set touched. dotless cp"
    and "wf_tree t" "differs_in t u (open_paths touched) T"
    and "apply_ops hv fault fork u touched ops t = (Some failure, t')"
  shows "differs_in t' u {} T"
  using assms(5-9)
proof (induction ops arbitrary: touched t)
  case (Cons op ops)
  let ?touched = "touched @ [op_path op]"
  obtain r t1 where step: "(case fault op t of Some (e, t1) \<Rightarrow> (Inl e, t1) | None \<Rightarrow> apply_op hv fork op t) = (r, t1)"
    by (metis surj_pair)
  have op: "dotless (op_path op)" "path_parts (op_path op) \<in> T" using Cons.prems(1) by simp_all
  note l = local_step [OF step assms(4) Cons.prems(3) assms(3)]
  have d: "differs_in t1 u (open_paths ?touched) T"
    using differs_open [OF Cons.prems(4) op conjunct2 [OF l] refl] .
  have touched: "\<forall>cp \<in> set ?touched. dotless cp" using Cons.prems(2) op by simp
  show ?case
  proof (cases r)
    case (Inr x)
    then have "apply_ops hv fault fork u ?touched ops t1 = (Some failure, t')"
      using Cons.prems(5) step by (simp add: Let_def)
    then show ?thesis using Cons.IH [OF _ touched conjunct1 [OF l] d] Cons.prems(1) by simp
  next
    case (Inl e)
    then obtain errs where "undo_paths hv u (rev ?touched) t1 = (errs, t')"
      using Cons.prems(5) step by (auto simp: Let_def simp del: rev_append split: prod.splits)
    moreover have "differs_in t1 u (open_paths (rev ?touched)) T" unfolding open_paths_simps by (rule d)
    moreover have "\<forall>cp \<in> set (rev ?touched). dotless cp" unfolding set_rev by (rule touched)
    ultimately show ?thesis using undo_paths_differs [OF conjunct1 [OF l] assms(1,2)] by blast
  qed
qed simp

section \<open>Properties\<close>


definition example_attrs :: node_attrs where
  "example_attrs = \<lparr>na_mode = 420, na_uid = 0, na_gid = 0, na_mtime = 0\<rparr>"

definition example_host :: host_view where
  "example_host = \<lparr>hv_new = example_attrs, hv_irregular = (\<lambda>_ _. False), hv_link_stat = (\<lambda>_. None)\<rparr>"

definition example_tree :: "string \<Rightarrow> tree" where
  "example_tree text = [[] \<mapsto> Directory example_attrs, [''k''] \<mapsto> Regular example_attrs text]"

definition example_fork :: tree where
  "example_fork = (example_tree ''new'')([''d''] \<mapsto> Directory example_attrs, [''d'', ''n''] \<mapsto> Regular example_attrs ''x'')"

definition example_op :: "op_kind \<Rightarrow> string \<Rightarrow> planned_op" where
  "example_op k p = planned k p (report_entry \<lparr>ce_path = p, ce_change = ''modified'', ce_renamed_from = None\<rparr> ''applied'' None None False)"

definition example_plan :: merge_plan where
  "example_plan = \<lparr>mp_ops = [example_op Copy ''/d/n'', example_op Copy ''/k''], mp_entries_to_apply = [],
     mp_conflicted = [], mp_skipped = [], mp_aborted = False\<rparr>"

text \<open>The host fails once the old \<open>/k\<close> is gone.\<close>

definition example_fault :: "planned_op \<Rightarrow> tree \<Rightarrow> (py_error \<times> tree) option" where
  "example_fault op t =
     (if op_path op = ''/k''
      then (case host_path t ''/k'' of Inr p \<Rightarrow> Some (OSError, remove_path p t) | Inl e \<Rightarrow> None) else None)"

lemma example_tree_wf: "wf_tree (example_tree text)" and example_fork_wf: "wf_tree example_fork"
  and example_tree_plain: "plain_tree example_host (example_tree text)"
  by (auto simp: wf_tree_def plain_tree_def example_host_def example_tree_def example_fork_def split: if_splits)

lemma example_fault_local: "local_faults example_fault"
  unfolding local_faults_def
proof (intro allI impI)
  fix op t e t' assume "wf_tree t" "example_fault op t = Some (e, t')"
  then show "t' = t \<or> (\<exists>p. host_path t (op_path op) = Inr p \<and> local_change p t t')"
    using wf_remove [of t] remove_path_other [of _ _ t]
    by (auto simp: example_fault_def local_change_def split: if_splits sum.splits)
qed


text \<open>C16.  Safety of the merge plan.  Every change of the fork ends in exactly one of the lists of applied, conflicted
  and skipped entries.  The plan is aborted exactly if a conflict remains and the policy is one that refuses conflicts;
  an aborted plan has no operations.  Every operation belongs to an entry reported as applied.  And unless the caller
  gave a hook or asked to prefer the fork, no operation is at a path the source changed or below one it removed, and none
  removes a path below which the source changed something; under the text policy the one exception is the write of the
  three-way merge of the three versions of the file.\<close>

theorem merge_plan_safe:
  assumes "plan_merge env fork_entries source_entries = Inr plan"
  shows "mset (map me_path (mp_entries_to_apply plan @ mp_conflicted plan @ mp_skipped plan)) = mset (map ce_path fork_entries)
    \<and> (mp_aborted plan \<longleftrightarrow> mp_conflicted plan \<noteq> [] \<and> en_policy env \<in> {''fail_fast'', ''text_merge''})
    \<and> (mp_aborted plan \<longrightarrow> mp_ops plan = [])
    \<and> (\<forall>op \<in> set (mp_ops plan). op_entry op \<in> set (mp_entries_to_apply plan) \<and> me_resolution (op_entry op) = ''applied''
         \<and> (en_merger env = None \<and> en_policy env \<noteq> ''prefer_fork'' \<longrightarrow>
               spares_source env source_entries op \<or> en_policy env = ''text_merge'' \<and> writes_text_merge env op))"
  using assms
proof (cases rule: plan_merge_state)
  case (1 s)
  show ?thesis
  proof (cases "mp_aborted plan")
    case True
    then show ?thesis using 1 by (simp add: plan_ok_def)
  next
    case False
    have "\<forall>op \<in> set (mp_ops plan). op_entry op \<in> set (ps_apply s) \<and> op_allowed env (source_changes env source_entries) op"
      unfolding 1(7) [OF False] using 1(1) by (simp add: plan_ok_def)
    then show ?thesis using 1(1-5) False by (auto simp: plan_ok_def op_allowed_def respects_source_iff)
  qed
qed

definition example_env :: merge_env where
  "example_env = \<lparr>en_policy = ''text_merge'', en_fork = example_tree ''a\<newline>b\<newline>C\<newline>'', en_source = example_tree ''A\<newline>b\<newline>c\<newline>'',
     en_base = example_tree ''a\<newline>b\<newline>c\<newline>'', en_ignore = default_merge_ignore_prefixes, en_merger = None,
     en_decode = Some, en_encode = id\<rparr>"

definition example_change :: "string \<Rightarrow> changeset_entry" where
  "example_change p = \<lparr>ce_path = p, ce_change = ''modified'', ce_renamed_from = None\<rparr>"

theorem merge_plan_safe_witness:
  "let plan = projr (plan_merge example_env [example_change ''/tmp/x'', example_change ''/k''] [example_change ''/k'']) in
   map op_kind (mp_ops plan) = [Write ''A\<newline>b\<newline>C\<newline>''] \<and> \<not> mp_aborted plan
   \<and> mset (map me_path (mp_entries_to_apply plan @ mp_conflicted plan @ mp_skipped plan)) = {#''/tmp/x'', ''/k''#}
   \<and> (\<forall>op \<in> set (mp_ops plan). spares_source example_env [example_change ''/k''] op \<or> writes_text_merge example_env op)"
proof -
  let ?r = "plan_merge example_env [example_change ''/tmp/x'', example_change ''/k''] [example_change ''/k'']"
  have "\<not> isl ?r" by code_simp
  then have r: "?r = Inr (projr ?r)" by (rule sum.collapse(2) [symmetric])
  have ops: "map op_kind (mp_ops (projr ?r)) = [Write ''A\<newline>b\<newline>C\<newline>''] \<and> \<not> mp_aborted (projr ?r)" by code_simp
  have "en_merger example_env = None" "en_policy example_env \<noteq> ''prefer_fork''" by (simp_all add: example_env_def)
  then have safe: "\<forall>op \<in> set (mp_ops (projr ?r)). spares_source example_env [example_change ''/k''] op \<or> writes_text_merge example_env op"
    using merge_plan_safe [OF r] by blast
  have "mset (map me_path (mp_entries_to_apply (projr ?r) @ mp_conflicted (projr ?r) @ mp_skipped (projr ?r)))
      = mset (map ce_path [example_change ''/tmp/x'', example_change ''/k''])"
    by (rule conjunct1 [OF merge_plan_safe [OF r]])
  then show ?thesis using ops safe unfolding Let_def by (simp add: example_change_def)
qed

end
