(* ===== verification/Json.thy ===== *)
theory Json
  imports Digits "HOL-Library.AList" "HOL-Library.Multiset"
begin

text \<open>
  The part of Python's \<open>json\<close> module the repository stores its records with: \<open>dumps\<close> with \<open>sort_keys=True\<close> and the
  default separators, and \<open>loads\<close>.  The text of a float is a parameter, as the model's floats are exact.  Not modelled:
  the non-finite float literals, escapes of code points above 255, and the limit on the depth of nesting.
\<close>

section \<open>Printing\<close>

definition hex4 :: "nat \<Rightarrow> string" where
  "hex4 n = [digit_char (n div 4096 mod 16), digit_char (n div 256 mod 16), digit_char (n div 16 mod 16), digit_char (n mod 16)]"

text \<open>One character of a string: the short escapes, \<open>\u\<close> with four digits outside the printable range.\<close>

definition escape_char :: "char \<Rightarrow> string" where
  "escape_char c =
     (let n = of_char c :: nat in
      if n = 34 then [CHR 0x5C, CHR 0x22]
      else if n = 92 then [CHR 0x5C, CHR 0x5C]
      else if n = 10 then [CHR 0x5C, CHR ''n'']
      else if n = 13 then [CHR 0x5C, CHR ''r'']
      else if n = 9 then [CHR 0x5C, CHR ''t'']
      else if n = 8 then [CHR 0x5C, CHR ''b'']
      else if n = 12 then [CHR 0x5C, CHR ''f'']
      else if 32 \<le> n \<and> n \<le> 126 then [c]
      else [CHR 0x5C, CHR ''u''] @ hex4 n)"

definition json_string :: "string \<Rightarrow> string" where
  "json_string s = CHR 0x22 # concat (map escape_char s) @ [CHR 0x22]"

fun join_with :: "string \<Rightarrow> string list \<Rightarrow> string" where
  "join_with sep [] = []"
| "join_with sep [x] = x"
| "join_with sep (x # xs) = x @ sep @ join_with sep xs"

text \<open>\<open>sort_keys\<close>: the dictionaries with their keys in order, at every depth.\<close>

primrec sort_keys :: "pyval \<Rightarrow> pyval" where
  "sort_keys PNone = PNone"
| "sort_keys (PBool b) = PBool b"
| "sort_keys (PInt i) = PInt i"
| "sort_keys (PFloat r) = PFloat r"
| "sort_keys (PStr s) = PStr s"
| "sort_keys (PList xs) = PList (map sort_keys xs)"
| "sort_keys (PDict kvs) = PDict (sort_key fst (map (map_prod id sort_keys) kvs))"

primrec encode :: "(rat \<Rightarrow> string) \<Rightarrow> pyval \<Rightarrow> string" where
  "encode fr PNone = ''null''"
| "encode fr (PBool b) = (if b then ''true'' else ''false'')"
| "encode fr (PInt i) = int_str i"
| "encode fr (PFloat r) = fr r"
| "encode fr (PStr s) = json_string s"
| "encode fr (PList xs) = ''['' @ join_with '', '' (map (encode fr) xs) @ '']''"
| "encode fr (PDict kvs) =
     ''{'' @ join_with '', '' (map (\<lambda>(k, s). json_string k @ '': '' @ s) (map (map_prod id (encode fr)) kvs)) @ ''}''"

definition dumps :: "(rat \<Rightarrow> string) \<Rightarrow> pyval \<Rightarrow> string" where
  "dumps fr v = encode fr (sort_keys v)"

section \<open>Reading\<close>

definition json_space :: "char \<Rightarrow> bool" where
  "json_space c = (c \<in> {CHR '' '', CHR 0x09, CHR 0x0A, CHR 0x0D})"

abbreviation skip_space :: "string \<Rightarrow> string" where
  "skip_space \<equiv> dropWhile json_space"

definition hex4_value :: "char \<Rightarrow> char \<Rightarrow> char \<Rightarrow> char \<Rightarrow> nat option" where
  "hex4_value a b c d =
     (case (digit_value 16 a, digit_value 16 b, digit_value 16 c, digit_value 16 d) of
        (Some i, Some j, Some k, Some l) \<Rightarrow> Some (((i * 16 + j) * 16 + k) * 16 + l)
      | _ \<Rightarrow> None)"

definition unescape :: "char \<Rightarrow> char option" where
  "unescape c =
     (if c = CHR 0x22 \<or> c = CHR 0x5C \<or> c = CHR ''/'' then Some c
      else if c = CHR ''b'' then Some (CHR 0x08)
      else if c = CHR ''f'' then Some (CHR 0x0C)
      else if c = CHR ''n'' then Some (CHR 0x0A)
      else if c = CHR ''r'' then Some (CHR 0x0D)
      else if c = CHR ''t'' then Some (CHR 0x09)
      else None)"

text \<open>The rest of a string literal after its opening quote: its text and what follows the closing quote.\<close>

fun scan_string :: "string \<Rightarrow> (string \<times> string) option" where
  "scan_string [] = None"
| "scan_string (c # cs) =
     (if c = CHR 0x22 then Some ([], cs)
      else if c = CHR 0x5C
      then (case cs of
              [] \<Rightarrow> None
            | e # rest \<Rightarrow>
                if e = CHR ''u''
                then (case rest of
                        h1 # h2 # h3 # h4 # rest' \<Rightarrow>
                          (case hex4_value h1 h2 h3 h4 of
                             None \<Rightarrow> None
                           | Some n \<Rightarrow> if n < 256 then map_option (apfst (Cons (char_of n))) (scan_string rest') else None)
                      | _ \<Rightarrow> None)
                else (case unescape e of
                        None \<Rightarrow> None
                      | Some x \<Rightarrow> map_option (apfst (Cons x)) (scan_string rest)))
      else if of_char c < (32 :: nat) then None
      else map_option (apfst (Cons c)) (scan_string cs))"

text \<open>A number: sign, integer part without leading zeros, fraction and exponent; a float if one of the last two is there.\<close>

definition scan_digits :: "string \<Rightarrow> string \<times> string" where
  "scan_digits s = (takeWhile is_digit s, dropWhile is_digit s)"

definition scan_integer :: "string \<Rightarrow> (string \<times> string) option" where
  "scan_integer s =
     (case scan_digits s of
        ([], _) \<Rightarrow> None
      | (d # ds, rest) \<Rightarrow> if d = CHR ''0'' then Some (''0'', ds @ rest) else Some (d # ds, rest))"

definition scan_fraction :: "string \<Rightarrow> string \<times> string" where
  "scan_fraction s =
     (case s of
        c # cs \<Rightarrow> if c = CHR ''.'' \<and> fst (scan_digits cs) \<noteq> [] then (c # fst (scan_digits cs), snd (scan_digits cs)) else ([], s)
      | [] \<Rightarrow> ([], []))"

definition scan_exponent :: "string \<Rightarrow> string \<times> string" where
  "scan_exponent s =
     (case s of
        c # cs \<Rightarrow>
          if c = CHR ''e'' \<or> c = CHR ''E''
          then (case cs of
                  g # gs \<Rightarrow>
                    if (g = CHR ''-'' \<or> g = CHR ''+'') \<and> fst (scan_digits gs) \<noteq> []
                    then (c # g # fst (scan_digits gs), snd (scan_digits gs))
                    else if fst (scan_digits cs) \<noteq> [] then (c # fst (scan_digits cs), snd (scan_digits cs)) else ([], s)
                | [] \<Rightarrow> ([], s))
          else ([], s)
      | [] \<Rightarrow> ([], []))"

definition scan_number :: "string \<Rightarrow> (pyval \<times> string) option" where
  "scan_number s =
     (let (sg, r) = (case s of c # cs \<Rightarrow> if c = CHR ''-'' then ([c], cs) else ([], s) | [] \<Rightarrow> ([], [])) in
      case scan_integer r of
        None \<Rightarrow> None
      | Some (i, r1) \<Rightarrow>
          (let (f, r2) = scan_fraction r1; (e, r3) = scan_exponent r2 in
           if f = [] \<and> e = []
           then (case int_text str_space 10 (sg @ i) of Inl _ \<Rightarrow> None | Inr n \<Rightarrow> Some (PInt n, r3))
           else (case float_text (sg @ i @ f @ e) of Inl _ \<Rightarrow> None | Inr x \<Rightarrow> Some (PFloat x, r3))))"

text \<open>\<open>dict(pairs)\<close>: a later value of a key replaces the earlier one.\<close>

definition dict_of :: "(string \<times> pyval) list \<Rightarrow> (string \<times> pyval) list" where
  "dict_of kvs = fold (\<lambda>(k, v). AList.update k v) kvs []"

text \<open>Values, the rest of an array from an item on, the rest of an object from a member on.  The first argument
  bounds the number of nested and successive calls.\<close>

fun scan_value :: "nat \<Rightarrow> string \<Rightarrow> (pyval \<times> string) option"
  and scan_items :: "nat \<Rightarrow> string \<Rightarrow> (pyval list \<times> string) option"
  and scan_members :: "nat \<Rightarrow> string \<Rightarrow> ((string \<times> pyval) list \<times> string) option" where
  "scan_value 0 s = None"
| "scan_value (Suc n) s =
     (case s of
        [] \<Rightarrow> None
      | c # cs \<Rightarrow>
          if c = CHR 0x22 then map_option (apfst PStr) (scan_string cs)
          else if c = CHR ''{''
          then (case skip_space cs of
                  [] \<Rightarrow> None
                | d # ds \<Rightarrow> if d = CHR ''}'' then Some (PDict [], ds)
                            else map_option (apfst (PDict \<circ> dict_of)) (scan_members n (d # ds)))
          else if c = CHR ''[''
          then (case skip_space cs of
                  [] \<Rightarrow> None
                | d # ds \<Rightarrow> if d = CHR '']'' then Some (PList [], ds)
                            else map_option (apfst PList) (scan_items n (d # ds)))
          else if prefix ''null'' s then Some (PNone, drop 4 s)
          else if prefix ''true'' s then Some (PBool True, drop 4 s)
          else if prefix ''false'' s then Some (PBool False, drop 5 s)
          else scan_number s)"
| "scan_items 0 s = None"
| "scan_items (Suc n) s =
     (case scan_value n s of
        None \<Rightarrow> None
      | Some (v, r) \<Rightarrow>
          (case skip_space r of
             [] \<Rightarrow> None
           | c # cs \<Rightarrow>
               if c = CHR '']'' then Some ([v], cs)
               else if c = CHR '','' then map_option (apfst (Cons v)) (scan_items n (skip_space cs))
               else None))"
| "scan_members 0 s = None"
| "scan_members (Suc n) s =
     (case s of
        [] \<Rightarrow> None
      | q # s' \<Rightarrow>
          if q \<noteq> CHR 0x22 then None
          else case scan_string s' of
            None \<Rightarrow> None
          | Some (k, r) \<Rightarrow>
              (case skip_space r of
                 [] \<Rightarrow> None
               | c # cs \<Rightarrow>
                   if c \<noteq> CHR '':'' then None
                   else case scan_value n (skip_space cs) of
                     None \<Rightarrow> None
                   | Some (v, r') \<Rightarrow>
                       (case skip_space r' of
                          [] \<Rightarrow> None
                        | d # ds \<Rightarrow>
                            if d = CHR ''}'' then Some ([(k, v)], ds)
                            else if d = CHR '','' then map_option (apfst (Cons (k, v))) (scan_members n (skip_space ds))
                            else None)))"

definition loads :: "string \<Rightarrow> pyval res" where
  "loads s =
     (case scan_value (2 * length s + 2) (skip_space s) of
        None \<Rightarrow> Inl ValueError
      | Some (v, r) \<Rightarrow> if skip_space r = [] then Inr v else Inl ValueError)"

section \<open>Strings\<close>

lemma hex4_roundtrip: "n < 65536 \<Longrightarrow> hex4 n = [a, b, c, d] \<Longrightarrow> hex4_value a b c d = Some n"
proof -
  assume n: "n < 65536" and h: "hex4 n = [a, b, c, d]"
  have "n div 256 div 16 = n div 4096" "n div 16 div 16 = n div 256" by (simp_all add: div_mult2_eq [symmetric])
  then have "(((n div 4096) * 16 + n div 256 mod 16) * 16 + n div 16 mod 16) * 16 + n mod 16 = n"
    by (metis div_mult_mod_eq)
  moreover have "n div 4096 < 16" using n by (simp add: div_less_iff_less_mult)
  ultimately show ?thesis using h by (auto simp: hex4_def hex4_value_def digit_char_value(1))
qed

lemma scan_short_escape:
  assumes "c \<in> {CHR 0x22, CHR 0x5C, CHR 0x0A, CHR 0x0D, CHR 0x09, CHR 0x08, CHR 0x0C}"
  shows "scan_string (escape_char c @ cs) = map_option (apfst (Cons c)) (scan_string cs)"
  using assms by (elim insertE emptyE; simp add: escape_char_def unescape_def)

lemma short_escape_code:
  assumes "of_char c \<in> {34 :: nat, 92, 10, 13, 9, 8, 12}"
  shows "c \<in> {CHR 0x22, CHR 0x5C, CHR 0x0A, CHR 0x0D, CHR 0x09, CHR 0x08, CHR 0x0C}" (is "c \<in> ?S")
proof -
  have "(of_char c :: nat) \<in> of_char ` ?S" using assms by simp
  then obtain d where "(of_char c :: nat) = of_char d" "d \<in> ?S" by (rule imageE)
  then show ?thesis by (simp only: of_char_eq_iff)
qed

lemma scan_plain_char:
  assumes "of_char c \<noteq> (34 :: nat)" "of_char c \<noteq> (92 :: nat)" "32 \<le> (of_char c :: nat)"
  shows "scan_string (c # cs) = map_option (apfst (Cons c)) (scan_string cs)"
proof -
  have "c \<noteq> CHR 0x22" "c \<noteq> CHR 0x5C" using assms(1,2) by auto
  then show ?thesis using assms(3) by simp
qed

lemma scan_long_escape:
  "scan_string (CHR 0x5C # CHR ''u'' # hex4 (of_char c) @ cs) = map_option (apfst (Cons c)) (scan_string cs)"
proof -
  obtain h1 h2 h3 h4 where h: "hex4 (of_char c) = [h1, h2, h3, h4]" by (simp add: hex4_def)
  have n: "of_char c < (256 :: nat)" by simp
  then have "of_char c < (65536 :: nat)" by linarith
  then have "hex4_value h1 h2 h3 h4 = Some (of_char c)" using hex4_roundtrip [OF _ h] by blast
  then show ?thesis unfolding h using n by simp
qed

lemma scan_escaped: "scan_string (escape_char c @ cs) = map_option (apfst (Cons c)) (scan_string cs)"
proof (cases "of_char c \<in> {34 :: nat, 92, 10, 13, 9, 8, 12}")
  case True
  then show ?thesis by (rule scan_short_escape [OF short_escape_code])
next
  case False
  show ?thesis
  proof (cases "32 \<le> (of_char c :: nat) \<and> of_char c \<le> (126 :: nat)")
    case True
    then have "escape_char c = [c]" using False by (simp add: escape_char_def)
    then show ?thesis using scan_plain_char [of c cs] True False by simp
  next
    case hex: False
    then have "escape_char c = CHR 0x5C # CHR ''u'' # hex4 (of_char c)" using False by (auto simp: escape_char_def Let_def)
    then show ?thesis using scan_long_escape by simp
  qed
qed

lemma scan_json_string: "scan_string (concat (map escape_char s) @ CHR 0x22 # rest) = Some (s, rest)"
  by (induction s) (simp_all add: scan_escaped)

section \<open>Numbers\<close>

definition number_end :: "string \<Rightarrow> bool" where
  "number_end rest = (case rest of [] \<Rightarrow> True | c # _ \<Rightarrow> \<not> is_digit c \<and> c \<noteq> CHR ''.'' \<and> c \<noteq> CHR ''e'' \<and> c \<noteq> CHR ''E'')"

lemma number_end_simps [simp]:
  "number_end []" "number_end (CHR '','' # cs)" "number_end (CHR '']'' # cs)" "number_end (CHR ''}'' # cs)"
  "number_end (CHR 0x0A # cs)"
  by (simp_all add: number_end_def is_digit_def)

lemma nat_digits_all: "list_all is_digit (nat_digits n)"
proof (induction n rule: nat_digits.induct)
  case (1 n)
  have d: "is_digit (char_of (48 + k))" if "k < 10" for k :: nat using that by (simp add: is_digit_def Let_def)
  then show ?case using 1 by (subst nat_digits.simps) auto
qed

lemma scan_digits_app:
  assumes "list_all is_digit ds" "number_end rest"
  shows "scan_digits (ds @ rest) = (ds, rest)"
proof -
  have "takeWhile is_digit rest = []" "dropWhile is_digit rest = rest"
    using assms(2) by (cases rest; simp add: number_end_def)+
  moreover have "\<And>x. x \<in> set ds \<Longrightarrow> is_digit x" using assms(1) by (simp add: list_all_iff)
  ultimately show ?thesis by (simp add: scan_digits_def takeWhile_append2 dropWhile_append2)
qed

lemma nat_digits_lead: "nat_digits n = d # ds \<Longrightarrow> d = CHR ''0'' \<Longrightarrow> n = 0 \<and> ds = []"
proof (induction n arbitrary: d ds rule: nat_digits.induct)
  case (1 n)
  show ?case
  proof (cases "n < 10")
    case True
    then have "d = char_of (48 + n)" "ds = []" using 1(2) by (simp_all add: nat_digits.simps [of n])
    moreover have "of_char (char_of (48 + n) :: char) = 48 + n" using True by simp
    moreover have "of_char d = (48 :: nat)" using 1(3) by simp
    ultimately show ?thesis by simp
  next
    case False
    then have "nat_digits n = nat_digits (n div 10) @ [char_of (48 + n mod 10)]" by (simp add: nat_digits.simps [of n])
    then obtain ds' where "nat_digits (n div 10) = d # ds'" using 1(2) nat_digits_nonempty by (metis append_eq_Cons_conv)
    then have "n div 10 = 0" using 1(1) [OF False] 1(3) by blast
    then show ?thesis using False by simp
  qed
qed

lemma scan_integer_digits: "number_end rest \<Longrightarrow> scan_integer (nat_digits n @ rest) = Some (nat_digits n, rest)"
proof -
  assume e: "number_end rest"
  obtain d ds where n: "nat_digits n = d # ds" using nat_digits_nonempty by (cases "nat_digits n") auto
  show ?thesis
    using scan_digits_app [OF nat_digits_all [of n] e] nat_digits_lead [OF n] n by (auto simp: scan_integer_def)
qed

lemma scan_no_more: "number_end rest \<Longrightarrow> scan_fraction rest = ([], rest) \<and> scan_exponent rest = ([], rest)"
  by (cases rest) (auto simp: number_end_def scan_fraction_def scan_exponent_def)

lemma digit_char_not_space: "d < 16 \<Longrightarrow> \<not> str_space (digit_char d)"
  by (simp add: str_space_def Let_def code_digit)

lemma int_text_int_str: "int_text str_space 10 (int_str i) = Inr i"
proof -
  have sp: "c \<in> set (nat_digits n) \<Longrightarrow> \<not> str_space c" for c n using nat_digits_chars [of n] digit_char_not_space by auto
  have pos: "int_text str_space 10 (nat_digits n) = Inr (int n)" for n
    by (rule int_text_digits [OF nat_digits_chars sp nat_digits_nonempty nat_digits_value])
  show ?thesis
  proof (cases "i < 0")
    case False
    then show ?thesis using pos by (simp add: int_str_def)
  next
    case True
    then have s: "int_str i = CHR ''-'' # nat_digits (nat (- i))" by (simp add: int_str_def)
    have "strip_by str_space (int_str i) = int_str i"
      by (rule strip_plain) (use sp in \<open>auto simp: s str_space_def\<close>)
    then show ?thesis using True nat_digits_value [of "nat (- i)"] by (simp add: int_text_def s split_sign_def)
  qed
qed

lemma nat_digits_hd: "nat_digits n = d # ds \<Longrightarrow> d \<noteq> CHR ''-''"
  using nat_digits_all [of n] by (auto simp: is_digit_def)

lemma scan_number_int: "number_end rest \<Longrightarrow> scan_number (int_str i @ rest) = Some (PInt i, rest)"
proof -
  assume e: "number_end rest"
  show ?thesis
  proof (cases "i < 0")
    case True
    then have s: "int_str i = CHR ''-'' # nat_digits (nat (- i))" by (simp add: int_str_def)
    show ?thesis using int_text_int_str [of i] scan_integer_digits [OF e] scan_no_more [OF e] by (simp add: s scan_number_def)
  next
    case False
    then have s: "int_str i = nat_digits (nat i)" by (simp add: int_str_def)
    obtain d ds where n: "nat_digits (nat i) = d # ds" using nat_digits_nonempty by (cases "nat_digits (nat i)") auto
    have "scan_integer (d # ds @ rest) = Some (d # ds, rest)" using scan_integer_digits [OF e, of "nat i"] n by simp
    then show ?thesis using int_text_int_str [of i] scan_no_more [OF e] nat_digits_hd [OF n] by (simp add: s n scan_number_def)
  qed
qed

section \<open>Round trip\<close>

text \<open>A float whose text is read back as it is, and values all whose floats are such and whose keys are distinct.\<close>

definition printable :: "char \<Rightarrow> bool" where
  "printable c = (32 < (of_char c :: nat) \<and> of_char c < (127 :: nat))"

definition float_ok :: "(rat \<Rightarrow> string) \<Rightarrow> rat \<Rightarrow> bool" where
  "float_ok fr r =
     ((\<forall>rest. number_end rest \<longrightarrow> scan_number (fr r @ rest) = Some (PFloat r, rest))
      \<and> list_all printable (fr r)
      \<and> (case fr r of [] \<Rightarrow> False | c # _ \<Rightarrow> c = CHR ''-'' \<or> is_digit c))"

primrec json_ok :: "(rat \<Rightarrow> string) \<Rightarrow> pyval \<Rightarrow> bool" where
  "json_ok fr PNone = True"
| "json_ok fr (PBool b) = True"
| "json_ok fr (PInt i) = True"
| "json_ok fr (PFloat r) = float_ok fr r"
| "json_ok fr (PStr s) = True"
| "json_ok fr (PList xs) = list_all (\<lambda>b. b) (map (json_ok fr) xs)"
| "json_ok fr (PDict kvs) = (distinct (map fst kvs) \<and> list_all snd (map (map_prod id (json_ok fr)) kvs))"

text \<open>How a printed value starts: never with white space or a closing bracket.\<close>

definition value_start :: "char \<Rightarrow> bool" where
  "value_start c = (\<not> json_space c \<and> c \<notin> {CHR '']'', CHR ''}'', CHR '','', CHR '':''})"

lemma value_start_digit: "is_digit c \<Longrightarrow> value_start c"
proof -
  assume "is_digit c"
  then have n: "48 \<le> (of_char c :: nat)" "of_char c \<le> (57 :: nat)" by (simp_all add: is_digit_def Let_def)
  have "c \<noteq> d" if "\<not> (48 \<le> (of_char d :: nat) \<and> of_char d \<le> (57 :: nat))" for d using n that by auto
  then show ?thesis by (auto simp: value_start_def json_space_def)
qed

lemma int_str_start: "\<exists>c cs. int_str i = c # cs \<and> (c = CHR ''-'' \<or> is_digit c)"
proof -
  obtain d ds where n: "nat_digits (nat i) = d # ds" using nat_digits_nonempty by (cases "nat_digits (nat i)") auto
  then show ?thesis using nat_digits_all [of "nat i"] by (cases "i < 0") (auto simp: int_str_def)
qed

lemma encode_start:
  assumes "json_ok fr v"
  shows "\<exists>c cs. encode fr v = c # cs \<and> value_start c"
proof (cases v)
  case (PInt i)
  then show ?thesis using int_str_start [of i] value_start_digit by (auto simp: value_start_def json_space_def)
next
  case (PFloat r)
  then show ?thesis using assms value_start_digit by (auto simp: float_ok_def value_start_def json_space_def split: list.splits)
qed (auto simp: json_string_def value_start_def json_space_def)

lemma skip_space_start: "value_start c \<Longrightarrow> skip_space (c # cs) = c # cs"
  by (simp add: value_start_def)

lemma json_space_simps [simp]:
  "\<not> json_space (CHR '','')" "\<not> json_space (CHR '']'')" "\<not> json_space (CHR ''}'')" "\<not> json_space (CHR '':'')"
  "\<not> json_space (CHR 0x22)" "json_space (CHR '' '')"
  by (simp_all add: json_space_def)

lemma scan_value_number:
  assumes "c = CHR ''-'' \<or> is_digit c"
  shows "scan_value (Suc n) (c # cs) = scan_number (c # cs)"
proof -
  have "c \<notin> {CHR 0x22, CHR ''{'', CHR ''['', CHR ''n'', CHR ''t'', CHR ''f''}" using assms by (auto simp: is_digit_def)
  then show ?thesis by auto
qed

text \<open>A value is read back when the calls suffice for the length of the text.\<close>

definition reads_back :: "(rat \<Rightarrow> string) \<Rightarrow> pyval \<Rightarrow> bool" where
  "reads_back fr v = (\<forall>n rest. number_end rest \<longrightarrow> 2 * length (encode fr v @ rest) < n \<longrightarrow>
     scan_value n (encode fr v @ rest) = Some (v, rest))"

lemma reads_backD:
  "reads_back fr v \<Longrightarrow> number_end rest \<Longrightarrow> 2 * length (encode fr v @ rest) < n \<Longrightarrow>
     scan_value n (encode fr v @ rest) = Some (v, rest)"
  by (simp add: reads_back_def)

lemma reads_backI:
  "(\<And>m rest. number_end rest \<Longrightarrow> scan_value (Suc m) (encode fr v @ rest) = Some (v, rest)) \<Longrightarrow> reads_back fr v"
  unfolding reads_back_def by (metis less_imp_Suc_add)

lemma scan_items_encode:
  assumes "xs \<noteq> []" "\<forall>x \<in> set xs. reads_back fr x \<and> json_ok fr x"
    and "2 * length (join_with '', '' (map (encode fr) xs) @ CHR '']'' # rest) + 1 < n"
  shows "scan_items n (join_with '', '' (map (encode fr) xs) @ CHR '']'' # rest) = Some (xs, rest)"
  using assms
proof (induction xs arbitrary: n)
  case (Cons x xs)
  obtain m where n: "n = Suc m" using Cons.prems(3) by (cases n) auto
  show ?case
  proof (cases xs)
    case Nil
    then show ?thesis using Cons.prems(2,3) reads_backD [of fr x "CHR '']'' # rest" m] by (simp add: n)
  next
    case ys: (Cons y ys)
    let ?tail = "join_with '', '' (map (encode fr) xs) @ CHR '']'' # rest"
    have s: "join_with '', '' (map (encode fr) (x # xs)) @ CHR '']'' # rest = encode fr x @ CHR '','' # CHR '' '' # ?tail"
      using ys by simp
    have v: "scan_value m (encode fr x @ CHR '','' # CHR '' '' # ?tail) = Some (x, CHR '','' # CHR '' '' # ?tail)"
      using Cons.prems(2,3) reads_backD [of fr x "CHR '','' # CHR '' '' # ?tail" m] unfolding s by (simp add: n)
    obtain c cs where "encode fr y = c # cs" "value_start c" using encode_start [of fr y] Cons.prems(2) ys by auto
    then have sk: "skip_space ?tail = ?tail" using ys by (cases ys) (simp_all add: value_start_def)
    have "scan_items m ?tail = Some (xs, rest)" using Cons.IH [of m] Cons.prems(2,3) ys unfolding s by (simp add: n)
    then show ?thesis unfolding s n using v sk by simp
  qed
qed simp

abbreviation members :: "(rat \<Rightarrow> string) \<Rightarrow> (string \<times> pyval) list \<Rightarrow> string" where
  "members fr kvs \<equiv> join_with '', '' (map (\<lambda>(k, s). json_string k @ '': '' @ s) (map (map_prod id (encode fr)) kvs))"

lemma members_start: "kvs \<noteq> [] \<Longrightarrow> \<exists>cs. members fr kvs = CHR 0x22 # cs"
  by (cases kvs rule: list.exhaust; cases "tl kvs") (auto simp: json_string_def)

lemma scan_members_encode:
  assumes "kvs \<noteq> []" "\<forall>(k, x) \<in> set kvs. reads_back fr x \<and> json_ok fr x"
    and "2 * length (members fr kvs @ CHR ''}'' # rest) + 1 < n"
  shows "scan_members n (members fr kvs @ CHR ''}'' # rest) = Some (kvs, rest)"
  using assms
proof (induction kvs arbitrary: n)
  case (Cons kx kvs)
  obtain k x where kx: "kx = (k, x)" by (metis surj_pair)
  obtain m where n: "n = Suc m" using Cons.prems(3) by (cases n) auto
  obtain c cs where x: "encode fr x = c # cs" "value_start c" using encode_start [of fr x] Cons.prems(2) kx by auto
  have start: "scan_members (Suc m) (json_string k @ '': '' @ encode fr x @ after) =
      (case scan_value m (encode fr x @ after) of
         None \<Rightarrow> None
       | Some (v, r') \<Rightarrow>
           (case skip_space r' of
              [] \<Rightarrow> None
            | d # ds \<Rightarrow>
                if d = CHR ''}'' then Some ([(k, v)], ds)
                else if d = CHR '','' then map_option (apfst (Cons (k, v))) (scan_members m (skip_space ds))
                else None))" for "after"
    using x by (simp add: json_string_def scan_json_string value_start_def)
  show ?case
  proof (cases kvs)
    case Nil
    then show ?thesis
      using Cons.prems(2,3) reads_backD [of fr x "CHR ''}'' # rest" m] start [of "CHR ''}'' # rest"]
      by (simp add: n kx json_string_def)
  next
    case kvs: (Cons p ps)
    let ?tail = "members fr kvs @ CHR ''}'' # rest"
    have s: "members fr (kx # kvs) @ CHR ''}'' # rest = json_string k @ '': '' @ encode fr x @ CHR '','' # CHR '' '' # ?tail"
      using kvs kx by simp
    have v: "scan_value m (encode fr x @ CHR '','' # CHR '' '' # ?tail) = Some (x, CHR '','' # CHR '' '' # ?tail)"
      using Cons.prems(2,3) reads_backD [of fr x "CHR '','' # CHR '' '' # ?tail" m] kx unfolding s by (simp add: n)
    obtain cs where "members fr kvs = CHR 0x22 # cs" using members_start [of kvs fr] kvs by auto
    then have sk: "skip_space ?tail = ?tail" by simp
    have len: "2 * length ?tail + 1 < m" using Cons.prems(3) unfolding s n by simp
    have "scan_members m ?tail = Some (kvs, rest)" by (rule Cons.IH [OF _ _ len]) (use Cons.prems(2) kvs in auto)
    then show ?thesis unfolding s n start v using sk kx by simp
  qed
qed simp

lemma dict_of_distinct: "distinct (map fst kvs) \<Longrightarrow> dict_of kvs = kvs"
proof -
  have upd: "k \<notin> fst ` set acc \<Longrightarrow> AList.update k v acc = acc @ [(k, v)]" for k v and acc :: "(string \<times> pyval) list"
    by (induction acc) auto
  have "distinct (map fst (acc @ kvs)) \<Longrightarrow> fold (\<lambda>(k, v). AList.update k v) kvs acc = acc @ kvs" for acc
    by (induction kvs arbitrary: acc) (auto simp: upd image_iff)
  from this [of "[]"] show "distinct (map fst kvs) \<Longrightarrow> dict_of kvs = kvs" by (simp add: dict_of_def)
qed

lemma encode_reads_back: "json_ok fr v \<Longrightarrow> reads_back fr v"
proof (induction v)
  case (PInt i)
  obtain c cs where "int_str i = c # cs" "c = CHR ''-'' \<or> is_digit c" using int_str_start by blast
  then show ?case using scan_number_int [of _ i] scan_value_number [of c] by (intro reads_backI) (simp del: scan_value.simps)
next
  case (PFloat r)
  then obtain c cs where "fr r = c # cs" "c = CHR ''-'' \<or> is_digit c" "\<And>rest. number_end rest \<Longrightarrow> scan_number (fr r @ rest) = Some (PFloat r, rest)"
    by (auto simp: float_ok_def split: list.splits)
  then show ?case using scan_value_number [of c] by (intro reads_backI) (metis append_Cons encode.simps(4))
next
  case (PStr s)
  show ?case by (intro reads_backI) (simp add: json_string_def scan_json_string)
next
  case (PList xs)
  have xs: "\<forall>x \<in> set xs. reads_back fr x \<and> json_ok fr x" using PList by (auto simp: list_all_iff)
  show ?case
    unfolding reads_back_def
  proof (intro allI impI)
    fix n rest assume "2 * length (encode fr (PList xs) @ rest) < n"
    then obtain m where n: "n = Suc m" "2 * length (join_with '', '' (map (encode fr) xs) @ CHR '']'' # rest) + 1 < m"
      by (cases n) auto
    show "scan_value n (encode fr (PList xs) @ rest) = Some (PList xs, rest)"
    proof (cases xs)
      case (Cons x ys)
      obtain c cs where c: "encode fr x = c # cs" "value_start c" using encode_start [of fr x] xs Cons by auto
      then obtain cs' where s: "join_with '', '' (map (encode fr) xs) @ CHR '']'' # rest = c # cs'" using Cons by (cases ys) auto
      have "scan_items m (c # cs') = Some (xs, rest)" using scan_items_encode [OF _ xs n(2)] Cons s by simp
      then show ?thesis using c(2) s by (auto simp: n value_start_def)
    qed (simp add: n)
  qed
next
  case (PDict kvs)
  have kvs: "\<forall>(k, x) \<in> set kvs. reads_back fr x \<and> json_ok fr x" using PDict by (fastforce simp: list_all_iff)
  have d: "distinct (map fst kvs)" using PDict.prems by simp
  show ?case
    unfolding reads_back_def
  proof (intro allI impI)
    fix n rest assume "2 * length (encode fr (PDict kvs) @ rest) < n"
    then obtain m where n: "n = Suc m" "2 * length (members fr kvs @ CHR ''}'' # rest) + 1 < m"
      by (cases n) auto
    show "scan_value n (encode fr (PDict kvs) @ rest) = Some (PDict kvs, rest)"
    proof (cases "kvs = []")
      case False
      then obtain cs where s: "members fr kvs = CHR 0x22 # cs" using members_start by blast
      have "scan_members m (CHR 0x22 # cs @ CHR ''}'' # rest) = Some (kvs, rest)"
        using scan_members_encode [OF False kvs n(2)] unfolding s by simp
      moreover have "encode fr (PDict kvs) @ rest = CHR ''{'' # CHR 0x22 # cs @ CHR ''}'' # rest" using s by simp
      ultimately show ?thesis using dict_of_distinct [OF d] by (simp add: n del: encode.simps)
    qed (simp add: n)
  qed
qed (intro reads_backI; simp)+

section \<open>Enough calls\<close>

text \<open>The bound on the calls never cuts a text short: any bound above twice its length gives the same answer.\<close>

lemma skip_space_length: "length (skip_space s) \<le> length s"
  by (rule length_dropWhile_le)

lemma skip_space_Cons: "skip_space s = c # cs \<Longrightarrow> length cs < length s"
  using skip_space_length [of s] by simp

lemma scan_string_shorter: "scan_string s = Some (x, r) \<Longrightarrow> length r < length s"
proof (induction s arbitrary: x r rule: scan_string.induct)
  case (2 c cs)
  then show ?case by (fastforce split: if_splits list.splits option.splits)
qed simp

lemma scan_parts_shorter:
  "scan_integer s = Some (i, r) \<Longrightarrow> length r < length s" "length (snd (scan_fraction s)) \<le> length s"
  "length (snd (scan_exponent s)) \<le> length s"
proof -
  have d: "length (snd (scan_digits t)) \<le> length t" for t by (simp add: scan_digits_def length_dropWhile_le)
  show "length r < length s" if "scan_integer s = Some (i, r)"
  proof -
    have "fst (scan_digits s) @ snd (scan_digits s) = s" by (simp add: scan_digits_def)
    then have "length (fst (scan_digits s)) + length (snd (scan_digits s)) = length s" by (metis length_append)
    then show ?thesis using that by (auto simp: scan_integer_def split: prod.splits list.splits if_splits)
  qed
  show "length (snd (scan_fraction s)) \<le> length s"
    using d [of "tl s"] by (auto simp: scan_fraction_def split: list.splits)
  show "length (snd (scan_exponent s)) \<le> length s"
    using d [of "tl s"] d [of "tl (tl s)"] by (auto simp: scan_exponent_def split: list.splits)
qed

lemma scan_number_shorter: "scan_number s = Some (v, r) \<Longrightarrow> length r < length s"
proof -
  assume a: "scan_number s = Some (v, r)"
  let ?r0 = "case s of c # cs \<Rightarrow> if c = CHR ''-'' then cs else s | [] \<Rightarrow> []"
  obtain i r1 where i: "scan_integer ?r0 = Some (i, r1)" and r: "r = snd (scan_exponent (snd (scan_fraction r1)))"
    using a by (auto simp: scan_number_def Let_def split: list.splits if_splits option.splits prod.splits sum.splits)
  have "length ?r0 \<le> length s" by (cases s) auto
  then show ?thesis
    using scan_parts_shorter(1) [OF i] scan_parts_shorter(2) [of r1] scan_parts_shorter(3) [of "snd (scan_fraction r1)"] r by simp
qed

lemma scan_bracket_cases:
  assumes "(case skip_space cs of [] \<Rightarrow> None | d # ds \<Rightarrow> if d = e then Some (x, ds) else map_option (apfst f) (scan (d # ds))) = Some (v, r)"
  shows "(\<exists>d. skip_space cs = d # r) \<or> (\<exists>y. scan (skip_space cs) = Some (y, r))"
proof (cases "skip_space cs")
  case (Cons d ds)
  then show ?thesis using assms by (cases "d = e") auto
next
  case Nil
  show ?thesis using assms unfolding Nil by simp
qed

lemma scan_value_shorter:
  assumes "scan_value (Suc n) s = Some (v, r)"
    and i: "\<And>s vs r. scan_items n s = Some (vs, r) \<Longrightarrow> length r < length s"
    and m: "\<And>s kvs r. scan_members n s = Some (kvs, r) \<Longrightarrow> length r < length s"
  shows "length r < length s"
proof (cases s)
  case (Cons c cs)
  have bracket: "length r < length s"
    if "(\<exists>d. skip_space cs = d # r) \<or> length r < length (skip_space cs)"
    using that skip_space_length [of cs] Cons by auto
  consider "c = CHR 0x22" | "c = CHR ''{''" | "c = CHR ''[''" | "c \<notin> {CHR 0x22, CHR ''{'', CHR ''[''}" by blast
  then show ?thesis
  proof cases
    case 1
    then show ?thesis using assms(1) Cons scan_string_shorter [of cs] by fastforce
  next
    case 2
    then have "(case skip_space cs of [] \<Rightarrow> None | d # ds \<Rightarrow> if d = CHR ''}'' then Some (PDict [], ds)
        else map_option (apfst (PDict \<circ> dict_of)) (scan_members n (d # ds))) = Some (v, r)" using assms(1) Cons by simp
    from scan_bracket_cases [OF this] show ?thesis using m [of "skip_space cs" _ r] bracket by blast
  next
    case 3
    then have "(case skip_space cs of [] \<Rightarrow> None | d # ds \<Rightarrow> if d = CHR '']'' then Some (PList [], ds)
        else map_option (apfst PList) (scan_items n (d # ds))) = Some (v, r)" using assms(1) Cons by simp
    from scan_bracket_cases [OF this] show ?thesis using i [of "skip_space cs" _ r] bracket by blast
  next
    case 4
    then have "scan_value (Suc n) s =
        (if prefix ''null'' s then Some (PNone, drop 4 s) else if prefix ''true'' s then Some (PBool True, drop 4 s)
         else if prefix ''false'' s then Some (PBool False, drop 5 s) else scan_number s)" unfolding Cons by simp
    then have "r = drop 4 s \<or> r = drop 5 s \<or> scan_number s = Some (v, r)" using assms(1) by (simp split: if_splits)
    then show ?thesis using scan_number_shorter [of s v r] Cons by auto
  qed
qed (use assms(1) in simp)

lemma scan_items_cases:
  assumes "scan_items (Suc n) s = Some (vs, r)"
  obtains v r1 c cs where "scan_value n s = Some (v, r1)" "skip_space r1 = c # cs"
    "r = cs \<or> (\<exists>vs'. scan_items n (skip_space cs) = Some (vs', r))"
proof -
  obtain v r1 where 1: "scan_value n s = Some (v, r1)" using assms by (auto split: option.splits)
  obtain c cs where 2: "skip_space r1 = c # cs" using assms 1 by (auto split: list.splits)
  show thesis by (rule that [OF 1 2]) (use assms 1 2 in \<open>auto split: if_splits\<close>)
qed

lemma scan_members_cases:
  assumes "scan_members (Suc n) s = Some (kvs, r)"
  obtains q s' k r1 c cs x r2 d ds where "s = q # s'" "scan_string s' = Some (k, r1)" "skip_space r1 = c # cs"
    "scan_value n (skip_space cs) = Some (x, r2)" "skip_space r2 = d # ds"
    "r = ds \<or> (\<exists>kvs'. scan_members n (skip_space ds) = Some (kvs', r))"
proof -
  obtain q s' where 0: "s = q # s'" "q = CHR 0x22" using assms by (auto split: list.splits if_splits)
  obtain k r1 where 1: "scan_string s' = Some (k, r1)" using assms 0 by (auto split: option.splits)
  obtain c cs where 2: "skip_space r1 = c # cs" "c = CHR '':''" using assms 0 1 by (auto split: list.splits if_splits)
  obtain x r2 where 3: "scan_value n (skip_space cs) = Some (x, r2)" using assms 0 1 2 by (auto split: option.splits)
  obtain d ds where 4: "skip_space r2 = d # ds" using assms 0 1 2 3 by (auto split: list.splits)
  show thesis by (rule that [OF 0(1) 1 2(1) 3 4]) (use assms 0 1 2 3 4 in \<open>auto split: if_splits\<close>)
qed

lemma scan_shorter:
  "(\<forall>s v r. scan_value n s = Some (v, r) \<longrightarrow> length r < length s)
   \<and> (\<forall>s vs r. scan_items n s = Some (vs, r) \<longrightarrow> length r < length s)
   \<and> (\<forall>s kvs r. scan_members n s = Some (kvs, r) \<longrightarrow> length r < length s)"
proof (induction n)
  case (Suc n)
  have v: "scan_value n s = Some (v, r) \<Longrightarrow> length r < length s" for s v r using Suc by blast
  have i: "scan_items n s = Some (vs, r) \<Longrightarrow> length r < length s" for s vs r using Suc by blast
  have m: "scan_members n s = Some (kvs, r) \<Longrightarrow> length r < length s" for s kvs r using Suc by blast
  have "length r < length s" if "scan_value (Suc n) s = Some (v, r)" for s v r
    by (rule scan_value_shorter [OF that i m])
  moreover have "length r < length s" if "scan_items (Suc n) s = Some (vs, r)" for s vs r
    using that
  proof (cases rule: scan_items_cases)
    case (1 v r1 c cs)
    have "length r \<le> length cs" using 1(3) i [of "skip_space cs" _ r] skip_space_length [of cs] by auto
    then show ?thesis using v [OF 1(1)] skip_space_Cons [OF 1(2)] by simp
  qed
  moreover have "length r < length s" if "scan_members (Suc n) s = Some (kvs, r)" for s kvs r
    using that
  proof (cases rule: scan_members_cases)
    case (1 q s' k r1 c cs x r2 d ds)
    have "length r \<le> length ds" using 1(6) m [of "skip_space ds" _ r] skip_space_length [of ds] by auto
    then show ?thesis
      using 1(1) scan_string_shorter [OF 1(2)] skip_space_Cons [OF 1(3)] v [OF 1(4)] skip_space_Cons [OF 1(5)]
        skip_space_length [of cs] by simp
  qed
  ultimately show ?case by blast
qed simp

lemma scan_value_less: "scan_value n s = Some (x, r) \<Longrightarrow> length r < length s"
  using scan_shorter [of n] by blast

lemma scan_items_more:
  assumes v: "\<And>s. 2 * length s < n \<Longrightarrow> scan_value (Suc n) s = scan_value n s"
    and i: "\<And>s. 2 * length s + 1 < n \<Longrightarrow> scan_items (Suc n) s = scan_items n s"
    and len: "2 * length s + 1 < Suc n"
  shows "scan_items (Suc (Suc n)) s = scan_items (Suc n) s"
proof -
  have eq: "scan_items (Suc n) (skip_space cs) = scan_items n (skip_space cs)"
    if "scan_value n s = Some (x, r)" "skip_space r = c # cs" for x r c cs
    by (rule i) (use scan_value_less [OF that(1)] skip_space_Cons [OF that(2)] skip_space_length [of cs] len in simp)
  note step = scan_items.simps(2) [of "Suc n" s] scan_items.simps(2) [of n s] v [of s, OF len [simplified]]
  show ?thesis
  proof (cases "scan_value n s")
    case None
    then show ?thesis unfolding step by simp
  next
    case (Some xr)
    obtain x r where xr: "xr = (x, r)" by (metis surj_pair)
    show ?thesis
    proof (cases "skip_space r")
      case Nil
      show ?thesis by (simp only: step Some xr option.case prod.case Nil list.case)
    next
      case (Cons c cs)
      then have "scan_items (Suc n) (skip_space cs) = scan_items n (skip_space cs)" using eq Some xr by blast
      then show ?thesis by (simp only: step Some xr option.case prod.case Cons list.case)
    qed
  qed
qed

lemma scan_members_more:
  assumes v: "\<And>s. 2 * length s < n \<Longrightarrow> scan_value (Suc n) s = scan_value n s"
    and m: "\<And>s. 2 * length s + 1 < n \<Longrightarrow> scan_members (Suc n) s = scan_members n s"
    and len: "2 * length s + 1 < Suc n"
  shows "scan_members (Suc (Suc n)) s = scan_members (Suc n) s"
proof -
  show ?thesis
  proof (cases s)
    case Nil
    show ?thesis by (simp add: Nil)
  next
    case s: (Cons q s')
    note step = scan_members.simps(2) [of "Suc n" "q # s'"] scan_members.simps(2) [of n "q # s'"]
    show ?thesis
    proof (cases "scan_string s'")
      case None
      show ?thesis by (simp only: step s list.case None option.case)
    next
      case (Some kr)
      obtain k r where kr: "kr = (k, r)" by (metis surj_pair)
      note step = step s Some kr list.case option.case prod.case
      show ?thesis
      proof (cases "skip_space r")
        case Nil
        show ?thesis by (simp only: step Nil)
      next
        case r: (Cons c cs)
        have lr: "2 * length (skip_space cs) + 1 < n"
          using len s scan_string_shorter [of s' k r] Some kr skip_space_Cons [OF r] skip_space_length [of cs] by simp
        have val: "scan_value (Suc n) (skip_space cs) = scan_value n (skip_space cs)" by (rule v) (use lr in simp)
        show ?thesis
        proof (cases "scan_value n (skip_space cs)")
          case None
          show ?thesis by (simp only: step r val None)
        next
          case x: (Some xr)
          obtain x r2 where xr: "xr = (x, r2)" by (metis surj_pair)
          show ?thesis
          proof (cases "skip_space r2")
            case Nil
            show ?thesis by (simp only: step r val x xr Nil)
          next
            case r2: (Cons d ds)
            have "scan_members (Suc n) (skip_space ds) = scan_members n (skip_space ds)"
              by (rule m) (use lr scan_value_less [of n "skip_space cs" x r2] x xr skip_space_Cons [OF r2] skip_space_length [of ds] in simp)
            then show ?thesis by (simp only: step r val x xr r2)
          qed
        qed
      qed
    qed
  qed
qed

lemma scan_more_calls:
  "(\<forall>s. 2 * length s < n \<longrightarrow> scan_value (Suc n) s = scan_value n s)
   \<and> (\<forall>s. 2 * length s + 1 < n \<longrightarrow> scan_items (Suc n) s = scan_items n s)
   \<and> (\<forall>s. 2 * length s + 1 < n \<longrightarrow> scan_members (Suc n) s = scan_members n s)"
proof (induction n)
  case (Suc n)
  have v: "2 * length s < n \<Longrightarrow> scan_value (Suc n) s = scan_value n s" for s using Suc by blast
  have i: "2 * length s + 1 < n \<Longrightarrow> scan_items (Suc n) s = scan_items n s" for s using Suc by blast
  have m: "2 * length s + 1 < n \<Longrightarrow> scan_members (Suc n) s = scan_members n s" for s using Suc by blast
  have "scan_value (Suc (Suc n)) s = scan_value (Suc n) s" if "2 * length s < Suc n" for s
  proof (cases s)
    case (Cons c cs)
    have "2 * length (d # ds) + 1 < n" if "skip_space cs = d # ds" for d ds
      using \<open>2 * length s < Suc n\<close> Cons skip_space_length [of cs] that by simp
    then have "skip_space cs = d # ds \<Longrightarrow> scan_items (Suc n) (d # ds) = scan_items n (d # ds)"
      "skip_space cs = d # ds \<Longrightarrow> scan_members (Suc n) (d # ds) = scan_members n (d # ds)" for d ds
      using i m by blast+
    then show ?thesis
      unfolding Cons scan_value.simps(2) [of "Suc n"] scan_value.simps(2) [of n] by (simp only: list.case cong: list.case_cong)
  qed simp
  moreover have "scan_items (Suc (Suc n)) s = scan_items (Suc n) s" if "2 * length s + 1 < Suc n" for s
    by (rule scan_items_more [OF v i that])
  moreover have "scan_members (Suc (Suc n)) s = scan_members (Suc n) s" if "2 * length s + 1 < Suc n" for s
    by (rule scan_members_more [OF v m that])
  ultimately show ?case by blast
qed simp

lemma scan_value_enough: "2 * length s < n \<Longrightarrow> 2 * length s < m \<Longrightarrow> scan_value n s = scan_value m s"
proof -
  have "2 * length s < n \<Longrightarrow> scan_value (n + k) s = scan_value n s" for n k
    by (induction k) (use scan_more_calls in auto)
  then show "2 * length s < n \<Longrightarrow> 2 * length s < m \<Longrightarrow> scan_value n s = scan_value m s"
    by (metis le_iff_add linear)
qed

section \<open>Documents\<close>

declare scan_value.simps [simp del] scan_items.simps [simp del] scan_members.simps [simp del]

lemma json_ok_sort: "json_ok fr v \<Longrightarrow> json_ok fr (sort_keys v)"
proof (induction v)
  case (PList xs)
  then show ?case by (auto simp: list_all_iff)
next
  case (PDict kvs)
  let ?kvs = "map (map_prod id sort_keys) kvs"
  have "map fst ?kvs = map fst kvs" by simp
  then have "distinct (map fst (sort_key fst ?kvs))"
    using PDict.prems by (metis json_ok.simps(7) mset_eq_imp_distinct_iff mset_map mset_sort)
  moreover have "\<forall>(k, x) \<in> set kvs. json_ok fr (sort_keys x)" using PDict by (fastforce simp: list_all_iff)
  ultimately show ?case by (auto simp: list_all_iff)
qed simp_all

lemma loads_dumps: "json_ok fr v \<Longrightarrow> loads (dumps fr v) = Inr (sort_keys v)"
proof -
  assume ok: "json_ok fr v"
  obtain c cs where c: "dumps fr v = c # cs" "value_start c"
    using encode_start [OF json_ok_sort [OF ok]] by (auto simp: dumps_def)
  have "scan_value (2 * length (dumps fr v) + 2) (dumps fr v) = Some (sort_keys v, [])"
    using reads_backD [OF encode_reads_back [OF json_ok_sort [OF ok]], of "[]" "2 * length (dumps fr v) + 2"] by (simp add: dumps_def)
  moreover have "skip_space (dumps fr v) = dumps fr v" unfolding c(1) by (rule skip_space_start [OF c(2)])
  ultimately show ?thesis by (simp add: loads_def)
qed

text \<open>A printed document is one line of printable characters.\<close>

definition line_char :: "char \<Rightarrow> bool" where
  "line_char c = (32 \<le> (of_char c :: nat) \<and> of_char c < (127 :: nat))"

lemma line_char_digit: "d < 16 \<Longrightarrow> line_char (digit_char d)"
  by (simp add: line_char_def code_digit)

lemma escape_line: "\<forall>x \<in> set (escape_char c). line_char x"
proof -
  have "\<forall>x \<in> set (hex4 n). line_char x" for n by (simp add: hex4_def line_char_digit)
  then show ?thesis by (auto simp: escape_char_def Let_def line_char_def)
qed

lemma json_string_line: "\<forall>x \<in> set (json_string s). line_char x"
  using escape_line by (auto simp: json_string_def line_char_def)

lemma join_line:
  "\<forall>x \<in> set xs. \<forall>c \<in> set x. line_char c \<Longrightarrow> c \<in> set (join_with '', '' xs) \<Longrightarrow> line_char c"
proof (induction "'', ''" xs rule: join_with.induct)
  case (3 x y xs)
  then show ?case by (auto simp: line_char_def)
qed auto

lemma int_str_line: "\<forall>x \<in> set (int_str i). line_char x"
proof -
  have "\<forall>x \<in> set (nat_digits n). line_char x" for n using nat_digits_chars [of n] line_char_digit by auto
  then show ?thesis by (auto simp: int_str_def line_char_def)
qed

lemma encode_line: "json_ok fr v \<Longrightarrow> \<forall>x \<in> set (encode fr v). line_char x"
proof (induction v)
  case (PFloat r)
  then show ?case by (auto simp: float_ok_def list_all_iff printable_def line_char_def)
next
  case (PList xs)
  have "\<forall>x \<in> set (map (encode fr) xs). \<forall>c \<in> set x. line_char c" using PList by (auto simp: list_all_iff)
  from join_line [OF this] show ?case by (auto simp: line_char_def)
next
  case (PDict kvs)
  have "\<forall>(k, x) \<in> set kvs. \<forall>c \<in> set (encode fr x). line_char c" using PDict by (fastforce simp: list_all_iff)
  then have "\<forall>x \<in> set (map (\<lambda>(k, s). json_string k @ '': '' @ s) (map (map_prod id (encode fr)) kvs)). \<forall>c \<in> set x. line_char c"
    using json_string_line by (auto simp: line_char_def)
  from join_line [OF this] show ?case by (auto simp: line_char_def)
qed (use int_str_line json_string_line in \<open>auto simp: line_char_def\<close>)

lemma dumps_line: "json_ok fr v \<Longrightarrow> \<forall>x \<in> set (dumps fr v). line_char x"
  unfolding dumps_def by (rule encode_line [OF json_ok_sort])

end
