(* ===== verification/Journal.thy ===== *)
theory Journal
  imports Json
begin

text \<open>
  The append-only action journal of \<^verbatim>\<open>crab/journal.py\<close>: one file of JSON lines per sandbox, the cached sequence
  numbers and the active transactions of one process.  A file is its text; the files are an association list, as
  \<open>known_sandbox_ids\<close> lists them.  SHA-256, the clock and the text of floats are parameters, errors of the disk are
  left out.
\<close>

section \<open>Records\<close>

record action_record =
  ar_seq :: int
  ar_kind :: string
  ar_sandbox_id :: string
  ar_txn_id :: "string option"
  ar_started_at :: string
  ar_finished_at :: "string option"
  ar_payload :: "(string \<times> pyval) list"

definition journal_schema_version :: int where
  "journal_schema_version = 1"

definition opt_text :: "string option \<Rightarrow> pyval" where
  "opt_text x = (case x of None \<Rightarrow> PNone | Some s \<Rightarrow> PStr s)"

definition record_to_json :: "action_record \<Rightarrow> pyval" where
  "record_to_json r = PDict
     [(''schema'', PInt journal_schema_version), (''seq'', PInt (ar_seq r)), (''kind'', PStr (ar_kind r)),
      (''sandbox_id'', PStr (ar_sandbox_id r)), (''txn_id'', opt_text (ar_txn_id r)),
      (''started_at'', PStr (ar_started_at r)), (''finished_at'', opt_text (ar_finished_at r)),
      (''payload'', PDict (ar_payload r))]"

text \<open>\<open>data[k]\<close> and \<open>data.get(k)\<close> of a loaded document.\<close>

definition item :: "pyval \<Rightarrow> string \<Rightarrow> pyval res" where
  "item data k =
     (case data of
        PDict kvs \<Rightarrow> (case map_of kvs k of None \<Rightarrow> Inl KeyError | Some v \<Rightarrow> Inr v)
      | _ \<Rightarrow> Inl TypeError)"

definition opt_item :: "pyval \<Rightarrow> string \<Rightarrow> string option" where
  "opt_item data k =
     (case item data k of Inl _ \<Rightarrow> None | Inr v \<Rightarrow> if v = PNone then None else Some (pystr v))"

text \<open>\<open>dict(data.get("payload") or {})\<close>; a payload that is neither empty nor an object counts as malformed.\<close>

definition payload_item :: "pyval \<Rightarrow> (string \<times> pyval) list res" where
  "payload_item data =
     (case item data ''payload'' of
        Inl _ \<Rightarrow> Inr []
      | Inr v \<Rightarrow> if \<not> py_truthy v then Inr [] else case v of PDict kvs \<Rightarrow> Inr kvs | _ \<Rightarrow> Inl TypeError)"

definition record_from_json :: "pyval \<Rightarrow> action_record res" where
  "record_from_json data =
     (case item data ''seq'' of Inl e \<Rightarrow> Inl e | Inr s \<Rightarrow>
      case py_int s of Inl e \<Rightarrow> Inl e | Inr seq \<Rightarrow>
      case item data ''kind'' of Inl e \<Rightarrow> Inl e | Inr kind \<Rightarrow>
      case item data ''sandbox_id'' of Inl e \<Rightarrow> Inl e | Inr sid \<Rightarrow>
      case item data ''started_at'' of Inl e \<Rightarrow> Inl e | Inr started \<Rightarrow>
      case payload_item data of Inl e \<Rightarrow> Inl e | Inr payload \<Rightarrow>
        Inr \<lparr>ar_seq = seq, ar_kind = pystr kind, ar_sandbox_id = pystr sid, ar_txn_id = opt_item data ''txn_id'',
             ar_started_at = pystr started, ar_finished_at = opt_item data ''finished_at'', ar_payload = payload\<rparr>)"

section \<open>The journal\<close>

record journal =
  jn_files :: "(string \<times> string) list"
  jn_next_seq :: "string \<rightharpoonup> int"
  jn_active_txn_ids :: "string \<rightharpoonup> string"

text \<open>A journal object over the files of a directory.\<close>

definition open_journal :: "(string \<times> string) list \<Rightarrow> journal" where
  "open_journal files = \<lparr>jn_files = files, jn_next_seq = Map.empty, jn_active_txn_ids = Map.empty\<rparr>"

definition set_active_txn :: "string \<Rightarrow> string option \<Rightarrow> journal \<Rightarrow> journal" where
  "set_active_txn sid txn j = j\<lparr>jn_active_txn_ids := (jn_active_txn_ids j)(sid := txn)\<rparr>"

definition active_txn :: "journal \<Rightarrow> string \<Rightarrow> string option" where
  "active_txn j sid = jn_active_txn_ids j sid"

text \<open>The stripped, non-empty lines of a text file.  Breaking at the two characters of a line end of two gives one
  more empty line, which is dropped.\<close>

fun break_lines :: "string \<Rightarrow> string list" where
  "break_lines [] = [[]]"
| "break_lines (c # cs) =
     (if c = CHR 0x0A \<or> c = CHR 0x0D then [] # break_lines cs
      else case break_lines cs of [] \<Rightarrow> [[c]] | l # ls \<Rightarrow> (c # l) # ls)"

definition text_lines :: "string \<Rightarrow> string list" where
  "text_lines s = filter (\<lambda>l. l \<noteq> []) (map str_strip (break_lines s))"

definition parse_line :: "string \<Rightarrow> action_record option" where
  "parse_line l =
     (case loads l of
        Inl _ \<Rightarrow> None
      | Inr v \<Rightarrow> (case record_from_json v of Inl _ \<Rightarrow> None | Inr r \<Rightarrow> Some r))"

definition entries :: "journal \<Rightarrow> string \<Rightarrow> string option \<Rightarrow> int option \<Rightarrow> action_record list" where
  "entries j sid kind since_seq =
     (case map_of (jn_files j) sid of
        None \<Rightarrow> []
      | Some content \<Rightarrow>
          filter (\<lambda>r. (case kind of None \<Rightarrow> True | Some k \<Rightarrow> ar_kind r = k)
                    \<and> (case since_seq of None \<Rightarrow> True | Some q \<Rightarrow> q < ar_seq r))
            (List.map_filter parse_line (text_lines content)))"

definition known_sandbox_ids :: "journal \<Rightarrow> string list" where
  "known_sandbox_ids j = sort_key (\<lambda>sid. sid @ ''.jsonl'') (map fst (jn_files j))"

text \<open>\<open>_resolve_next_seq\<close>.  A line that is JSON but not an object has no \<open>get\<close>.\<close>

fun last_seq :: "int \<Rightarrow> string list \<Rightarrow> int res" where
  "last_seq acc [] = Inr acc"
| "last_seq acc (l # ls) =
     (case loads l of
        Inl _ \<Rightarrow> last_seq acc ls
      | Inr (PDict kvs) \<Rightarrow>
          (case map_of kvs ''seq'' of
             None \<Rightarrow> last_seq acc ls
           | Some v \<Rightarrow> (case py_int v of Inl _ \<Rightarrow> last_seq acc ls | Inr n \<Rightarrow> last_seq n ls))
      | Inr _ \<Rightarrow> Inl AttributeError)"

definition resolve_next_seq :: "journal \<Rightarrow> string \<Rightarrow> int res" where
  "resolve_next_seq j sid =
     (case jn_next_seq j sid of
        Some n \<Rightarrow> Inr n
      | None \<Rightarrow>
          (case map_of (jn_files j) sid of
             None \<Rightarrow> Inr 0
           | Some content \<Rightarrow> (case last_seq (- 1) (text_lines content) of Inl e \<Rightarrow> Inl e | Inr n \<Rightarrow> Inr (n + 1))))"

definition record_line :: "(rat \<Rightarrow> string) \<Rightarrow> action_record \<Rightarrow> string" where
  "record_line fr r = dumps fr (record_to_json r) @ [CHR 0x0A]"

definition append_text :: "string \<Rightarrow> string \<Rightarrow> journal \<Rightarrow> journal" where
  "append_text sid s j =
     j\<lparr>jn_files := AList.update sid ((case map_of (jn_files j) sid of None \<Rightarrow> [] | Some t \<Rightarrow> t) @ s) (jn_files j)\<rparr>"

definition append_record ::
  "(rat \<Rightarrow> string) \<Rightarrow> string \<Rightarrow> string \<Rightarrow> (string \<times> pyval) list \<Rightarrow> string \<Rightarrow> string option \<Rightarrow> string option
     \<Rightarrow> (journal, action_record) act" where
  "append_record fr sid kind payload started finished txn j =
     (let txn' = (case txn of None \<Rightarrow> jn_active_txn_ids j sid | Some t \<Rightarrow> Some t) in
      case resolve_next_seq j sid of
        Inl e \<Rightarrow> (Inl e, j)
      | Inr seq \<Rightarrow>
          (let r = \<lparr>ar_seq = seq, ar_kind = kind, ar_sandbox_id = sid, ar_txn_id = txn', ar_started_at = started,
                    ar_finished_at = finished, ar_payload = payload\<rparr>
           in (Inr r, (append_text sid (record_line fr r) j)\<lparr>jn_next_seq := (jn_next_seq j)(sid \<mapsto> seq + 1)\<rparr>)))"

section \<open>Recording\<close>

text \<open>\<open>round(x, 3)\<close>, to even on a tie.\<close>

definition round3 :: "rat \<Rightarrow> rat" where
  "round3 r =
     (let x = r * 1000; f = \<lfloor>x\<rfloor>; d = x - of_int f
      in of_int (if d < 1 / 2 then f else if d > 1 / 2 then f + 1 else if even f then f else f + 1) / 1000)"

definition text_digest :: "(string \<Rightarrow> string) \<Rightarrow> string option \<Rightarrow> pyval \<times> pyval" where
  "text_digest sha256 t = (case t of None \<Rightarrow> (PNone, PNone) | Some s \<Rightarrow> (PInt (int (length s)), PStr (sha256 s)))"

record exec_call =
  ec_argv :: "string list"
  ec_cwd :: "string option"
  ec_env :: "(string \<times> pyval) list"
  ec_user :: "string option"
  ec_timeout_s :: "rat option"
  ec_capture_output :: bool
  ec_returncode :: "int option"
  ec_duration_ms :: rat
  ec_stdout :: "string option"
  ec_stderr :: "string option"
  ec_timed_out :: bool

definition exec_payload :: "(string \<Rightarrow> string) \<Rightarrow> exec_call \<Rightarrow> (string \<times> pyval) list" where
  "exec_payload sha256 c =
     (let out = text_digest sha256 (if ec_capture_output c then ec_stdout c else None);
          err = text_digest sha256 (if ec_capture_output c then ec_stderr c else None)
      in [(''argv'', PList (map PStr (ec_argv c))), (''cwd'', opt_text (ec_cwd c)),
          (''env'', PDict (map (\<lambda>(k, v). (k, PStr (pystr v))) (ec_env c))), (''user'', opt_text (ec_user c)),
          (''timeout_s'', case ec_timeout_s c of None \<Rightarrow> PNone | Some x \<Rightarrow> PFloat x),
          (''capture_output'', PBool (ec_capture_output c)),
          (''returncode'', case ec_returncode c of None \<Rightarrow> PNone | Some n \<Rightarrow> PInt n),
          (''duration_ms'', PFloat (round3 (ec_duration_ms c))), (''timed_out'', PBool (ec_timed_out c)),
          (''stdout_len'', fst out), (''stdout_sha256'', snd out), (''stderr_len'', fst err), (''stderr_sha256'', snd err)])"

definition record_exec ::
  "(rat \<Rightarrow> string) \<Rightarrow> (string \<Rightarrow> string) \<Rightarrow> string \<Rightarrow> exec_call \<Rightarrow> string \<Rightarrow> string \<Rightarrow> string option
     \<Rightarrow> (journal, action_record) act" where
  "record_exec fr sha256 sid c started finished txn =
     append_record fr sid ''exec'' (exec_payload sha256 c) started (Some finished) txn"

definition record_lifecycle ::
  "(rat \<Rightarrow> string) \<Rightarrow> string \<Rightarrow> string \<Rightarrow> string \<Rightarrow> (string \<times> pyval) list \<Rightarrow> string option \<Rightarrow> (journal, action_record) act" where
  "record_lifecycle fr now sid event meta txn =
     append_record fr sid ''lifecycle'' ((''event'', PStr event) # (if meta = [] then [] else [(''metadata'', PDict meta)]))
       now (Some now) txn"

definition record_egress ::
  "(rat \<Rightarrow> string) \<Rightarrow> string \<Rightarrow> string \<Rightarrow> (string \<times> pyval) list \<Rightarrow> string option \<Rightarrow> (journal, action_record) act" where
  "record_egress fr now sid payload txn = append_record fr sid ''egress'' payload now (Some now) txn"

definition record_observation ::
  "(rat \<Rightarrow> string) \<Rightarrow> string \<Rightarrow> string \<Rightarrow> (string \<times> pyval) list \<Rightarrow> string option \<Rightarrow> (journal, action_record) act" where
  "record_observation fr now sid payload txn = append_record fr sid ''observation'' payload now (Some now) txn"

end
