(* ===== verification/Journal_Log.thy ===== *)
theory Journal_Log
  imports Journal
begin

text \<open>
  The journal is a log: whatever is recorded, over restarts of the process, every record is read back once, in order,
  with consecutive sequence numbers and the transaction that was active.
\<close>

section \<open>Lines\<close>

text \<open>The form in which a record comes back: dictionaries have their keys sorted.\<close>

definition stored :: "action_record \<Rightarrow> action_record" where
  "stored r = r\<lparr>ar_payload := sort_key fst (map (map_prod id sort_keys) (ar_payload r))\<rparr>"

definition payload_ok :: "(rat \<Rightarrow> string) \<Rightarrow> (string \<times> pyval) list \<Rightarrow> bool" where
  "payload_ok fr p = json_ok fr (PDict p)"

lemma map_of_sorted:
  assumes "distinct (map fst kvs)"
  shows "map_of (sort_key fst kvs) = map_of kvs"
proof -
  have "distinct (map fst (sort_key fst kvs))"
    using assms by (metis mset_eq_imp_distinct_iff mset_map mset_sort)
  then show ?thesis using assms by (simp add: map_of_inject_set)
qed

lemma item_sorted:
  assumes "distinct (map fst kvs)"
  shows "item (sort_keys (PDict kvs)) k = map_sum id sort_keys (item (PDict kvs) k)"
proof -
  let ?kvs = "map (map_prod id sort_keys) kvs"
  have "distinct (map fst ?kvs)" using assms by simp
  then have "map_of (sort_key fst ?kvs) = map_of ?kvs" by (rule map_of_sorted)
  moreover have "map_of ?kvs k = map_option sort_keys (map_of kvs k)" by (induction kvs) auto
  ultimately have "map_of (sort_key fst ?kvs) k = map_option sort_keys (map_of kvs k)" by simp
  then show ?thesis by (simp add: item_def split: option.split)
qed

lemma record_keys_distinct: "record_to_json r = PDict kvs \<Longrightarrow> distinct (map fst kvs)"
  by (auto simp: record_to_json_def)

lemma record_items:
  "item (record_to_json r) ''seq'' = Inr (PInt (ar_seq r))" "item (record_to_json r) ''kind'' = Inr (PStr (ar_kind r))"
  "item (record_to_json r) ''sandbox_id'' = Inr (PStr (ar_sandbox_id r))"
  "item (record_to_json r) ''started_at'' = Inr (PStr (ar_started_at r))"
  "item (record_to_json r) ''txn_id'' = Inr (opt_text (ar_txn_id r))"
  "item (record_to_json r) ''finished_at'' = Inr (opt_text (ar_finished_at r))"
  "item (record_to_json r) ''payload'' = Inr (PDict (ar_payload r))"
  by (simp_all add: record_to_json_def item_def)

lemma item_record_sorted: "item (sort_keys (record_to_json r)) k = map_sum id sort_keys (item (record_to_json r) k)"
  using item_sorted [OF record_keys_distinct] by (metis record_to_json_def)

lemma opt_text_sorted: "sort_keys (opt_text x) = opt_text x"
  by (simp add: opt_text_def split: option.split)

lemma record_from_sorted: "record_from_json (sort_keys (record_to_json r)) = Inr (stored r)"
proof -
  note i = item_record_sorted record_items opt_text_sorted
  have o: "opt_item (sort_keys (record_to_json r)) ''txn_id'' = ar_txn_id r"
    "opt_item (sort_keys (record_to_json r)) ''finished_at'' = ar_finished_at r"
    by (simp_all add: opt_item_def i opt_text_def pystr_def split: option.split)
  have p: "payload_item (sort_keys (record_to_json r)) = Inr (ar_payload (stored r))"
    by (auto simp: payload_item_def i stored_def)
  show ?thesis by (simp add: record_from_json_def i o p pystr_def stored_def)
qed

lemma record_json_ok: "payload_ok fr (ar_payload r) \<Longrightarrow> json_ok fr (record_to_json r)"
  by (auto simp: payload_ok_def record_to_json_def opt_text_def split: option.split)

definition line_of :: "(rat \<Rightarrow> string) \<Rightarrow> action_record \<Rightarrow> string" where
  "line_of fr r = dumps fr (record_to_json r)"

lemma parse_line_of: "payload_ok fr (ar_payload r) \<Longrightarrow> parse_line (line_of fr r) = Some (stored r)"
  using loads_dumps [OF record_json_ok] by (simp add: parse_line_def line_of_def record_from_sorted)

lemma strip_ends:
  assumes "s = c # cs" "s = ds @ [d]" "\<not> sp c" "\<not> sp d"
  shows "strip_by sp s = s"
proof -
  have "dropWhile sp s = s" using assms(1,3) by simp
  moreover have "dropWhile sp (rev s) = rev s" using assms(2,4) by simp
  ultimately show ?thesis by (simp add: strip_by_def)
qed

lemma line_of_form: "\<exists>cs. line_of fr r = CHR ''{'' # cs @ [CHR ''}'']"
  by (simp add: line_of_def dumps_def record_to_json_def)

lemma line_of_strip: "str_strip (line_of fr r) = line_of fr r" "line_of fr r \<noteq> []"
proof -
  obtain cs where l: "line_of fr r = CHR ''{'' # cs @ [CHR ''}'']" using line_of_form by blast
  show "str_strip (line_of fr r) = line_of fr r"
    by (rule strip_ends [of _ "CHR ''{''" "cs @ [CHR ''}'']" "CHR ''{'' # cs" "CHR ''}''"]) (simp_all add: l str_space_def)
  show "line_of fr r \<noteq> []" using l by simp
qed

lemma break_lines_line:
  assumes "\<forall>c \<in> set l. c \<noteq> CHR 0x0A \<and> c \<noteq> CHR 0x0D"
  shows "break_lines (l @ CHR 0x0A # s) = l # break_lines s"
  using assms by (induction l) auto

lemma line_of_no_break: "payload_ok fr (ar_payload r) \<Longrightarrow> \<forall>c \<in> set (line_of fr r). c \<noteq> CHR 0x0A \<and> c \<noteq> CHR 0x0D"
  using dumps_line [OF record_json_ok, of fr r] by (auto simp: line_of_def line_char_def)

lemma text_lines_records:
  assumes "\<forall>r \<in> set rs. payload_ok fr (ar_payload r)"
  shows "text_lines (concat (map (record_line fr) rs)) = map (line_of fr) rs"
  using assms
proof (induction rs)
  case (Cons r rs)
  have "record_line fr r @ s = line_of fr r @ CHR 0x0A # s" for s by (simp add: record_line_def line_of_def)
  then show ?case
    using Cons break_lines_line [OF line_of_no_break, of fr r] line_of_strip [of fr r] by (simp add: text_lines_def)
qed (simp add: text_lines_def strip_by_def)

lemma last_seq_records:
  assumes "\<forall>r \<in> set rs. payload_ok fr (ar_payload r)"
  shows "last_seq acc (map (line_of fr) rs) = Inr (if rs = [] then acc else ar_seq (last rs))"
  using assms
proof (induction rs arbitrary: acc)
  case (Cons r rs)
  obtain kvs where kvs: "sort_keys (record_to_json r) = PDict kvs" by (simp add: record_to_json_def)
  have "item (PDict kvs) ''seq'' = Inr (PInt (ar_seq r))" using item_record_sorted [of r "''seq''"] kvs record_items(1) by simp
  then have "map_of kvs ''seq'' = Some (PInt (ar_seq r))" by (simp add: item_def split: option.splits)
  moreover have "loads (line_of fr r) = Inr (PDict kvs)"
    using loads_dumps [OF record_json_ok, of fr r] Cons.prems kvs by (simp add: line_of_def)
  ultimately show ?case using Cons by simp
qed simp

section \<open>Histories\<close>

text \<open>What happens to a journal, and to the log it stands for: the records of each sandbox and the active transactions.
  At a restart a new object is made over the files.\<close>

datatype journal_op =
    SetTxn string "string option"
  | Append string string "(string \<times> pyval) list" string "string option" "string option"
  | Restart

fun apply_journal_op :: "(rat \<Rightarrow> string) \<Rightarrow> journal_op \<Rightarrow> journal \<Rightarrow> journal" where
  "apply_journal_op fr (SetTxn sid txn) j = set_active_txn sid txn j"
| "apply_journal_op fr (Append sid kind payload started finished txn) j =
     snd (append_record fr sid kind payload started finished txn j)"
| "apply_journal_op fr Restart j = open_journal (jn_files j)"

type_synonym log = "(string \<Rightarrow> action_record list) \<times> (string \<rightharpoonup> string)"

definition next_record ::
  "log \<Rightarrow> string \<Rightarrow> string \<Rightarrow> (string \<times> pyval) list \<Rightarrow> string \<Rightarrow> string option \<Rightarrow> string option \<Rightarrow> action_record" where
  "next_record l sid kind payload started finished txn =
     \<lparr>ar_seq = int (length (fst l sid)), ar_kind = kind, ar_sandbox_id = sid,
      ar_txn_id = (case txn of None \<Rightarrow> snd l sid | Some t \<Rightarrow> Some t), ar_started_at = started,
      ar_finished_at = finished, ar_payload = payload\<rparr>"

fun log_op :: "journal_op \<Rightarrow> log \<Rightarrow> log" where
  "log_op (SetTxn sid txn) l = (fst l, (snd l)(sid := txn))"
| "log_op (Append sid kind payload started finished txn) l =
     ((fst l)(sid := fst l sid @ [next_record l sid kind payload started finished txn]), snd l)"
| "log_op Restart l = (fst l, Map.empty)"

definition log_after :: "journal_op list \<Rightarrow> log" where
  "log_after ops = fold log_op ops (\<lambda>_. [], Map.empty)"

definition journal_after :: "(rat \<Rightarrow> string) \<Rightarrow> journal_op list \<Rightarrow> journal" where
  "journal_after fr ops = fold (apply_journal_op fr) ops (open_journal [])"

fun journal_op_ok :: "(rat \<Rightarrow> string) \<Rightarrow> journal_op \<Rightarrow> bool" where
  "journal_op_ok fr (Append sid kind payload started finished txn) = payload_ok fr payload"
| "journal_op_ok fr op = True"

text \<open>The relation between a journal and its log.\<close>

definition file_text :: "journal \<Rightarrow> string \<Rightarrow> string" where
  "file_text j sid = (case map_of (jn_files j) sid of None \<Rightarrow> [] | Some t \<Rightarrow> t)"

definition keeps_log :: "(rat \<Rightarrow> string) \<Rightarrow> journal \<Rightarrow> log \<Rightarrow> bool" where
  "keeps_log fr j l =
     (jn_active_txn_ids j = snd l
      \<and> (\<forall>sid. file_text j sid = concat (map (record_line fr) (fst l sid))
             \<and> (\<forall>r \<in> set (fst l sid). payload_ok fr (ar_payload r))
             \<and> map ar_seq (fst l sid) = map int [0..<length (fst l sid)]
             \<and> jn_next_seq j sid \<in> {None, Some (int (length (fst l sid)))}))"

lemma keeps_logD:
  assumes "keeps_log fr j l"
  shows "jn_active_txn_ids j = snd l" and "file_text j sid = concat (map (record_line fr) (fst l sid))"
    and "\<forall>r \<in> set (fst l sid). payload_ok fr (ar_payload r)" and "map ar_seq (fst l sid) = map int [0..<length (fst l sid)]"
    and "jn_next_seq j sid \<in> {None, Some (int (length (fst l sid)))}"
  using assms unfolding keeps_log_def by blast+

lemma file_text_append: "file_text (append_text sid s j) sid' = (if sid' = sid then file_text j sid @ s else file_text j sid')"
  by (simp add: file_text_def append_text_def update_conv' split: option.split)

lemma append_text_fields [simp]:
  "jn_next_seq (append_text sid s j) = jn_next_seq j" "jn_active_txn_ids (append_text sid s j) = jn_active_txn_ids j"
  by (simp_all add: append_text_def)

lemma last_seq_nth:
  assumes "map ar_seq rs = map int [0..<length rs]" "rs \<noteq> []"
  shows "ar_seq (last rs) = int (length rs) - 1"
proof -
  have "ar_seq (last rs) = map ar_seq rs ! (length rs - 1)" using assms(2) by (simp add: last_conv_nth)
  also have "\<dots> = int (length rs - 1)" using assms(2) unfolding assms(1) by simp
  finally show ?thesis using assms(2) by (cases rs) simp_all
qed

lemma resolve_next_seq_log:
  assumes "keeps_log fr j l"
  shows "resolve_next_seq j sid = Inr (int (length (fst l sid)))"
proof (cases "jn_next_seq j sid")
  case (Some n)
  then show ?thesis using keeps_logD(5) [OF assms, of sid] by (simp add: resolve_next_seq_def)
next
  case None
  let ?rs = "fst l sid"
  note d = keeps_logD(2-5) [OF assms, of sid]
  have seq: "last_seq (- 1) (text_lines (file_text j sid)) = Inr (int (length ?rs) - 1)"
    unfolding d(1) text_lines_records [OF d(2)] last_seq_records [OF d(2)] using last_seq_nth [OF d(3)] by auto
  show ?thesis
  proof (cases "map_of (jn_files j) sid")
    case None
    then have "?rs = []" using d(1) by (cases ?rs) (auto simp: file_text_def record_line_def)
    then show ?thesis using None \<open>jn_next_seq j sid = None\<close> by (simp add: resolve_next_seq_def)
  next
    case (Some t)
    then show ?thesis using seq \<open>jn_next_seq j sid = None\<close> by (simp add: resolve_next_seq_def file_text_def)
  qed
qed

lemma append_record_log:
  assumes "keeps_log fr j l"
  shows "append_record fr sid kind payload started finished txn j =
     (let r = next_record l sid kind payload started finished txn in
      (Inr r, (append_text sid (record_line fr r) j)\<lparr>jn_next_seq := (jn_next_seq j)(sid \<mapsto> int (length (fst l sid)) + 1)\<rparr>))"
  by (simp add: append_record_def next_record_def Let_def resolve_next_seq_log [OF assms] keeps_logD(1) [OF assms] cong: option.case_cong)

lemma file_text_update [simp]: "file_text (j\<lparr>jn_next_seq := x\<rparr>) sid = file_text j sid"
  by (simp add: file_text_def)

lemma keeps_log_op:
  assumes "keeps_log fr j l" "journal_op_ok fr op"
  shows "keeps_log fr (apply_journal_op fr op j) (log_op op l)"
proof (cases op)
  case (SetTxn sid txn)
  then show ?thesis using assms(1) by (simp add: keeps_log_def set_active_txn_def file_text_def)
next
  case (Append sid kind payload started finished txn)
  let ?r = "next_record l sid kind payload started finished txn"
  have "payload_ok fr (ar_payload ?r)" "ar_seq ?r = int (length (fst l sid))" using assms(2) Append by (simp_all add: next_record_def)
  then show ?thesis
    using keeps_logD(1) [OF assms(1)] keeps_logD(2-5) [OF assms(1)] unfolding Append apply_journal_op.simps append_record_log [OF assms(1)] keeps_log_def
    by (auto simp: Let_def file_text_append)
next
  case Restart
  then show ?thesis using assms(1) by (simp add: keeps_log_def open_journal_def file_text_def)
qed

lemma keeps_log_after: "\<forall>op \<in> set ops. journal_op_ok fr op \<Longrightarrow> keeps_log fr (journal_after fr ops) (log_after ops)"
proof (induction ops rule: rev_induct)
  case Nil
  show ?case by (simp add: keeps_log_def journal_after_def log_after_def open_journal_def file_text_def)
next
  case (snoc op ops)
  then show ?case using keeps_log_op by (simp add: journal_after_def log_after_def)
qed

lemma entries_log:
  assumes "keeps_log fr j l"
  shows "entries j sid None None = map stored (fst l sid)"
proof -
  note d = keeps_logD(2-5) [OF assms, of sid]
  have "entries j sid None None = List.map_filter parse_line (text_lines (file_text j sid))"
    by (simp add: entries_def file_text_def text_lines_def strip_by_def map_filter_simps split: option.split)
  also have "\<dots> = List.map_filter parse_line (map (line_of fr) (fst l sid))" unfolding d(1) text_lines_records [OF d(2)] ..
  also have "\<dots> = map stored (fst l sid)"
    using d(2) by (induction "fst l sid") (auto simp: map_filter_simps parse_line_of map_filter_def)
  finally show ?thesis .
qed

lemma filter_after:
  "map f xs = map int [k..<k + length xs] \<Longrightarrow> filter (\<lambda>x. int n < f x) xs = drop (Suc n - k) xs"
proof (induction xs arbitrary: k)
  case (Cons x xs)
  have "[k..<k + length (x # xs)] = k # [Suc k..<Suc k + length xs]" using upt_conv_Cons [of k "k + length (x # xs)"] by simp
  then have x: "f x = int k" and rest: "map f xs = map int [Suc k..<Suc k + length xs]" using Cons.prems by simp_all
  show ?case
  proof (cases "n < k")
    case True
    then have "Suc n - Suc k = 0" "Suc n - k = 0" by simp_all
    then show ?thesis using Cons.IH [OF rest] x True by simp
  next
    case False
    then have "Suc n - k = Suc (Suc n - Suc k)" by simp
    then show ?thesis using Cons.IH [OF rest] x False by simp
  qed
qed simp

lemma entries_filtered:
  "entries j sid None (Some q) = filter (\<lambda>r. q < ar_seq r) (entries j sid None None)"
  by (simp add: entries_def split: option.split)

section \<open>Properties\<close>

text \<open>C17.  The journal is a log.  After any history of recordings, changes of the active transaction and restarts,
  reading a sandbox's journal gives exactly the records made for it, in order and with the transaction that was active;
  they are numbered from zero without gaps; reading from a number on gives exactly the later records; and a further
  record succeeds with the next number.\<close>

theorem journal_is_log:
  assumes "\<forall>op \<in> set ops. journal_op_ok fr op"
  shows "entries (journal_after fr ops) sid None None = map stored (fst (log_after ops) sid)
    \<and> map ar_seq (fst (log_after ops) sid) = map int [0..<length (fst (log_after ops) sid)]
    \<and> entries (journal_after fr ops) sid None (Some (int n)) = map stored (drop (Suc n) (fst (log_after ops) sid))
    \<and> fst (append_record fr sid kind payload started finished txn (journal_after fr ops))
        = Inr (next_record (log_after ops) sid kind payload started finished txn)"
proof -
  note k = keeps_log_after [OF assms]
  let ?rs = "map stored (fst (log_after ops) sid)"
  have "map ar_seq ?rs = map ar_seq (fst (log_after ops) sid)" by (simp add: stored_def)
  also have "\<dots> = map int [0..<0 + length ?rs]" using keeps_logD(4) [OF k, of sid] by simp
  finally have "filter (\<lambda>r. int n < ar_seq r) ?rs = drop (Suc n) ?rs" using filter_after [of ar_seq ?rs 0 n] by simp
  then show ?thesis
    using entries_log [OF k, of sid] keeps_logD(4) [OF k, of sid] append_record_log [OF k, of sid kind payload started finished txn]
    by (simp add: entries_filtered Let_def drop_map)
qed

definition example_history :: "journal_op list" where
  "example_history =
     [Append ''sb1'' ''lifecycle'' [(''event'', PStr ''launch'')] ''t0'' None None, SetTxn ''sb1'' (Some ''txn-1''),
      Append ''sb1'' ''exec'' [(''returncode'', PInt 0), (''argv'', PList [PStr ''ls''])] ''t1'' (Some ''t2'') None, Restart,
      Append ''sb1'' ''lifecycle'' [(''event'', PStr ''restore'')] ''t3'' None None]"

theorem journal_is_log_witness:
  "map ar_seq (entries (journal_after (\<lambda>_. ''0.0'') example_history) ''sb1'' None None) = [0, 1, 2]
   \<and> map ar_txn_id (entries (journal_after (\<lambda>_. ''0.0'') example_history) ''sb1'' None None) = [None, Some ''txn-1'', None]
   \<and> length (entries (journal_after (\<lambda>_. ''0.0'') example_history) ''sb1'' None (Some (int 0))) = 2"
proof -
  have ok: "\<forall>op \<in> set example_history. journal_op_ok (\<lambda>_. ''0.0'') op"
    by (simp add: example_history_def payload_ok_def)
  have log: "map ar_seq (fst (log_after example_history) ''sb1'') = [0, 1, 2]"
    "map ar_txn_id (fst (log_after example_history) ''sb1'') = [None, Some ''txn-1'', None]"
    by (simp_all add: example_history_def log_after_def next_record_def)
  have st: "map ar_seq (map stored rs) = map ar_seq rs" "map ar_txn_id (map stored rs) = map ar_txn_id rs" for rs
    by (simp_all add: stored_def)
  have "length (fst (log_after example_history) ''sb1'') = 3" using log(1) by (metis length_Cons length_map list.size(3) numeral_3_eq_3)
  then show ?thesis using journal_is_log [OF ok, of "''sb1''" 0] log by (simp add: st del: map_map)
qed

text \<open>A process that dies while it writes leaves part of a line without its end.  The next record continues that line
  and is lost: reading gives the records around it only.\<close>

definition torn_journal :: journal where
  "torn_journal = open_journal (jn_files (append_text ''sb1'' (take 20 (record_line (\<lambda>_. ''0.0'')
     \<lparr>ar_seq = 0, ar_kind = ''exec'', ar_sandbox_id = ''sb1'', ar_txn_id = None, ar_started_at = ''t'', ar_finished_at = None,
      ar_payload = []\<rparr>)) (open_journal [])))"

definition lifecycle_of :: "string \<Rightarrow> journal \<Rightarrow> journal" where
  "lifecycle_of event j = snd (record_lifecycle (\<lambda>_. ''0.0'') ''t'' ''sb1'' event [] None j)"

lemma record_after_torn_line_lost:
  "map ar_payload (entries (lifecycle_of ''b'' (lifecycle_of ''a'' torn_journal)) ''sb1'' None None) = [[(''event'', PStr ''b'')]]"
  by code_simp

text \<open>Two processes over the same files give out the same number.\<close>

lemma two_writers_same_seq:
  "let j1 = lifecycle_of ''a'' (open_journal []);
       j2 = lifecycle_of ''b'' (open_journal (jn_files j1));
       j3 = lifecycle_of ''c'' (j1\<lparr>jn_files := jn_files j2\<rparr>)
   in map ar_seq (entries j3 ''sb1'' None None) = [0, 1, 1]"
  by code_simp

end
