(* ===== verification/Glob.thy ===== *)
theory Glob
  imports Crab_Prelude
begin

text \<open>
  File name patterns as \<open>fnmatch.fnmatch\<close> matches them on POSIX, where case is kept: \<open>*\<close>, \<open>?\<close>, and bracketed sets of
  characters and ranges with \<open>!\<close> for the complement.
\<close>

datatype glob = Star | AnyChar | Lit char | OneOf bool "(char \<times> char) list"

text \<open>The text between the brackets: a hyphen between two characters makes a range, and a range that runs backwards is
  empty.\<close>

fun class_ranges :: "string \<Rightarrow> (char \<times> char) list" where
  "class_ranges [] = []"
| "class_ranges [c] = [(c, c)]"
| "class_ranges [c, d] = [(c, c), (d, d)]"
| "class_ranges (c # h # d # cs) =
     (if h = CHR ''-'' then (if c \<le> d then [(c, d)] else []) @ class_ranges cs
      else (c, c) # class_ranges (h # d # cs))"

text \<open>What follows an opening bracket up to the closing one, which is not the first character of the set.\<close>

definition split_class :: "string \<Rightarrow> (string \<times> string) option" where
  "split_class s =
     (let neg = (if take 1 s = ''!'' then ''!'' else []);
          s1 = drop (length neg) s;
          lead = (if take 1 s1 = '']'' then '']'' else []);
          s2 = drop (length lead) s1;
          body = takeWhile (\<lambda>c. c \<noteq> CHR '']'') s2
      in if length body < length s2 then Some (neg @ lead @ body, drop (Suc (length body)) s2) else None)"

definition class_token :: "string \<Rightarrow> glob" where
  "class_token body = (if take 1 body = ''!'' then OneOf False (class_ranges (drop 1 body)) else OneOf True (class_ranges body))"

lemma split_class_shorter: "split_class s = Some (b, r) \<Longrightarrow> length r < length s"
  by (auto simp: split_class_def Let_def split: if_splits)

function glob_tokens :: "string \<Rightarrow> glob list" where
  "glob_tokens [] = []"
| "glob_tokens (c # cs) =
     (if c = CHR ''*'' then Star # glob_tokens cs
      else if c = CHR ''?'' then AnyChar # glob_tokens cs
      else if c = CHR ''[''
      then (case split_class cs of
              None \<Rightarrow> Lit c # glob_tokens cs
            | Some (body, rest) \<Rightarrow> class_token body # glob_tokens rest)
      else Lit c # glob_tokens cs)"
  by pat_completeness auto
termination
  by (relation "measure length") (auto dest: split_class_shorter [OF sym] split_class_shorter)

definition in_class :: "bool \<Rightarrow> (char \<times> char) list \<Rightarrow> char \<Rightarrow> bool" where
  "in_class pos rs c = (list_ex (\<lambda>(a, b). a \<le> c \<and> c \<le> b) rs = pos)"

fun glob_match :: "glob list \<Rightarrow> string \<Rightarrow> bool" where
  "glob_match [] s = (s = [])"
| "glob_match (Star # ps) s = (glob_match ps s \<or> (case s of [] \<Rightarrow> False | _ # cs \<Rightarrow> glob_match (Star # ps) cs))"
| "glob_match (AnyChar # ps) s = (case s of [] \<Rightarrow> False | _ # cs \<Rightarrow> glob_match ps cs)"
| "glob_match (Lit x # ps) s = (case s of [] \<Rightarrow> False | c # cs \<Rightarrow> c = x \<and> glob_match ps cs)"
| "glob_match (OneOf pos rs # ps) s = (case s of [] \<Rightarrow> False | c # cs \<Rightarrow> in_class pos rs c \<and> glob_match ps cs)"

definition fnmatch :: "string \<Rightarrow> string \<Rightarrow> bool" where
  "fnmatch name pat = glob_match (glob_tokens pat) name"

lemma glob_match_star: "glob_match [Star] s"
proof (induction s)
  case (Cons c s)
  then show ?case by simp
qed simp

lemma fnmatch_star [simp]: "fnmatch name ''*''"
  using glob_match_star by (simp add: fnmatch_def)

text \<open>A pattern without special characters matches only itself.\<close>

lemma fnmatch_plain:
  assumes "\<forall>c \<in> set pat. c \<notin> {CHR ''*'', CHR ''?'', CHR ''[''}"
  shows "fnmatch name pat \<longleftrightarrow> name = pat"
proof -
  have "glob_tokens pat = map Lit pat" using assms by (induction pat) auto
  moreover have "glob_match (map Lit pat) name \<longleftrightarrow> name = pat"
  proof (induction pat arbitrary: name)
    case (Cons c pat)
    then show ?case by (cases name) auto
  qed simp
  ultimately show ?thesis by (simp add: fnmatch_def)
qed

end
