(* ===== verification/Effects.thy ===== *)
theory Effects
  imports Glob Http_Wire "HOL-Library.AList"
begin

text \<open>
  Deferred side effects, \<^verbatim>\<open>crab/effects.py\<close>, with the classification of flows and the gate of the egress proxy in
  \<^verbatim>\<open>crab/egress.py\<close> that asks it.  Every method of the gate runs under its lock and is one step on the map of
  sessions.  A socket is the list of pieces that arrive on it; an empty piece stands for an error or a timeout.
  SHA-256, the network of the host and the clock are parameters.
\<close>

section \<open>Rules\<close>

definition effect_policies :: "string list" where
  "effect_policies = [''allow'', ''defer'', ''reject'', ''seal'']"

definition unlisted_behaviors :: "string list" where
  "unlisted_behaviors = [''reject'', ''allow'']"

definition opaque_behaviors :: "string list" where
  "opaque_behaviors = [''allow'', ''reject'', ''seal'']"

definition default_max_queue_bytes :: int where
  "default_max_queue_bytes = 16 * 1024 * 1024"

definition default_max_queue_entries :: int where
  "default_max_queue_entries = 256"

datatype decision = Pass | Defer | Reject | Seal

definition synthetic_response :: "string \<Rightarrow> string \<Rightarrow> string \<Rightarrow> string" where
  "synthetic_response status_line effect body =
     status_line @ crlf @ ''X-Crab-Effect: '' @ effect @ crlf @ ''Content-Length: '' @ int_str (int (length body)) @ crlf
       @ ''Connection: close'' @ crlf @ crlf @ body"

definition deferred_response :: string where
  "deferred_response = synthetic_response ''HTTP/1.1 202 Accepted'' ''deferred'' []"

definition rejected_response :: string where
  "rejected_response = synthetic_response ''HTTP/1.1 503 Service Unavailable'' ''rejected''
     (''crab: mutating egress refused by txn policy'' @ [CHR 0x0A])"

record effect_rule =
  er_host_glob :: string
  er_method :: string
  er_path_glob :: string
  er_defer :: bool

definition rule_matches :: "effect_rule \<Rightarrow> string \<Rightarrow> string \<Rightarrow> string \<Rightarrow> bool" where
  "rule_matches rule host method path =
     (if er_method rule \<noteq> ''*'' \<and> str_upper (er_method rule) \<noteq> str_upper method then False
      else if \<not> fnmatch (str_lower host) (str_lower (er_host_glob rule)) then False
      else fnmatch path (er_path_glob rule))"

section \<open>The gate\<close>

record deferred_request =
  dr_method :: string
  dr_host :: string
  dr_port :: int
  dr_path :: string
  dr_headers :: "(string \<times> string) list"
  dr_body :: string
  dr_txn_id :: "string option"
  dr_enqueued_at :: "string option"

record effect_session =
  es_policy :: string
  es_on_unlisted :: string
  es_opaque_effects :: string
  es_rules :: "effect_rule list"
  es_txn_id :: "string option"
  es_queue :: "deferred_request list"
  es_max_queue_bytes :: int
  es_max_queue_entries :: int
  es_queued_bytes :: int
  es_deferred :: int
  es_rejected :: int
  es_passed :: int
  es_sealed :: bool

type_synonym effect_gate = "string \<rightharpoonup> effect_session"

definition new_session ::
  "string \<Rightarrow> string \<Rightarrow> string \<Rightarrow> effect_rule list \<Rightarrow> string option \<Rightarrow> int \<Rightarrow> int \<Rightarrow> effect_session" where
  "new_session policy on_unlisted opaque rules txn max_bytes max_entries =
     \<lparr>es_policy = policy, es_on_unlisted = on_unlisted, es_opaque_effects = opaque, es_rules = rules, es_txn_id = txn,
      es_queue = [], es_max_queue_bytes = max_bytes, es_max_queue_entries = max_entries, es_queued_bytes = 0,
      es_deferred = 0, es_rejected = 0, es_passed = 0, es_sealed = False\<rparr>"

definition gate_begin ::
  "string \<Rightarrow> string \<Rightarrow> string \<Rightarrow> string \<Rightarrow> effect_rule list \<Rightarrow> string option \<Rightarrow> int \<Rightarrow> int \<Rightarrow> (effect_gate, effect_session) act" where
  "gate_begin sid policy on_unlisted opaque rules txn max_bytes max_entries g =
     (if policy \<notin> set effect_policies \<or> on_unlisted \<notin> set unlisted_behaviors \<or> opaque \<notin> set opaque_behaviors
      then (Inl ValueError, g)
      else let s = new_session policy on_unlisted opaque rules txn max_bytes max_entries in (Inr s, g(sid \<mapsto> s)))"

definition gate_end :: "string \<Rightarrow> effect_gate \<Rightarrow> effect_session option \<times> effect_gate" where
  "gate_end sid g = (g sid, g(sid := None))"

definition sealed :: "effect_gate \<Rightarrow> string \<Rightarrow> bool" where
  "sealed g sid = (case g sid of None \<Rightarrow> False | Some s \<Rightarrow> es_sealed s)"

definition drain :: "string \<Rightarrow> effect_gate \<Rightarrow> deferred_request list \<times> effect_gate" where
  "drain sid g =
     (case g sid of
        None \<Rightarrow> ([], g)
      | Some s \<Rightarrow> (es_queue s, g(sid \<mapsto> s\<lparr>es_queue := [], es_queued_bytes := 0\<rparr>)))"

definition counters :: "effect_gate \<Rightarrow> string \<Rightarrow> int \<times> int \<times> int \<times> bool" where
  "counters g sid =
     (case g sid of None \<Rightarrow> (0, 0, 0, False) | Some s \<Rightarrow> (es_deferred s, es_rejected s, es_passed s, es_sealed s))"

definition decide :: "effect_session \<Rightarrow> string \<Rightarrow> string \<Rightarrow> string \<Rightarrow> decision" where
  "decide s host method path =
     (if es_policy s = ''allow'' then Pass
      else if es_policy s = ''reject'' then Reject
      else if es_policy s = ''seal'' then Seal
      else case find (\<lambda>rule. rule_matches rule host method path) (es_rules s) of
             Some rule \<Rightarrow> if er_defer rule then Defer else Pass
           | None \<Rightarrow> if es_on_unlisted s = ''allow'' then Pass else Reject)"

definition count_decision :: "decision \<Rightarrow> effect_session \<Rightarrow> effect_session" where
  "count_decision d s =
     (case d of
        Pass \<Rightarrow> s\<lparr>es_passed := es_passed s + 1\<rparr>
      | Reject \<Rightarrow> s\<lparr>es_rejected := es_rejected s + 1\<rparr>
      | Seal \<Rightarrow> s\<lparr>es_sealed := True, es_passed := es_passed s + 1\<rparr>
      | Defer \<Rightarrow> s)"

definition decide_write :: "string \<Rightarrow> string \<Rightarrow> string \<Rightarrow> string \<Rightarrow> effect_gate \<Rightarrow> decision option \<times> effect_gate" where
  "decide_write sid host method path g =
     (case g sid of
        None \<Rightarrow> (None, g)
      | Some s \<Rightarrow> let d = decide s host method path in (Some d, g(sid \<mapsto> count_decision d s)))"

definition decide_opaque :: "string \<Rightarrow> effect_gate \<Rightarrow> decision option \<times> effect_gate" where
  "decide_opaque sid g =
     (case g sid of
        None \<Rightarrow> (None, g)
      | Some s \<Rightarrow>
          let d = (if es_opaque_effects s = ''reject'' then Reject
                   else if es_opaque_effects s = ''seal'' then Seal else Pass)
          in (Some d, g(sid \<mapsto> count_decision d s)))"

definition enqueue :: "string \<Rightarrow> deferred_request \<Rightarrow> effect_gate \<Rightarrow> int \<times> effect_gate" where
  "enqueue sid req g =
     (case g sid of
        None \<Rightarrow> (0, g)
      | Some s \<Rightarrow>
          let size = int (length (dr_body req)) in
          if int (length (es_queue s)) \<ge> es_max_queue_entries s \<or> es_queued_bytes s + size > es_max_queue_bytes s
          then (- 1, g(sid \<mapsto> s\<lparr>es_rejected := es_rejected s + 1\<rparr>))
          else (int (length (es_queue s)) + 1,
                g(sid \<mapsto> s\<lparr>es_queue := es_queue s @ [req], es_queued_bytes := es_queued_bytes s + size,
                           es_deferred := es_deferred s + 1\<rparr>)))"

definition queue_size :: "effect_gate \<Rightarrow> string \<Rightarrow> int \<times> int" where
  "queue_size g sid = (case g sid of None \<Rightarrow> (0, 0) | Some s \<Rightarrow> (int (length (es_queue s)), es_queued_bytes s))"

section \<open>Requests\<close>

text \<open>\<open>host.rpartition(":")\<close> of a text with a colon.\<close>

definition before_last_colon :: "string \<Rightarrow> string" where
  "before_last_colon s = rev (drop 1 (dropWhile (\<lambda>c. c \<noteq> CHR '':'') (rev s)))"

definition after_last_colon :: "string \<Rightarrow> string" where
  "after_last_colon s = rev (takeWhile (\<lambda>c. c \<noteq> CHR '':'') (rev s))"

definition bare_host :: "string \<Rightarrow> string" where
  "bare_host host =
     (if take 1 host = ''[''
      then (if CHR '']'' \<notin> set host then host
            else let name = takeWhile (\<lambda>c. c \<noteq> CHR '']'') host @ '']''; rest = drop (length name) host
                 in if take 1 rest = '':'' \<and> str_isdigit (drop 1 rest) then name else host)
      else if length (filter (\<lambda>c. c = CHR '':'') host) \<noteq> 1 then host
      else if str_isdigit (after_last_colon host) then before_last_colon host else host)"

definition request_header_deny_list :: "string list" where
  "request_header_deny_list = [''authorization'', ''cookie'', ''proxy-authorization'', ''x-api-key'', ''x-auth-token'']"

definition filter_headers :: "(string \<times> string) list \<Rightarrow> string list \<Rightarrow> (string \<times> string) list" where
  "filter_headers hs deny = filter (\<lambda>(name, _). map latin1_lower name \<notin> set (map (map latin1_lower) deny)) hs"

definition build_deferred_request ::
  "http_head \<Rightarrow> string \<Rightarrow> string \<Rightarrow> int \<Rightarrow> string \<Rightarrow> string \<Rightarrow> string option \<Rightarrow> string option \<Rightarrow> deferred_request" where
  "build_deferred_request head body host port method path txn now =
     \<lparr>dr_method = str_upper method, dr_host = bare_host host, dr_port = port, dr_path = path,
      dr_headers = filter_headers (headers head) request_header_deny_list, dr_body = body, dr_txn_id = txn, dr_enqueued_at = now\<rparr>"

text \<open>\<open>sock.recv(n)\<close>: at most \<open>n\<close> bytes of the piece at hand; nothing at the end of the stream.\<close>

definition recv :: "nat \<Rightarrow> string list \<Rightarrow> string \<times> string list" where
  "recv n sock =
     (case sock of
        [] \<Rightarrow> ([], [])
      | p # ps \<Rightarrow> (take n p, if drop n p = [] then ps else drop n p # ps))"

function receive_body :: "nat \<Rightarrow> string \<Rightarrow> string list \<Rightarrow> string" where
  "receive_body len body sock =
     (if length body < len
      then (case recv (min 65536 (len - length body)) sock of
              (chunk, sock') \<Rightarrow> if chunk = [] then body else receive_body len (body @ chunk) sock')
      else body)"
  by pat_completeness auto
termination
  by (relation "measure (\<lambda>(len, body, sock). len - length body)") (auto simp: diff_less_mono2)

declare receive_body.simps [simp del]

text \<open>A negative \<open>Content-Length\<close> cuts the bytes at hand from their end and reads nothing.\<close>

definition read_remaining_body :: "string list \<Rightarrow> http_head \<Rightarrow> string \<Rightarrow> int \<Rightarrow> string \<times> bool" where
  "read_remaining_body sock head already limit =
     (case content_length head of
        None \<Rightarrow> (already, already = [])
      | Some n \<Rightarrow>
          if n > limit then (already, False)
          else if n < 0 then (py_slice already 0 n, False)
          else let body = receive_body (nat n) (take (nat n) already) sock in (body, int (length body) = n))"

text \<open>The headers of a flushed request: a dictionary, with the framing stated anew.\<close>

definition flush_headers :: "deferred_request \<Rightarrow> (string \<times> string) list" where
  "flush_headers req =
     (let d = fold (\<lambda>(k, v). AList.update k v) (dr_headers req) [];
          d1 = filter (\<lambda>(k, _). k \<noteq> ''Transfer-Encoding'') d
      in AList.update ''Content-Length'' (int_str (int (length (dr_body req)))) d1)"

section \<open>The proxy\<close>

record egress_rule =
  gr_host_glob :: string
  gr_classify :: string

definition read_methods :: "string list" where
  "read_methods = [''GET'', ''HEAD'', ''OPTIONS'', ''TRACE'']"

definition mutating_methods :: "string list" where
  "mutating_methods = [''POST'', ''PUT'', ''PATCH'', ''DELETE'']"

definition classify_flow :: "string option \<Rightarrow> string \<Rightarrow> egress_rule list \<Rightarrow> string" where
  "classify_flow method host rules =
     (case find (\<lambda>rule. fnmatch (str_lower host) (str_lower (gr_host_glob rule))) rules of
        Some rule \<Rightarrow> gr_classify rule
      | None \<Rightarrow>
          (case method of
             None \<Rightarrow> ''opaque''
           | Some m \<Rightarrow>
               if str_upper m \<in> set mutating_methods then ''mutating''
               else if str_upper m \<in> set read_methods then ''idempotent_read'' else ''opaque''))"

text \<open>A connection as the handler knows it when it comes to the gate, and the part of the server's configuration used.\<close>

record flow =
  fl_scheme :: string
  fl_method :: "string option"
  fl_path :: "string option"
  fl_host :: string
  fl_dst_ip :: string
  fl_dst_port :: int
  fl_head :: string
  fl_socket :: "string list"

record proxy_server =
  px_rules :: "egress_rule list"
  px_max_deferred_body_bytes :: int

definition or_text :: "string \<Rightarrow> string \<Rightarrow> string" where
  "or_text a b = (if a = [] then b else a)"

definition opt_or :: "string option \<Rightarrow> string \<Rightarrow> string" where
  "opt_or x b = (case x of None \<Rightarrow> b | Some a \<Rightarrow> or_text a b)"

definition flow_host :: "flow \<Rightarrow> string" where
  "flow_host f = or_text (fl_host f) (fl_dst_ip f)"

text \<open>The decision for a flow; \<open>None\<close> lets it through unasked.\<close>

definition gate_decision :: "proxy_server \<Rightarrow> string \<Rightarrow> flow \<Rightarrow> effect_gate \<Rightarrow> decision option \<times> effect_gate" where
  "gate_decision px sid f g =
     (if fl_scheme f \<in> {''http'', ''https''}
      then (let verdict = classify_flow (fl_method f) (flow_host f) (px_rules px) in
            if verdict = ''mutating'' then decide_write sid (flow_host f) (opt_or (fl_method f) []) (opt_or (fl_path f) ''/'') g
            else if verdict = ''opaque'' then decide_opaque sid g
            else (None, g))
      else decide_opaque sid g)"

text \<open>What the handler does next: connect upstream, or answer itself with an effect for the ledger.\<close>

datatype flow_action = Forward | Answer string string

definition deferred_of :: "proxy_server \<Rightarrow> flow \<Rightarrow> string option \<Rightarrow> string \<Rightarrow> deferred_request option" where
  "deferred_of px f txn now =
     (case parse_head (fl_head f) of
        None \<Rightarrow> None
      | Some h \<Rightarrow>
          (case read_remaining_body (fl_socket f) h (rest h) (px_max_deferred_body_bytes px) of
             (body, whole) \<Rightarrow>
               if whole
               then Some (build_deferred_request h body (flow_host f) (fl_dst_port f) (opt_or (fl_method f) ''POST'')
                            (opt_or (fl_path f) ''/'') txn (Some now))
               else None))"

definition gate_flow :: "proxy_server \<Rightarrow> string \<Rightarrow> flow \<Rightarrow> string \<Rightarrow> effect_gate \<Rightarrow> flow_action \<times> effect_gate" where
  "gate_flow px sid f now g =
     (case gate_decision px sid f g of
        (Some Defer, g1) \<Rightarrow>
          (case deferred_of px f (case g sid of None \<Rightarrow> None | Some s \<Rightarrow> es_txn_id s) now of
             None \<Rightarrow> (Answer rejected_response ''rejected'', g1)
           | Some req \<Rightarrow>
               (case enqueue sid req g1 of
                  (pos, g2) \<Rightarrow>
                    if pos \<le> 0 then (Answer rejected_response ''rejected'', g2)
                    else (Answer deferred_response ''deferred'', g2)))
      | (Some Reject, g1) \<Rightarrow> (Answer rejected_response ''rejected'', g1)
      | (_, g1) \<Rightarrow> (Forward, g1))"

end
