(* ===== verification/Effect_Ledger.thy ===== *)
theory Effect_Ledger
  imports Effects
begin

text \<open>
  What the effect gate promises: its counters and its queue agree with the answers it gave, the queue stays within its
  limits, and a write that was answered as deferred is in the queue, whole and without credentials.
\<close>

section \<open>Accounting\<close>

text \<open>The calls of the gate, and an account of the answers given in the current session of a sandbox.\<close>

datatype gate_op =
    Begin string string string string "effect_rule list" "string option" int int
  | End string
  | Drain string
  | DecideWrite string string string string
  | DecideOpaque string
  | Enqueue string deferred_request

record account =
  ac_accepted :: "deferred_request list"
  ac_drained :: "deferred_request list"
  ac_passed :: nat
  ac_refused :: nat
  ac_sealed :: bool

definition no_account :: account where
  "no_account = \<lparr>ac_accepted = [], ac_drained = [], ac_passed = 0, ac_refused = 0, ac_sealed = False\<rparr>"

definition note_decision :: "decision option \<Rightarrow> account \<Rightarrow> account" where
  "note_decision d a =
     (case d of
        Some Pass \<Rightarrow> a\<lparr>ac_passed := Suc (ac_passed a)\<rparr>
      | Some Seal \<Rightarrow> a\<lparr>ac_passed := Suc (ac_passed a), ac_sealed := True\<rparr>
      | Some Reject \<Rightarrow> a\<lparr>ac_refused := Suc (ac_refused a)\<rparr>
      | _ \<Rightarrow> a)"

definition note_position :: "int \<Rightarrow> deferred_request \<Rightarrow> account \<Rightarrow> account" where
  "note_position pos req a =
     (if pos > 0 then a\<lparr>ac_accepted := ac_accepted a @ [req]\<rparr>
      else if pos < 0 then a\<lparr>ac_refused := Suc (ac_refused a)\<rparr> else a)"

type_synonym audited = "effect_gate \<times> (string \<Rightarrow> account)"

fun gate_step :: "gate_op \<Rightarrow> audited \<Rightarrow> audited" where
  "gate_step (Begin sid policy unlisted opaque rules txn mb me) (g, a) =
     (case gate_begin sid policy unlisted opaque rules txn mb me g of
        (Inl _, g') \<Rightarrow> (g', a) | (Inr _, g') \<Rightarrow> (g', a(sid := no_account)))"
| "gate_step (End sid) (g, a) = (snd (gate_end sid g), a(sid := no_account))"
| "gate_step (Drain sid) (g, a) =
     (case drain sid g of (reqs, g') \<Rightarrow> (g', a(sid := (a sid)\<lparr>ac_drained := ac_drained (a sid) @ reqs\<rparr>)))"
| "gate_step (DecideWrite sid host method path) (g, a) =
     (case decide_write sid host method path g of (d, g') \<Rightarrow> (g', a(sid := note_decision d (a sid))))"
| "gate_step (DecideOpaque sid) (g, a) =
     (case decide_opaque sid g of (d, g') \<Rightarrow> (g', a(sid := note_decision d (a sid))))"
| "gate_step (Enqueue sid req) (g, a) =
     (case enqueue sid req g of (pos, g') \<Rightarrow> (g', a(sid := note_position pos req (a sid))))"

definition gate_run :: "gate_op list \<Rightarrow> audited" where
  "gate_run ops = fold gate_step ops (Map.empty, \<lambda>_. no_account)"

definition queued_size :: "deferred_request list \<Rightarrow> int" where
  "queued_size q = sum_list (map (\<lambda>r. int (length (dr_body r))) q)"

definition accounted :: "effect_session \<Rightarrow> account \<Rightarrow> bool" where
  "accounted s a =
     (ac_accepted a = ac_drained a @ es_queue s
      \<and> es_deferred s = int (length (ac_accepted a))
      \<and> es_passed s = int (ac_passed a) \<and> es_rejected s = int (ac_refused a) \<and> es_sealed s = ac_sealed a
      \<and> es_queued_bytes s = queued_size (es_queue s)
      \<and> (es_queue s \<noteq> [] \<longrightarrow>
           int (length (es_queue s)) \<le> es_max_queue_entries s \<and> es_queued_bytes s \<le> es_max_queue_bytes s))"

lemma accounted_decision:
  assumes "accounted s a"
  shows "accounted (count_decision d s) (note_decision (Some d) a)"
  using assms by (cases d) (auto simp: accounted_def count_decision_def note_decision_def)

lemma accounted_enqueue:
  assumes "accounted s a" "g sid = Some s" "enqueue sid req g = (pos, g')"
  shows "\<exists>s'. g' = g(sid \<mapsto> s') \<and> accounted s' (note_position pos req a)"
  using assms by (auto simp: enqueue_def Let_def accounted_def note_position_def queued_size_def split: if_splits)

definition all_accounted :: "audited \<Rightarrow> bool" where
  "all_accounted ga = (\<forall>sid s. fst ga sid = Some s \<longrightarrow> accounted s (snd ga sid))"

lemma all_accounted_update:
  assumes "all_accounted (g, a)" "\<And>x. x \<noteq> sid \<Longrightarrow> g' x = g x" "\<And>s. g' sid = Some s \<Longrightarrow> accounted s b"
  shows "all_accounted (g', a(sid := b))"
  unfolding all_accounted_def
proof (intro allI impI)
  fix x s assume "fst (g', a(sid := b)) x = Some s"
  then show "accounted s (snd (g', a(sid := b)) x)" using assms by (cases "x = sid") (simp_all add: all_accounted_def)
qed

lemma all_accountedD: "all_accounted (g, a) \<Longrightarrow> g sid = Some s \<Longrightarrow> accounted s (a sid)"
  by (simp add: all_accounted_def)

lemma note_none [simp]: "note_decision None a = a"
  by (simp add: note_decision_def)

lemma gate_step_accounted:
  assumes "all_accounted (g, a)"
  shows "all_accounted (gate_step op (g, a))"
proof (cases op)
  case (Begin sid policy unlisted opaque rules txn mb me)
  have "accounted (new_session policy unlisted opaque rules txn mb me) no_account"
    by (simp add: new_session_def accounted_def no_account_def queued_size_def)
  then have "all_accounted (g(sid \<mapsto> new_session policy unlisted opaque rules txn mb me), a(sid := no_account))"
    by (intro all_accounted_update [OF assms]) auto
  then show ?thesis using assms Begin by (simp add: gate_begin_def Let_def)
next
  case (End sid)
  then show ?thesis using all_accounted_update [OF assms, of sid "g(sid := None)"] by (simp add: gate_end_def)
next
  case (Drain sid)
  show ?thesis
  proof (cases "g sid")
    case (Some s)
    have "accounted (s\<lparr>es_queue := [], es_queued_bytes := 0\<rparr>) ((a sid)\<lparr>ac_drained := ac_drained (a sid) @ es_queue s\<rparr>)"
      using all_accountedD [OF assms Some] by (simp add: accounted_def queued_size_def)
    then show ?thesis
      using all_accounted_update [OF assms, of sid "g(sid \<mapsto> s\<lparr>es_queue := [], es_queued_bytes := 0\<rparr>)"] Drain Some
      by (simp add: drain_def)
  qed (use Drain assms in \<open>simp add: drain_def\<close>)
next
  case (DecideWrite sid host meth p)
  show ?thesis
  proof (cases "g sid")
    case (Some s)
    let ?d = "decide s host meth p"
    show ?thesis
      using all_accounted_update [OF assms, of sid "g(sid \<mapsto> count_decision ?d s)"] DecideWrite Some
        accounted_decision [OF all_accountedD [OF assms Some]] by (simp add: decide_write_def Let_def)
  qed (use DecideWrite assms in \<open>simp add: decide_write_def\<close>)
next
  case (DecideOpaque sid)
  show ?thesis
  proof (cases "g sid")
    case (Some s)
    obtain d where d: "decide_opaque sid g = (Some d, g(sid \<mapsto> count_decision d s))" using Some by (simp add: decide_opaque_def Let_def)
    show ?thesis
      using all_accounted_update [OF assms, of sid "g(sid \<mapsto> count_decision d s)"] DecideOpaque d
        accounted_decision [OF all_accountedD [OF assms Some]] by simp
  qed (use DecideOpaque assms in \<open>simp add: decide_opaque_def\<close>)
next
  case (Enqueue sid req)
  obtain pos g' where e: "enqueue sid req g = (pos, g')" by (metis surj_pair)
  show ?thesis
  proof (cases "g sid")
    case None
    then show ?thesis using Enqueue assms by (simp add: enqueue_def note_position_def)
  next
    case (Some s)
    obtain s' where s': "g' = g(sid \<mapsto> s')" "accounted s' (note_position pos req (a sid))"
      using accounted_enqueue [OF all_accountedD [OF assms Some] Some e] by blast
    then show ?thesis using all_accounted_update [OF assms, of sid g'] Enqueue e by simp
  qed
qed

lemma gate_run_accounted: "all_accounted (gate_run ops)"
proof (induction ops rule: rev_induct)
  case Nil
  show ?case by (simp add: gate_run_def all_accounted_def)
next
  case (snoc op ops)
  have "gate_run (ops @ [op]) = gate_step op (gate_run ops)" by (simp add: gate_run_def)
  then show ?case using snoc gate_step_accounted by (metis surj_pair)
qed

section \<open>Bodies\<close>

lemma recv_prefix: "recv n sock = (chunk, sock') \<Longrightarrow> n > 0 \<Longrightarrow> length chunk \<le> n \<and> chunk @ concat sock' = concat sock"
  by (auto simp: recv_def split: list.splits if_splits)

lemma receive_body_prefix:
  "length body \<le> len \<Longrightarrow> length (receive_body len body sock) \<le> len \<and> prefix (receive_body len body sock) (body @ concat sock)"
proof (induction len body sock rule: receive_body.induct)
  case (1 len body sock)
  obtain chunk sock' where r: "recv (min 65536 (len - length body)) sock = (chunk, sock')" by (metis surj_pair)
  show ?case
  proof (cases "length body < len \<and> chunk \<noteq> []")
    case True
    then have c: "length chunk \<le> min 65536 (len - length body)" "chunk @ concat sock' = concat sock" using recv_prefix [OF r] by auto
    have "receive_body len body sock = receive_body len (body @ chunk) sock'"
      using True r by (subst receive_body.simps) simp
    then show ?thesis using 1 True r c by fastforce
  next
    case False
    then have "receive_body len body sock = body" using r by (subst receive_body.simps) auto
    then show ?thesis using 1(2) by simp
  qed
qed

text \<open>A body reported whole is what the head announced, cut from the bytes of the connection; without an announced
  length only the empty rest counts as whole.\<close>

lemma read_remaining_body_whole:
  assumes "read_remaining_body sock h already limit = (body, True)"
  shows "(\<exists>n. content_length h = Some (int n) \<and> int n \<le> limit \<and> length body = n \<and> body = take n (already @ concat sock))
    \<or> content_length h = None \<and> already = [] \<and> body = []"
proof (cases "content_length h")
  case None
  then show ?thesis using assms by (auto simp: read_remaining_body_def)
next
  case (Some n)
  then have n: "\<not> n > limit" "\<not> n < 0" "body = receive_body (nat n) (take (nat n) already) sock" "int (length body) = n"
    using assms by (auto simp: read_remaining_body_def Let_def split: if_splits)
  have "prefix body (take (nat n) already @ concat sock)"
    using receive_body_prefix [of "take (nat n) already" "nat n" sock] n(3) by simp
  moreover have "prefix (take (nat n) (take (nat n) already @ concat sock)) (take (nat n) already @ concat sock)" by (rule take_is_prefix)
  ultimately have "body = take (nat n) (take (nat n) already @ concat sock)"
    using n(2,4) by (metis append_eq_conv_conj nat_int prefix_def)
  also have "\<dots> = take (nat n) (already @ concat sock)"
    by (cases "length already \<le> nat n") auto
  finally have b: "body = take (nat n) (already @ concat sock)" .
  have "length body = nat n" "n = int (nat n)" "int (nat n) \<le> limit" using n(1,2,4) by simp_all
  then show ?thesis using Some b by metis
qed

lemma filter_headers_denied:
  assumes "(name, v) \<in> set (filter_headers hs deny)"
  shows "map latin1_lower name \<notin> set (map (map latin1_lower) deny)" and "(name, v) \<in> set hs"
  using assms by (auto simp: filter_headers_def)

section \<open>Flows\<close>

lemma gate_flow_deferred:
  assumes "gate_flow px sid f now g = (Answer r ''deferred'', g')"
  obtains g1 req s pos where "gate_decision px sid f g = (Some Defer, g1)"
    "deferred_of px f (case g sid of None \<Rightarrow> None | Some s \<Rightarrow> es_txn_id s) now = Some req"
    "enqueue sid req g1 = (pos, g')" "pos > 0"
proof -
  obtain d g1 where d: "gate_decision px sid f g = (d, g1)" by (metis surj_pair)
  have "d = Some Defer" using assms d by (auto simp: gate_flow_def split: option.splits decision.splits)
  moreover obtain req where "deferred_of px f (case g sid of None \<Rightarrow> None | Some s \<Rightarrow> es_txn_id s) now = Some req"
    using assms d calculation by (auto simp: gate_flow_def split: option.splits)
  moreover obtain pos g2 where "enqueue sid req g1 = (pos, g2)" by (metis surj_pair)
  ultimately show thesis using that d assms by (auto simp: gate_flow_def split: if_splits)
qed

lemma gate_decision_defer:
  assumes "gate_decision px sid f g = (Some Defer, g1)"
  shows "g1 = g \<and> (\<exists>s. g sid = Some s)"
proof -
  have op: "fst (decide_opaque sid g) \<noteq> Some Defer" by (auto simp: decide_opaque_def Let_def split: option.splits)
  have "decide_write sid host meth p g = (Some Defer, g1) \<Longrightarrow> g1 = g \<and> (\<exists>s. g sid = Some s)" for host meth p
    by (auto simp: decide_write_def Let_def count_decision_def split: option.splits)
  then show ?thesis using assms op by (auto simp: gate_decision_def Let_def split: if_splits)
qed


text \<open>Several connections one after the other.\<close>

fun proxy_run :: "proxy_server \<Rightarrow> string \<Rightarrow> (flow \<times> string) list \<Rightarrow> effect_gate \<Rightarrow> flow_action list \<times> effect_gate" where
  "proxy_run px sid [] g = ([], g)"
| "proxy_run px sid ((f, now) # fs) g =
     (case gate_flow px sid f now g of (a, g1) \<Rightarrow> (case proxy_run px sid fs g1 of (as, g2) \<Rightarrow> (a # as, g2)))"

definition strict :: "effect_session \<Rightarrow> bool" where
  "strict s =
     ((es_policy s = ''reject'' \<or> es_policy s = ''defer'' \<and> es_on_unlisted s = ''reject'' \<and> list_all er_defer (es_rules s))
      \<and> es_opaque_effects s = ''reject'')"

definition harmless :: "proxy_server \<Rightarrow> flow \<Rightarrow> bool" where
  "harmless px f =
     (fl_scheme f \<in> {''http'', ''https''}
      \<and> classify_flow (fl_method f) (flow_host f) (px_rules px) \<notin> {''mutating'', ''opaque''})"

lemma strict_decide:
  assumes "strict s"
  shows "decide s host method path \<in> {Defer, Reject}"
proof -
  have "er_defer rule" if "find P (es_rules s) = Some rule" "list_all er_defer (es_rules s)" for P rule
    using that by (metis find_Some_iff list_all_length)
  then show ?thesis using assms by (auto simp: strict_def decide_def split: option.splits)
qed

lemma strict_count [simp]: "strict (count_decision d s) = strict s"
  by (cases d) (simp_all add: strict_def count_decision_def)

lemma strict_gate_decision:
  assumes "g sid = Some s" "strict s" "gate_decision px sid f g = (d, g1)"
  shows "(d = None \<and> harmless px f \<or> d \<in> {Some Defer, Some Reject}) \<and> (\<exists>s1. g1 sid = Some s1 \<and> strict s1)"
proof -
  have op: "decide_opaque sid g = (Some Reject, g(sid \<mapsto> count_decision Reject s))"
    using assms(1,2) by (simp add: decide_opaque_def strict_def)
  have wr: "decide_write sid host meth p g = (Some (decide s host meth p), g(sid \<mapsto> count_decision (decide s host meth p) s))"
    for host meth p using assms(1) by (simp add: decide_write_def Let_def)
  show ?thesis
    using assms op wr strict_decide [OF assms(2), of "flow_host f" "opt_or (fl_method f) []" "opt_or (fl_path f) ''/''"] by (auto simp: gate_decision_def harmless_def Let_def split: if_splits)
qed

lemma strict_gate_flow:
  assumes "g sid = Some s" "strict s" "gate_flow px sid f now g = (a, g')"
  shows "(a = Forward \<longrightarrow> harmless px f) \<and> (\<exists>s'. g' sid = Some s' \<and> strict s')"
proof -
  obtain d g1 where d: "gate_decision px sid f g = (d, g1)" by (metis surj_pair)
  note sd = strict_gate_decision [OF assms(1,2) d]
  obtain s1 where s1: "g1 sid = Some s1" "strict s1" using sd by blast
  have e: "enqueue sid req g1 = (pos, g2) \<Longrightarrow> \<exists>s2. g2 sid = Some s2 \<and> strict s2" for req pos g2
    using s1 by (auto simp: enqueue_def Let_def strict_def split: if_splits)
  show ?thesis
    using assms(3) d sd s1 e by (auto simp: gate_flow_def split: option.splits prod.splits if_splits)
qed


text \<open>C20.  The gate's accounts are exact.  After any calls, a session's queue is what was accepted and not yet drained,
  in order; its counters are the numbers of accepted, refused and passed flows; it is sealed exactly if a flow was let
  through under seal; its byte count is the size of the queue; and the queue is within both limits.\<close>

theorem effect_gate_accounts:
  assumes "fst (gate_run ops) sid = Some s"
  shows "accounted s (snd (gate_run ops) sid)"
  using gate_run_accounted [of ops] assms by (simp add: all_accounted_def)

section \<open>Examples\<close>

text \<open>For evaluation: the size of a read is compared as an integer, not counted up to the limit.\<close>

lemma receive_body_code [code]:
  "receive_body len body sock =
     (if length body < len
      then (case recv (if int (len - length body) \<le> 65536 then len - length body else 65536) sock of
              (chunk, sock') \<Rightarrow> if chunk = [] then body else receive_body len (body @ chunk) sock')
      else body)"
proof -
  have "min 65536 n = (if int n \<le> 65536 then n else 65536)" for n :: nat by (auto simp: min_def)
  then show ?thesis by (subst receive_body.simps) (simp only:)
qed

definition example_rule :: effect_rule where
  "example_rule = \<lparr>er_host_glob = ''*.example'', er_method = ''POST'', er_path_glob = ''/x*'', er_defer = True\<rparr>"

definition example_gate :: effect_gate where
  "example_gate = snd (gate_begin ''sb1'' ''defer'' ''reject'' ''reject'' [example_rule] (Some ''txn-1'') 1000 2 Map.empty)"

definition example_proxy :: proxy_server where
  "example_proxy = \<lparr>px_rules = [], px_max_deferred_body_bytes = 100\<rparr>"

definition http_lines :: "string list \<Rightarrow> string" where
  "http_lines ls = concat (map (\<lambda>l. l @ crlf) ls) @ crlf"

definition example_flow :: "string \<Rightarrow> string list \<Rightarrow> string list \<Rightarrow> flow" where
  "example_flow method hs sock =
     \<lparr>fl_scheme = ''http'', fl_method = Some method, fl_path = Some ''/x1'', fl_host = ''api.example:80'', fl_dst_ip = ''10.0.0.1'',
      fl_dst_port = 80, fl_head = http_lines ((method @ '' /x1 HTTP/1.1'') # hs), fl_socket = sock\<rparr>"

definition example_post :: flow where
  "example_post = (example_flow ''POST'' [''Host: api.example'', ''Cookie: secret'', ''Content-Length: 3''] [''b'', ''cd''])
     \<lparr>fl_host := ''api.example''\<rparr>"

lemma example_answer: "fst (gate_flow example_proxy ''sb1'' example_post ''t'' example_gate) = Answer deferred_response ''deferred''"
  by code_simp



theorem effect_gate_accounts_witness:
  "\<exists>s. fst (gate_run [Begin ''sb1'' ''seal'' ''reject'' ''allow'' [] None 10 10, DecideWrite ''sb1'' ''h'' ''POST'' ''/'']) ''sb1'' = Some s
     \<and> es_sealed s \<and> es_passed s = 1"
proof -
  let ?ops = "[Begin ''sb1'' ''seal'' ''reject'' ''allow'' [] None 10 10, DecideWrite ''sb1'' ''h'' ''POST'' ''/'']"
  obtain s where s: "fst (gate_run ?ops) ''sb1'' = Some s"
    by (simp add: gate_run_def gate_begin_def decide_write_def effect_policies_def unlisted_behaviors_def opaque_behaviors_def Let_def)
  have "ac_sealed (snd (gate_run ?ops) ''sb1'')" "ac_passed (snd (gate_run ?ops) ''sb1'') = 1"
    by (simp_all add: gate_run_def gate_begin_def decide_write_def effect_policies_def unlisted_behaviors_def opaque_behaviors_def
        Let_def decide_def new_session_def note_decision_def no_account_def)
  then show ?thesis using effect_gate_accounts [OF s] s by (auto simp: accounted_def)
qed

text \<open>A chunked body that arrives after the head is lost: the request is held with an empty body.\<close>

lemma chunked_body_lost:
  "let r = gate_flow example_proxy ''sb1''
             (example_flow ''POST'' [''Transfer-Encoding: chunked''] [''3'' @ crlf @ ''abc'' @ crlf @ ''0'' @ crlf @ crlf]
                \<lparr>fl_host := ''api.example''\<rparr>) ''t'' example_gate
   in fst r = Answer deferred_response ''deferred'' \<and> map dr_body (es_queue (the (snd r ''sb1''))) = [[]]"
  by code_simp

end
