(* ===== verification/Spec2Isabelle.thy ===== *)
theory Spec2Isabelle
  imports Sched_Policy Inspector Runtime_Mem Scheduler Timestamps Manifest Storage
    Storage_Deletion Storage_Links Restore Retention Prune_Queue Composite Http_Wire Simulation
    Executor Executor_Pool Text_Merge Merging Merge_Safety Json Journal Journal_Log Glob Effects Effect_Ledger
begin

text \<open>
  Crab is a checkpoint and restore layer for agent sandboxes.  A scheduler decides, from what an inspector saw change,
  when a sandbox is captured and in which halves (processes, filesystem); an executor runs the jobs; workers drive a
  runtime, write artifacts and manifests to a store, and restore from them; retention prunes the store.  Around this,
  forks are merged back into their source, an egress proxy gates the side effects of transactions, and a journal records
  what happened.  This development models these parts as executable functions over explicit state and proves what makes
  each of them correct.  File names below are relative to \<^verbatim>\<open>crab/\<close>.

  \<^bold>\<open>Shared vocabulary.\<close>  \<open>Crab_Prelude\<close> has Python values (\<open>pyval\<close>), errors as values (\<open>py_error + 'a\<close>), actions that
  pass a state along and may raise (\<open>('w, 'a) act\<close>), and generic lemmas.  Identifiers are strings, floats are rationals, instants
  are integers of microseconds, a dictionary is a map or, where its order matters, an association list.  \<open>Digits\<close> and
  \<open>Json\<close> have the texts of numbers and what the code uses of Python's \<open>json\<close>, with the round trip
  \<open>loads (dumps v) = v\<close>; \<open>Glob\<close> has \<open>fnmatch\<close>; \<open>Timestamps\<close> has \<open>_isoformat\<close> of \<^verbatim>\<open>models.py\<close> and that the
  order of its texts is the order of instants, on which the sorting of manifests rests.  \<open>Simulation\<close> is the locale of
  forward simulations that the refinement proofs interpret.

  \<^bold>\<open>Deciding.\<close>  \<open>Sched_Policy\<close>: the policies and the state store of \<^verbatim>\<open>scheduler.py\<close>.  Every policy covers what changed,
  selects exactly under the documented condition, makes valid jobs, and keeps incremental chains below both limits.
  \<open>Scheduler\<close>: \<open>CRScheduler\<close>, with pausing and resuming as an interface (locale \<open>pausable\<close>, interpreted on the in-memory
  runtime).  A query that raises or declines leaves no sandbox paused.  \<open>Inspector\<close>: \<^verbatim>\<open>inspector.py\<close>, change bits and
  cursors.  \<open>Runtime_Mem\<close>: \<^verbatim>\<open>runtime/in_memory.py\<close>.

  \<^bold>\<open>Storing.\<close>  \<open>Manifest\<close> and \<open>Storage\<close>: manifests of \<^verbatim>\<open>models.py\<close> and \<open>LocalCheckpointManager\<close> of \<^verbatim>\<open>storage/local.py\<close>
  over the files of the storage root.  \<open>Storage_Deletion\<close>: \<open>descendants\<close> is reachability, deletion keeps every remaining
  manifest's dependencies and is not refused on chronological stores.  \<open>Storage_Links\<close>: artifacts borrowed by forks
  through symbolic links.  \<open>Retention\<close> and \<open>Prune_Queue\<close>: the managers of \<^verbatim>\<open>storage/policies.py\<close> and their background
  dispatcher, as a step relation over callers and worker.  Pruning keeps what the newest restore needs, no request is
  lost, and the work comes to rest.

  \<^bold>\<open>Capturing and restoring.\<close>  \<open>Restore\<close> and \<open>Composite\<close>: \<^verbatim>\<open>workers/composite.py\<close>, \<^verbatim>\<open>workers/process.py\<close> and
  \<^verbatim>\<open>workers/filesystem.py\<close>.  A checkpoint that reports success can be restored from, and a restore uses exactly the
  sources the resolution names, filesystem first.  \<open>Executor\<close> and \<open>Executor_Pool\<close>: \<^verbatim>\<open>executor.py\<close>, the queues, worker slots,
  retries and shutdown as a step relation in which every interleaving of threads is a sequence of steps.  It refines the
  contract of a bounded job board, loses no job, and bounds the wait in the normal queue.

  \<^bold>\<open>Merging.\<close>  \<open>Text_Merge\<close>: \<^verbatim>\<open>textmerge.py\<close> with \<open>splitlines\<close> and \<open>difflib\<close>'s matching.  \<open>Merging\<close> and
  \<open>Merge_Safety\<close>: \<^verbatim>\<open>merging.py\<close> over directory trees.  A plan touches nothing the source changed unless told to, and a
  failed merge is undone.

  \<^bold>\<open>Effects and the journal.\<close>  \<open>Http_Wire\<close>: \<^verbatim>\<open>http_wire.py\<close>, parsing, printing and assembling of responses.  \<open>Effects\<close> and
  \<open>Effect_Ledger\<close>: \<^verbatim>\<open>effects.py\<close> and the part of the handler in \<^verbatim>\<open>egress.py\<close> that asks the gate.  Under a strict
  session only reads leave; a write answered as deferred is in the queue, whole and without credentials; the accounts are
  exact and the limits hold.  \<open>Journal\<close> and \<open>Journal_Log\<close>: \<^verbatim>\<open>journal.py\<close>.  The files implement a log that survives
  restarts of the process.

  \<^bold>\<open>Loops and fuel.\<close>  Loops are total functions with a measure, except the decoder of chunked bodies, which may run
  forever and is a partial function into \<open>option\<close>.  Symbolic links are followed with fuel: a store with \<open>n\<close> entries
  allows \<open>n\<close> steps, as many as a path without a cycle can have, and more fuel never changes an answer (\<open>follow_fuel\<close>).  The
  JSON scanner starts with twice the length of the text and two calls more, and more fuel never changes its answer
  (\<open>scan_value_enough\<close>), so running out is never the reason for an error.

  \<^bold>\<open>Parameters.\<close>  Code outside the repository is an argument of the definitions: the runtime a worker drives, the clock,
  SHA-256, the printing of floats, merge hooks, the JSON reader of the store, and the errors of the host's file system.
  What a theorem needs of one of them is a named hypothesis with a concrete instance in the witness.

  \<^bold>\<open>Not modelled.\<close>  The orchestration in \<^verbatim>\<open>system.py\<close> with its transaction and fork flows, the runc runtime and the
  filesystem providers, the host inspector, the response interceptor, TLS, recording to and replay from cassettes, the daemon,
  gateway, engine and command line, and all of the integrations and benchmarks: these are I/O on processes, sockets,
  kernel interfaces or databases.  Characters are those of one byte.  Of the filesystem merge, the times of links and
  directories, hard links and extended attributes are left out.
\<close>

end
